(* ===== verification/Prelude.thy ===== *)
theory Prelude
  imports Main "HOL-Library.Word" "HOL-Library.Monad_Syntax"
begin

text \<open>
  Shared vocabulary of the development: the characters and C strings the sources work on,
  memory buffers with checked reads and writes, the flag words of \<open>init.h\<close>, and the generic
  lemmas on lists, options and words that the component theories use through the collections
  \<open>flag_simps\<close> and \<open>buf_simps\<close>.

  A C string is a \<open>string\<close> without its terminating NUL.  A buffer is a list of characters,
  the NUL included; a read or a write outside the list is \<open>None\<close>, so that an access out of
  bounds is a value the theorems can exclude.
\<close>

unbundle bit_operations_syntax

named_theorems flag_simps "tests of flag words after they are set and cleared"
named_theorems buf_simps "checked reads and writes of buffers"

subsection \<open>Characters\<close>

abbreviation NUL :: char where "NUL \<equiv> CHR 0x00"
abbreviation TAB :: char where "TAB \<equiv> CHR 0x09"
abbreviation NL :: char where "NL \<equiv> CHR 0x0A"
abbreviation CR :: char where "CR \<equiv> CHR 0x0D"
abbreviation SP :: char where "SP \<equiv> CHR 0x20"
abbreviation DQ :: char where "DQ \<equiv> CHR 0x22"
abbreviation HASH :: char where "HASH \<equiv> CHR 0x23"
abbreviation DOLLAR :: char where "DOLLAR \<equiv> CHR 0x24"
abbreviation SLASH :: char where "SLASH \<equiv> CHR 0x2F"
abbreviation BSL :: char where "BSL \<equiv> CHR 0x5C"

subsection \<open>Checked buffers\<close>

definition char_at :: "char list \<Rightarrow> nat \<Rightarrow> char option" where
  "char_at b i = (if i < length b then Some (b ! i) else None)"

definition put_at :: "char list \<Rightarrow> nat \<Rightarrow> char \<Rightarrow> char list option" where
  "put_at b i c = (if i < length b then Some (b[i := c]) else None)"

text \<open>The C string that starts at offset \<open>i\<close> of a buffer.\<close>

definition cstr_at :: "char list \<Rightarrow> nat \<Rightarrow> string" where
  "cstr_at b i = takeWhile (\<lambda>c. c \<noteq> NUL) (drop i b)"

lemma char_at_SomeD: "char_at b i = Some c \<Longrightarrow> i < length b"
  by (simp add: char_at_def split: if_splits)

lemma put_at_SomeD: "put_at b i c = Some b' \<Longrightarrow> i < length b \<and> b' = b[i := c]"
  by (simp add: put_at_def split: if_splits)

lemma put_at_length: "put_at b i c = Some b' \<Longrightarrow> length b' = length b"
  by (auto dest: put_at_SomeD)

lemma char_at_drop: "drop i b = c # r \<Longrightarrow> char_at b i = Some c"
  by (metis char_at_def drop_all linorder_not_le list.distinct(1) nth_via_drop)

lemma drop_Suc_eq: "drop i b = c # r \<Longrightarrow> drop (Suc i) b = r"
  by (metis drop_Suc list.sel(3) tl_drop)

lemma drop_less_length: "drop i b = c # r \<Longrightarrow> i < length b"
  by (metis drop_all leI list.distinct(1))

lemma put_at_drop_before:
  "s < x \<Longrightarrow> x \<le> length b \<Longrightarrow> put_at b s c = Some (b[s := c]) \<and> drop x (b[s := c]) = drop x b"
  by (simp add: put_at_def)

lemma put_at_take_before: "t \<le> s \<Longrightarrow> take t (b[s := c]) = take t b"
  by simp

lemma take_drop_snoc:
  "t \<le> s \<Longrightarrow> s < length b \<Longrightarrow>
   take (Suc s - t) (drop t (b[s := c])) = take (s - t) (drop t b) @ [c]"
proof -
  assume ts: "t \<le> s" and sl: "s < length b"
  have sub: "Suc s - t = Suc (s - t)" using ts by simp
  have len: "s - t < length (drop t (b[s := c]))" using ts sl by simp
  have "take (Suc (s - t)) (drop t (b[s := c]))
      = take (s - t) (drop t (b[s := c])) @ [drop t (b[s := c]) ! (s - t)]"
    by (rule take_Suc_conv_app_nth [OF len])
  also have "drop t (b[s := c]) ! (s - t) = c" using ts sl by simp
  also have "take (s - t) (drop t (b[s := c])) = take (s - t) (drop t b)"
    using ts by (simp add: drop_update_swap)
  finally show ?thesis by (simp only: sub)
qed

lemma cstr_at_eq:
  assumes "take n (drop t b) = xs" "drop (t + n) b = NUL # r" "NUL \<notin> set xs"
  shows "cstr_at b t = xs"
proof -
  have "drop t b = xs @ NUL # r"
    using append_take_drop_id [of n "drop t b"] assms(1,2) by (simp add: add.commute)
  then show ?thesis
    using assms(3) by (simp add: cstr_at_def takeWhile_append)
qed

lemma cstr_at_no_NUL: "NUL \<notin> set (cstr_at b i)"
  by (auto simp: cstr_at_def dest: set_takeWhileD)

text \<open>A C string that ends before \<open>p\<close> is fixed by the first \<open>p\<close> characters of the buffer.\<close>

lemma cstr_at_end:
  assumes "t + length (cstr_at b t) < length b"
  shows "b ! (t + length (cstr_at b t)) = NUL"
proof -
  have "length (takeWhile (\<lambda>c. c \<noteq> NUL) (drop t b)) < length (drop t b)"
    using assms by (simp add: cstr_at_def)
  from nth_length_takeWhile [OF this] assms show ?thesis by (simp add: cstr_at_def)
qed

lemma cstr_at_take: "take (length (cstr_at b t)) (drop t b) = cstr_at b t"
  by (simp add: cstr_at_def takeWhile_eq_take [symmetric])

lemma cstr_at_take_cong:
  assumes "take p b' = take p b" "cstr_at b t = w" "t + length w < p" "p \<le> length b" "length b' = length b"
  shows "cstr_at b' t = w"
proof -
  have eq: "b' ! i = b ! i" if "i < p" for i
    using arg_cong [OF assms(1), of "\<lambda>l. l ! i"] that assms(4,5) by simp
  have "take (length w) (drop t b') = take (length w) (drop t b)"
    by (rule nth_equalityI) (use eq assms(3-5) in auto)
  with cstr_at_take [of b t] assms(2) have tk: "take (length w) (drop t b') = w" by simp
  have "b' ! (t + length w) = NUL"
    using eq [OF assms(3)] cstr_at_end [of t b] assms(2-4) by simp
  then have "drop (t + length w) b' = NUL # drop (Suc (t + length w)) b'"
    using assms(3-5) Cons_nth_drop_Suc [of "t + length w" b'] by simp
  moreover have "NUL \<notin> set w" using cstr_at_no_NUL [of b t] assms(2) by simp
  ultimately show ?thesis by (rule cstr_at_eq [OF tk])
qed

lemmas [buf_simps] = char_at_def put_at_def

subsection \<open>C strings\<close>

text \<open>\<open>has_prefix p s\<close> is the test \<open>!strncmp(s, p, strlen(p))\<close>.\<close>

definition has_prefix :: "string \<Rightarrow> string \<Rightarrow> bool" where
  "has_prefix p s \<longleftrightarrow> take (length p) s = p"

lemma has_prefix_iff: "has_prefix p s \<longleftrightarrow> (\<exists>r. s = p @ r)"
  by (metis append_eq_conv_conj append_take_drop_id has_prefix_def)

lemma has_prefix_append [simp]: "has_prefix p (p @ r)"
  by (simp add: has_prefix_def)

text \<open>\<open>strlcpy\<close> and \<open>snprintf\<close> keep at most \<open>n - 1\<close> characters of what they copy.\<close>

definition clip :: "nat \<Rightarrow> string \<Rightarrow> string" where
  "clip n s = take (n - 1) s"

lemma length_clip: "0 < n \<Longrightarrow> length (clip n s) < n"
  by (auto simp: clip_def min_def)

lemma clip_id: "length s < n \<Longrightarrow> clip n s = s"
  by (simp add: clip_def)

text \<open>\<open>strchr\<close> as a split: what stands before the first \<open>c\<close> of a string and after it.\<close>

fun split_first :: "char \<Rightarrow> string \<Rightarrow> (string \<times> string) option" where
  "split_first c [] = None"
| "split_first c (d # s) =
     (if d = c then Some ([], s) else map_option (\<lambda>(a, r). (d # a, r)) (split_first c s))"

lemma split_first_None: "split_first c s = None \<longleftrightarrow> c \<notin> set s"
  by (induction s) auto

lemma split_first_SomeD: "split_first c s = Some (a, r) \<Longrightarrow> s = a @ c # r \<and> c \<notin> set a"
  by (induction s arbitrary: a r) (auto split: if_splits)

lemma split_first_append: "c \<notin> set a \<Longrightarrow> split_first c (a @ c # r) = Some (a, r)"
  by (induction a) auto

lemma split_first_shorter: "split_first c s = Some (a, r) \<Longrightarrow> length r < length s"
  by (auto dest: split_first_SomeD)

text \<open>\<open>strrchr\<close>: what stands before the last \<open>c\<close> and after it.\<close>

definition split_last :: "char \<Rightarrow> string \<Rightarrow> (string \<times> string) option" where
  "split_last c s = map_option (\<lambda>(a, r). (rev r, rev a)) (split_first c (rev s))"

lemma split_last_SomeD: "split_last c s = Some (a, r) \<Longrightarrow> s = a @ c # r \<and> c \<notin> set r"
  by (auto simp: split_last_def dest!: split_first_SomeD) (metis append_Cons append_assoc append_self_conv2 rev.simps(2) rev_append rev_rev_ident)

subsection \<open>Flag words\<close>

text \<open>\<open>has w m\<close> is the C condition \<open>w & m\<close>; \<open>clear w m\<close> is \<open>w & ~m\<close>.\<close>

definition has :: "32 word \<Rightarrow> 32 word \<Rightarrow> bool" where
  "has w m \<longleftrightarrow> w AND m \<noteq> 0"

definition clear :: "32 word \<Rightarrow> 32 word \<Rightarrow> 32 word" where
  "clear w m = w AND NOT m"

lemma has_bit_iff: "has w m \<longleftrightarrow> (\<exists>i. bit w i \<and> bit m i)"
proof -
  have "has w m \<longleftrightarrow> (\<exists>i. bit (w AND m) i)" by (metis bit_0_eq bit_eq_iff bot_apply bot_bool_def has_def)
  then show ?thesis by (simp add: bit_and_iff)
qed

lemma has_or_left [flag_simps]: "has (w OR v) m \<longleftrightarrow> has w m \<or> has v m"
  by (auto simp: has_bit_iff bit_or_iff)

lemma has_or_right [flag_simps]: "has w (m OR n) \<longleftrightarrow> has w m \<or> has w n"
  by (auto simp: has_bit_iff bit_or_iff)

lemma has_zero [flag_simps]: "\<not> has 0 m"
  by (simp add: has_def)

text \<open>A single-bit test is not changed by clearing other bits and fails after clearing its own.\<close>

definition single :: "32 word \<Rightarrow> bool" where
  "single m \<longleftrightarrow> (\<exists>k < 32. m = 2 ^ k)"

lemma single_has: "single m \<Longrightarrow> \<exists>k<32. m = 2 ^ k \<and> (\<forall>w. has w m \<longleftrightarrow> bit w k)"
  by (auto simp: single_def has_bit_iff bit_exp_iff)

lemma has_clear [flag_simps]: "single m \<Longrightarrow> has (clear w c) m \<longleftrightarrow> has w m \<and> \<not> has c m"
proof -
  assume "single m"
  then obtain k where k: "k < 32" "\<And>w. has w m \<longleftrightarrow> bit w k" using single_has by blast
  show ?thesis using k(1) by (simp add: k(2) clear_def bit_and_iff bit_not_iff)
qed

subsection \<open>Updating one element of a list\<close>

definition upd_nth :: "nat \<Rightarrow> ('a \<Rightarrow> 'a) \<Rightarrow> 'a list \<Rightarrow> 'a list" where
  "upd_nth i f xs = (if i < length xs then xs[i := f (xs ! i)] else xs)"

lemma length_upd_nth [simp]: "length (upd_nth i f xs) = length xs"
  by (simp add: upd_nth_def)

lemma nth_upd_nth: "j < length xs \<Longrightarrow> upd_nth i f xs ! j = (if j = i then f (xs ! i) else xs ! j)"
  by (auto simp: upd_nth_def nth_list_update)

lemma map_upd_nth_same: "(\<And>x. g (f x) = g x) \<Longrightarrow> map g (upd_nth i f xs) = map g xs"
  by (rule nth_equalityI) (auto simp: nth_upd_nth)

lemma upd_nth_all:
  "\<forall>x \<in> set xs. Q x \<Longrightarrow> (\<And>x. x \<in> set xs \<Longrightarrow> Q x \<Longrightarrow> Q (f x)) \<Longrightarrow> \<forall>x \<in> set (upd_nth i f xs). Q x"
  by (auto simp: upd_nth_def dest!: set_update_subset_insert [THEN subsetD])

lemma takeWhile_stop: "\<forall>x \<in> set a. Q x \<Longrightarrow> \<not> Q c \<Longrightarrow> takeWhile Q (a @ c # r) = a"
  by (induction a) auto

text \<open>A property of both branches of a conditional, with its condition.\<close>

lemma if_both: "(b \<Longrightarrow> Q x) \<Longrightarrow> (\<not> b \<Longrightarrow> Q y) \<Longrightarrow> Q (if b then x else y)"
  by simp

subsection \<open>Decided searches\<close>

text \<open>The index of the first element that satisfies a test: \<open>list_for_each\<close> with an early return.\<close>

fun find_index :: "('a \<Rightarrow> bool) \<Rightarrow> 'a list \<Rightarrow> nat option" where
  "find_index p [] = None"
| "find_index p (x # xs) = (if p x then Some 0 else map_option Suc (find_index p xs))"

lemma find_index_Some:
  "find_index p xs = Some i \<Longrightarrow> i < length xs \<and> p (xs ! i) \<and> (\<forall>j<i. \<not> p (xs ! j))"
proof (induction xs arbitrary: i)
  case (Cons x xs)
  show ?case
  proof (cases "p x")
    case False
    with Cons.prems obtain k where k: "find_index p xs = Some k" "i = Suc k" by auto
    with Cons.IH [OF k(1)] False show ?thesis by (auto simp: less_Suc_eq_0_disj)
  qed (use Cons.prems in auto)
qed simp

lemma find_index_None: "find_index p xs = None \<longleftrightarrow> (\<forall>x \<in> set xs. \<not> p x)"
  by (induction xs) auto

lemma find_index_eq_SomeI:
  "i < length xs \<Longrightarrow> p (xs ! i) \<Longrightarrow> (\<And>j. j < i \<Longrightarrow> \<not> p (xs ! j)) \<Longrightarrow> find_index p xs = Some i"
proof (induction xs arbitrary: i)
  case (Cons x xs)
  show ?case
  proof (cases i)
    case (Suc k)
    have "\<not> p x" using Cons.prems(3) [of 0] Suc by simp
    moreover have "find_index p xs = Some k"
    proof (rule Cons.IH)
      fix j assume "j < k"
      then show "\<not> p (xs ! j)" using Cons.prems(3) [of "Suc j"] Suc by simp
    qed (use Cons.prems Suc in auto)
    ultimately show ?thesis using Suc by simp
  qed (use Cons.prems in auto)
qed simp

end
