(* ===== verification/CLib.thy ===== *)
theory CLib
  imports Prelude
begin

text \<open>
  The C library routines the sources call on characters and numbers, in the C locale and with
  the 32-bit \<open>int\<close> and \<open>long\<close> of the target: the \<open>ctype.h\<close> tests, \<open>strtoul\<close>, \<open>atoi\<close>, and the
  \<open>%d\<close> conversion of \<open>printf\<close>.  \<open>strtoul_show\<close> is the round trip between the last two.
\<close>

subsection \<open>Character classes\<close>

definition isdigit :: "char \<Rightarrow> bool" where
  "isdigit c \<longleftrightarrow> 48 \<le> (of_char c :: nat) \<and> (of_char c :: nat) \<le> 57"

definition isalpha :: "char \<Rightarrow> bool" where
  "isalpha c \<longleftrightarrow> 65 \<le> (of_char c :: nat) \<and> (of_char c :: nat) \<le> 90 \<or>
                97 \<le> (of_char c :: nat) \<and> (of_char c :: nat) \<le> 122"

definition isalnum :: "char \<Rightarrow> bool" where
  "isalnum c \<longleftrightarrow> isalpha c \<or> isdigit c"

definition isspace :: "char \<Rightarrow> bool" where
  "isspace c \<longleftrightarrow> c = SP \<or> 9 \<le> (of_char c :: nat) \<and> (of_char c :: nat) \<le> 13"

lemmas ctype_defs = isdigit_def isalpha_def isalnum_def isspace_def

subsection \<open>Numbers from text\<close>

text \<open>The value of a digit in the bases up to 36, \<open>None\<close> for another character.\<close>

definition digit_val :: "char \<Rightarrow> nat option" where
  "digit_val c = (let n = of_char c :: nat in
     if 48 \<le> n \<and> n \<le> 57 then Some (n - 48)
     else if 97 \<le> n \<and> n \<le> 122 then Some (n - 87)
     else if 65 \<le> n \<and> n \<le> 90 then Some (n - 55)
     else None)"

definition is_digit_in :: "nat \<Rightarrow> char \<Rightarrow> bool" where
  "is_digit_in base c \<longleftrightarrow> (case digit_val c of None \<Rightarrow> False | Some d \<Rightarrow> d < base)"

fun scan_digits :: "nat \<Rightarrow> nat \<Rightarrow> string \<Rightarrow> nat \<times> string" where
  "scan_digits base acc [] = (acc, [])"
| "scan_digits base acc (c # s) =
     (if is_digit_in base c then scan_digits base (acc * base + the (digit_val c)) s else (acc, c # s))"

definition scan_sign :: "string \<Rightarrow> bool \<times> string" where
  "scan_sign s = (case s of
     [] \<Rightarrow> (False, [])
   | c # r \<Rightarrow> if c = CHR ''-'' then (True, r) else if c = CHR ''+'' then (False, r) else (False, s))"

text \<open>The base: a prefix \<open>0x\<close> before a hexadecimal digit, or a leading zero, when it is not given.\<close>

definition scan_base :: "nat \<Rightarrow> string \<Rightarrow> nat \<times> string" where
  "scan_base base s =
     (if (base = 0 \<or> base = 16) \<and> (take 2 s = ''0x'' \<or> take 2 s = ''0X'') \<and>
         (case drop 2 s of [] \<Rightarrow> False | c # _ \<Rightarrow> is_digit_in 16 c) then (16, drop 2 s)
      else if base = 0 \<and> take 1 s = ''0'' then (8, s)
      else if base = 0 then (10, s)
      else (base, s))"

text \<open>
  \<open>strtoul(s, 0, base)\<close>: the value and whether \<open>errno\<close> is set.  Whether a text without digits
  sets it is left open by the C standard and is the parameter \<open>einval\<close>.
\<close>

definition strtoul :: "bool \<Rightarrow> nat \<Rightarrow> string \<Rightarrow> 32 word \<times> bool" where
  "strtoul einval base s =
     (let (neg, s1) = scan_sign (dropWhile isspace s);
          (b, s2) = scan_base base s1;
          (v, rest) = scan_digits b 0 s2
      in if rest = s2 then (0, einval)
         else if 2 ^ 32 \<le> v then (- 1, True)
         else (if neg then - of_nat v else of_nat v, False))"

text \<open>
  \<open>strtol(s, &endptr, base)\<close> with a given base below 16: the value, clamped to the range of a 32-bit
  \<open>long\<close>, and the text at \<open>endptr\<close>, which is the whole text when there are no digits.
\<close>

definition strtol :: "nat \<Rightarrow> string \<Rightarrow> int \<times> string" where
  "strtol base s =
     (let (neg, s1) = scan_sign (dropWhile isspace s);
          (v, rest) = scan_digits base 0 s1;
          n = (if neg then - int v else int v)
      in if rest = s1 then (0, s) else (max (- (2 ^ 31)) (min (2 ^ 31 - 1) n), rest))"

text \<open>\<open>atoi\<close>: \<open>strtol\<close> in base 10, with its clamping to the range of a 32-bit \<open>long\<close>.\<close>

definition atoi :: "string \<Rightarrow> int" where
  "atoi s =
     (let (neg, s1) = scan_sign (dropWhile isspace s);
          (v, rest) = scan_digits 10 0 s1;
          n = (if neg then - int v else int v)
      in max (- (2 ^ 31)) (min (2 ^ 31 - 1) n))"

subsection \<open>Numbers as text\<close>

definition digit_char :: "nat \<Rightarrow> char" where
  "digit_char d = char_of (48 + d)"

fun show_nat :: "nat \<Rightarrow> string" where
  "show_nat n = (if n < 10 then [digit_char n] else show_nat (n div 10) @ [digit_char (n mod 10)])"

declare show_nat.simps [simp del]

definition show_int :: "int \<Rightarrow> string" where
  "show_int n = (if n < 0 then CHR ''-'' # show_nat (nat (- n)) else show_nat (nat n))"

lemma of_char_digit_char: "d < 10 \<Longrightarrow> (of_char (digit_char d) :: nat) = 48 + d"
  by (simp add: digit_char_def)

lemma digit_val_digit_char: "d < 10 \<Longrightarrow> digit_val (digit_char d) = Some d"
  by (simp add: digit_val_def of_char_digit_char Let_def)

lemma scan_digits_append:
  assumes "\<forall>c \<in> set s. is_digit_in base c"
  shows "scan_digits base acc (s @ r) = scan_digits base (fst (scan_digits base acc s)) r"
  using assms by (induction s arbitrary: acc) auto

lemma show_nat_digits: "\<forall>c \<in> set (show_nat n). is_digit_in 10 c \<and> isdigit c"
proof (induction n rule: show_nat.induct)
  case (1 n)
  have d: "is_digit_in 10 (digit_char k) \<and> isdigit (digit_char k)" if "k < 10" for k
    using that by (simp add: is_digit_in_def digit_val_digit_char isdigit_def of_char_digit_char)
  show ?case using 1 d [of n] d [of "n mod 10"]
    by (cases "n < 10") (auto simp: show_nat.simps [of n])
qed

lemma show_nat_nonempty [simp]: "show_nat n \<noteq> []"
  by (simp add: show_nat.simps [of n])

lemma scan_digits_show: "fst (scan_digits 10 0 (show_nat n)) = n"
proof (induction n rule: show_nat.induct)
  case (1 n)
  show ?case
  proof (cases "n < 10")
    case True
    then show ?thesis
      by (simp add: show_nat.simps [of n] is_digit_in_def digit_val_digit_char)
  next
    case False
    have d: "digit_val (digit_char (n mod 10)) = Some (n mod 10)" by (simp add: digit_val_digit_char)
    have "scan_digits 10 0 (show_nat (n div 10) @ [digit_char (n mod 10)]) =
        scan_digits 10 (n div 10) [digit_char (n mod 10)]"
      using scan_digits_append [of "show_nat (n div 10)" 10 0 "[digit_char (n mod 10)]"]
        show_nat_digits [of "n div 10"] 1 [OF False] by simp
    with False d show ?thesis by (simp add: show_nat.simps [of n] is_digit_in_def)
  qed
qed

lemma scan_digits_rest_all: "\<forall>c \<in> set s. is_digit_in base c \<Longrightarrow> snd (scan_digits base acc s) = []"
  by (induction s arbitrary: acc) auto

lemma digit_char_0: "digit_char 0 = CHR ''0''"
  by (simp add: digit_char_def char_of_eq_iff)

lemma show_nat_hd:
  "show_nat n = c # r \<Longrightarrow> isdigit c \<and> (0 < n \<longrightarrow> c \<noteq> CHR ''0'') \<and> (n = 0 \<longrightarrow> r = [] \<and> c = CHR ''0'')"
proof (induction n arbitrary: r rule: show_nat.induct)
  case (1 n)
  show ?case
  proof (cases "n < 10")
    case True
    with 1(2) have c: "c = digit_char n" "r = []" by (auto simp: show_nat.simps [of n])
    then have "(of_char c :: nat) = 48 + n" using True by (simp add: of_char_digit_char)
    with c True show ?thesis by (auto simp: isdigit_def digit_char_0)
  next
    case False
    then obtain r' where "show_nat (n div 10) = c # r'"
      using 1 by (cases "show_nat (n div 10)") (auto simp: show_nat.simps [of n])
    with 1(1) [OF False] False show ?thesis by auto
  qed
qed

lemma isdigit_not: "isdigit c \<Longrightarrow> \<not> isspace c \<and> c \<noteq> CHR ''-'' \<and> c \<noteq> CHR ''+'' \<and> \<not> isalpha c"
  by (auto simp: ctype_defs)

text \<open>Reading back a number printed with \<open>%d\<close>, in base 10 or with the base left open.\<close>

lemma strtoul_show:
  assumes "base = 0 \<or> base = 10" "n < 2 ^ 32"
  shows "strtoul einval base (show_nat n) = (of_nat n, False)"
proof -
  obtain c r where cr: "show_nat n = c # r" by (cases "show_nat n") auto
  note hd = show_nat_hd [OF cr]
  note nd = isdigit_not [OF conjunct1 [OF hd]]
  have sign: "scan_sign (dropWhile isspace (show_nat n)) = (False, show_nat n)"
    using nd by (simp add: cr scan_sign_def)
  have b: "scan_base base (show_nat n) = (if base = 0 \<and> n = 0 then 8 else 10, show_nat n)"
    using hd assms(1) by (auto simp: cr scan_base_def)
  have full: "scan_digits 10 0 (show_nat n) = (n, [])"
    using scan_digits_show [of n] scan_digits_rest_all [of "show_nat n" 10 0] show_nat_digits [of n]
    by (metis prod.collapse)
  have zero: "scan_digits 8 0 ''0'' = (0, [])" by (simp add: is_digit_in_def digit_val_def Let_def)
  show ?thesis
  proof (cases "base = 0 \<and> n = 0")
    case True
    with hd have "c = CHR ''0''" "r = []" by simp_all
    with cr have "show_nat n = ''0''" by simp
    with True sign b zero show ?thesis by (simp add: strtoul_def)
  next
    case False
    with sign b full assms(2) cr show ?thesis by (auto simp: strtoul_def)
  qed
qed

end
