(* ===== verification/Keywords.thy ===== *)
theory Keywords
  imports CLib
begin

text \<open>
  The keyword table of \<open>keywords.h\<close> and \<open>lookup_keyword\<close> of \<open>init_parser.c\<close>.  The function
  pointers of the table are the constructors of \<open>builtin\<close>, which also has the actions that
  \<open>main\<close> queues with \<open>queue_builtin_action\<close>; \<open>Builtins\<close> and \<open>Init_Main\<close> give them their meaning.
\<close>

subsection \<open>Keywords and the functions they name\<close>

datatype (plugins only: code) keyword =
    K_UNKNOWN | K_capability | K_chdir | K_chroot | K_class | K_class_start | K_class_stop
    | K_class_reset | K_console | K_critical | K_disabled | K_domainname | K_exec
    | K_export | K_export_rc | K_group | K_hostname | K_ifup | K_insmod | K_import
    | K_keycodes | K_log | K_mkdir | K_mount_all | K_mount | K_on | K_oneshot
    | K_onrestart | K_restart | K_restorecon | K_rm | K_rmdir | K_seclabel | K_service
    | K_setcon | K_setenforce | K_setenv | K_setkey | K_setprop | K_setrlimit
    | K_setsebool | K_socket | K_start | K_stop | K_trigger | K_symlink | K_sysclktz
    | K_user | K_wait | K_write | K_copy | K_chown | K_chmod | K_loglevel
    | K_load_persist_props | K_ioprio

datatype (plugins only: code) builtin =
    F_do_chdir | F_do_chroot | F_do_class_start | F_do_class_stop | F_do_class_reset
    | F_do_domainname | F_do_exec | F_do_export | F_do_export_rc | F_do_hostname
    | F_do_ifup | F_do_insmod | F_do_log | F_do_mkdir | F_do_mount_all | F_do_mount
    | F_do_restart | F_do_restorecon | F_do_rm | F_do_rmdir | F_do_setcon
    | F_do_setenforce | F_do_setkey | F_do_setprop | F_do_setrlimit | F_do_setsebool
    | F_do_start | F_do_stop | F_do_trigger | F_do_symlink | F_do_sysclktz | F_do_wait
    | F_do_write | F_do_copy | F_do_chown | F_do_chmod | F_do_loglevel
    | F_do_load_persist_props | F_wait_for_coldboot_done_action | F_keychord_init_action
    | F_console_init_action | F_property_service_init_action | F_signal_init_action
    | F_check_startup_action | F_queue_property_triggers_action | F_bootchart_init_action

definition SECTION :: "32 word" where "SECTION = 0x01"
definition COMMAND :: "32 word" where "COMMAND = 0x02"
definition OPTION :: "32 word" where "OPTION = 0x04"

record keyword_entry =
  ki_name :: string
  ki_func :: "builtin option"
  ki_nargs :: nat
  ki_flags :: "32 word"

primrec keyword_info :: "keyword \<Rightarrow> keyword_entry" where
  "keyword_info K_UNKNOWN = \<lparr>ki_name = ''unknown'', ki_func = None, ki_nargs = 0, ki_flags = 0\<rparr>"
| "keyword_info K_capability = \<lparr>ki_name = ''capability'', ki_func = None, ki_nargs = 0 + 1, ki_flags = OPTION\<rparr>"
| "keyword_info K_chdir = \<lparr>ki_name = ''chdir'', ki_func = Some F_do_chdir, ki_nargs = 1 + 1, ki_flags = COMMAND\<rparr>"
| "keyword_info K_chroot = \<lparr>ki_name = ''chroot'', ki_func = Some F_do_chroot, ki_nargs = 1 + 1, ki_flags = COMMAND\<rparr>"
| "keyword_info K_class = \<lparr>ki_name = ''class'', ki_func = None, ki_nargs = 0 + 1, ki_flags = OPTION\<rparr>"
| "keyword_info K_class_start = \<lparr>ki_name = ''class_start'', ki_func = Some F_do_class_start, ki_nargs = 1 + 1, ki_flags = COMMAND\<rparr>"
| "keyword_info K_class_stop = \<lparr>ki_name = ''class_stop'', ki_func = Some F_do_class_stop, ki_nargs = 1 + 1, ki_flags = COMMAND\<rparr>"
| "keyword_info K_class_reset = \<lparr>ki_name = ''class_reset'', ki_func = Some F_do_class_reset, ki_nargs = 1 + 1, ki_flags = COMMAND\<rparr>"
| "keyword_info K_console = \<lparr>ki_name = ''console'', ki_func = None, ki_nargs = 0 + 1, ki_flags = OPTION\<rparr>"
| "keyword_info K_critical = \<lparr>ki_name = ''critical'', ki_func = None, ki_nargs = 0 + 1, ki_flags = OPTION\<rparr>"
| "keyword_info K_disabled = \<lparr>ki_name = ''disabled'', ki_func = None, ki_nargs = 0 + 1, ki_flags = OPTION\<rparr>"
| "keyword_info K_domainname = \<lparr>ki_name = ''domainname'', ki_func = Some F_do_domainname, ki_nargs = 1 + 1, ki_flags = COMMAND\<rparr>"
| "keyword_info K_exec = \<lparr>ki_name = ''exec'', ki_func = Some F_do_exec, ki_nargs = 1 + 1, ki_flags = COMMAND\<rparr>"
| "keyword_info K_export = \<lparr>ki_name = ''export'', ki_func = Some F_do_export, ki_nargs = 2 + 1, ki_flags = COMMAND\<rparr>"
| "keyword_info K_export_rc = \<lparr>ki_name = ''export_rc'', ki_func = Some F_do_export_rc, ki_nargs = 1 + 1, ki_flags = COMMAND\<rparr>"
| "keyword_info K_group = \<lparr>ki_name = ''group'', ki_func = None, ki_nargs = 0 + 1, ki_flags = OPTION\<rparr>"
| "keyword_info K_hostname = \<lparr>ki_name = ''hostname'', ki_func = Some F_do_hostname, ki_nargs = 1 + 1, ki_flags = COMMAND\<rparr>"
| "keyword_info K_ifup = \<lparr>ki_name = ''ifup'', ki_func = Some F_do_ifup, ki_nargs = 1 + 1, ki_flags = COMMAND\<rparr>"
| "keyword_info K_insmod = \<lparr>ki_name = ''insmod'', ki_func = Some F_do_insmod, ki_nargs = 1 + 1, ki_flags = COMMAND\<rparr>"
| "keyword_info K_import = \<lparr>ki_name = ''import'', ki_func = None, ki_nargs = 1 + 1, ki_flags = SECTION\<rparr>"
| "keyword_info K_keycodes = \<lparr>ki_name = ''keycodes'', ki_func = None, ki_nargs = 0 + 1, ki_flags = OPTION\<rparr>"
| "keyword_info K_log = \<lparr>ki_name = ''log'', ki_func = Some F_do_log, ki_nargs = 1 + 1, ki_flags = COMMAND\<rparr>"
| "keyword_info K_mkdir = \<lparr>ki_name = ''mkdir'', ki_func = Some F_do_mkdir, ki_nargs = 1 + 1, ki_flags = COMMAND\<rparr>"
| "keyword_info K_mount_all = \<lparr>ki_name = ''mount_all'', ki_func = Some F_do_mount_all, ki_nargs = 1 + 1, ki_flags = COMMAND\<rparr>"
| "keyword_info K_mount = \<lparr>ki_name = ''mount'', ki_func = Some F_do_mount, ki_nargs = 3 + 1, ki_flags = COMMAND\<rparr>"
| "keyword_info K_on = \<lparr>ki_name = ''on'', ki_func = None, ki_nargs = 0 + 1, ki_flags = SECTION\<rparr>"
| "keyword_info K_oneshot = \<lparr>ki_name = ''oneshot'', ki_func = None, ki_nargs = 0 + 1, ki_flags = OPTION\<rparr>"
| "keyword_info K_onrestart = \<lparr>ki_name = ''onrestart'', ki_func = None, ki_nargs = 0 + 1, ki_flags = OPTION\<rparr>"
| "keyword_info K_restart = \<lparr>ki_name = ''restart'', ki_func = Some F_do_restart, ki_nargs = 1 + 1, ki_flags = COMMAND\<rparr>"
| "keyword_info K_restorecon = \<lparr>ki_name = ''restorecon'', ki_func = Some F_do_restorecon, ki_nargs = 1 + 1, ki_flags = COMMAND\<rparr>"
| "keyword_info K_rm = \<lparr>ki_name = ''rm'', ki_func = Some F_do_rm, ki_nargs = 1 + 1, ki_flags = COMMAND\<rparr>"
| "keyword_info K_rmdir = \<lparr>ki_name = ''rmdir'', ki_func = Some F_do_rmdir, ki_nargs = 1 + 1, ki_flags = COMMAND\<rparr>"
| "keyword_info K_seclabel = \<lparr>ki_name = ''seclabel'', ki_func = None, ki_nargs = 0 + 1, ki_flags = OPTION\<rparr>"
| "keyword_info K_service = \<lparr>ki_name = ''service'', ki_func = None, ki_nargs = 0 + 1, ki_flags = SECTION\<rparr>"
| "keyword_info K_setcon = \<lparr>ki_name = ''setcon'', ki_func = Some F_do_setcon, ki_nargs = 1 + 1, ki_flags = COMMAND\<rparr>"
| "keyword_info K_setenforce = \<lparr>ki_name = ''setenforce'', ki_func = Some F_do_setenforce, ki_nargs = 1 + 1, ki_flags = COMMAND\<rparr>"
| "keyword_info K_setenv = \<lparr>ki_name = ''setenv'', ki_func = None, ki_nargs = 2 + 1, ki_flags = OPTION\<rparr>"
| "keyword_info K_setkey = \<lparr>ki_name = ''setkey'', ki_func = Some F_do_setkey, ki_nargs = 0 + 1, ki_flags = COMMAND\<rparr>"
| "keyword_info K_setprop = \<lparr>ki_name = ''setprop'', ki_func = Some F_do_setprop, ki_nargs = 2 + 1, ki_flags = COMMAND\<rparr>"
| "keyword_info K_setrlimit = \<lparr>ki_name = ''setrlimit'', ki_func = Some F_do_setrlimit, ki_nargs = 3 + 1, ki_flags = COMMAND\<rparr>"
| "keyword_info K_setsebool = \<lparr>ki_name = ''setsebool'', ki_func = Some F_do_setsebool, ki_nargs = 1 + 1, ki_flags = COMMAND\<rparr>"
| "keyword_info K_socket = \<lparr>ki_name = ''socket'', ki_func = None, ki_nargs = 0 + 1, ki_flags = OPTION\<rparr>"
| "keyword_info K_start = \<lparr>ki_name = ''start'', ki_func = Some F_do_start, ki_nargs = 1 + 1, ki_flags = COMMAND\<rparr>"
| "keyword_info K_stop = \<lparr>ki_name = ''stop'', ki_func = Some F_do_stop, ki_nargs = 1 + 1, ki_flags = COMMAND\<rparr>"
| "keyword_info K_trigger = \<lparr>ki_name = ''trigger'', ki_func = Some F_do_trigger, ki_nargs = 1 + 1, ki_flags = COMMAND\<rparr>"
| "keyword_info K_symlink = \<lparr>ki_name = ''symlink'', ki_func = Some F_do_symlink, ki_nargs = 1 + 1, ki_flags = COMMAND\<rparr>"
| "keyword_info K_sysclktz = \<lparr>ki_name = ''sysclktz'', ki_func = Some F_do_sysclktz, ki_nargs = 1 + 1, ki_flags = COMMAND\<rparr>"
| "keyword_info K_user = \<lparr>ki_name = ''user'', ki_func = None, ki_nargs = 0 + 1, ki_flags = OPTION\<rparr>"
| "keyword_info K_wait = \<lparr>ki_name = ''wait'', ki_func = Some F_do_wait, ki_nargs = 1 + 1, ki_flags = COMMAND\<rparr>"
| "keyword_info K_write = \<lparr>ki_name = ''write'', ki_func = Some F_do_write, ki_nargs = 2 + 1, ki_flags = COMMAND\<rparr>"
| "keyword_info K_copy = \<lparr>ki_name = ''copy'', ki_func = Some F_do_copy, ki_nargs = 2 + 1, ki_flags = COMMAND\<rparr>"
| "keyword_info K_chown = \<lparr>ki_name = ''chown'', ki_func = Some F_do_chown, ki_nargs = 2 + 1, ki_flags = COMMAND\<rparr>"
| "keyword_info K_chmod = \<lparr>ki_name = ''chmod'', ki_func = Some F_do_chmod, ki_nargs = 2 + 1, ki_flags = COMMAND\<rparr>"
| "keyword_info K_loglevel = \<lparr>ki_name = ''loglevel'', ki_func = Some F_do_loglevel, ki_nargs = 1 + 1, ki_flags = COMMAND\<rparr>"
| "keyword_info K_load_persist_props = \<lparr>ki_name = ''load_persist_props'', ki_func = Some F_do_load_persist_props, ki_nargs = 0 + 1, ki_flags = COMMAND\<rparr>"
| "keyword_info K_ioprio = \<lparr>ki_name = ''ioprio'', ki_func = None, ki_nargs = 0 + 1, ki_flags = OPTION\<rparr>"

definition kw_is :: "keyword \<Rightarrow> 32 word \<Rightarrow> bool" where
  "kw_is kw type \<longleftrightarrow> has (ki_flags (keyword_info kw)) type"

definition kw_name :: "keyword \<Rightarrow> string" where
  "kw_name kw = ki_name (keyword_info kw)"

definition kw_func :: "keyword \<Rightarrow> builtin option" where
  "kw_func kw = ki_func (keyword_info kw)"

definition kw_nargs :: "keyword \<Rightarrow> nat" where
  "kw_nargs kw = ki_nargs (keyword_info kw)"

subsection \<open>Recognising a keyword\<close>

definition lookup_keyword :: "string \<Rightarrow> keyword" where
  "lookup_keyword str = (case str of [] \<Rightarrow> K_UNKNOWN | ch # s \<Rightarrow>
     if ch = CHR ''c'' then
       (if s = ''opy'' then K_copy
        else if s = ''apability'' then K_capability
        else if s = ''hdir'' then K_chdir
        else if s = ''hroot'' then K_chroot
        else if s = ''lass'' then K_class
        else if s = ''lass_start'' then K_class_start
        else if s = ''lass_stop'' then K_class_stop
        else if s = ''lass_reset'' then K_class_reset
        else if s = ''onsole'' then K_console
        else if s = ''hown'' then K_chown
        else if s = ''hmod'' then K_chmod
        else if s = ''ritical'' then K_critical
        else K_UNKNOWN)
     else if ch = CHR ''d'' then
       (if s = ''isabled'' then K_disabled
        else if s = ''omainname'' then K_domainname
        else K_UNKNOWN)
     else if ch = CHR ''e'' then
       (if s = ''xec'' then K_exec
        else if s = ''xport'' then K_export
        else if s = ''xport_rc'' then K_export_rc
        else K_UNKNOWN)
     else if ch = CHR ''g'' then
       (if s = ''roup'' then K_group
        else K_UNKNOWN)
     else if ch = CHR ''h'' then
       (if s = ''ostname'' then K_hostname
        else K_UNKNOWN)
     else if ch = CHR ''i'' then
       (if s = ''oprio'' then K_ioprio
        else if s = ''fup'' then K_ifup
        else if s = ''nsmod'' then K_insmod
        else if s = ''mport'' then K_import
        else K_UNKNOWN)
     else if ch = CHR ''k'' then
       (if s = ''eycodes'' then K_keycodes
        else K_UNKNOWN)
     else if ch = CHR ''l'' then
       (if s = ''oglevel'' then K_loglevel
        else if s = ''og'' then K_log
        else if s = ''oad_persist_props'' then K_load_persist_props
        else K_UNKNOWN)
     else if ch = CHR ''m'' then
       (if s = ''kdir'' then K_mkdir
        else if s = ''ount_all'' then K_mount_all
        else if s = ''ount'' then K_mount
        else K_UNKNOWN)
     else if ch = CHR ''o'' then
       (if s = ''n'' then K_on
        else if s = ''neshot'' then K_oneshot
        else if s = ''nrestart'' then K_onrestart
        else K_UNKNOWN)
     else if ch = CHR ''r'' then
       (if s = ''estart'' then K_restart
        else if s = ''estorecon'' then K_restorecon
        else if s = ''mdir'' then K_rmdir
        else if s = ''m'' then K_rm
        else K_UNKNOWN)
     else if ch = CHR ''s'' then
       (if s = ''eclabel'' then K_seclabel
        else if s = ''ervice'' then K_service
        else if s = ''etcon'' then K_setcon
        else if s = ''etenforce'' then K_setenforce
        else if s = ''etenv'' then K_setenv
        else if s = ''etkey'' then K_setkey
        else if s = ''etprop'' then K_setprop
        else if s = ''etrlimit'' then K_setrlimit
        else if s = ''etsebool'' then K_setsebool
        else if s = ''ocket'' then K_socket
        else if s = ''tart'' then K_start
        else if s = ''top'' then K_stop
        else if s = ''ymlink'' then K_symlink
        else if s = ''ysclktz'' then K_sysclktz
        else K_UNKNOWN)
     else if ch = CHR ''t'' then
       (if s = ''rigger'' then K_trigger
        else K_UNKNOWN)
     else if ch = CHR ''u'' then
       (if s = ''ser'' then K_user
        else K_UNKNOWN)
     else if ch = CHR ''w'' then
       (if s = ''rite'' then K_write
        else if s = ''ait'' then K_wait
        else K_UNKNOWN)
     else K_UNKNOWN)"

lemma lookup_keyword_name: "k \<noteq> K_UNKNOWN \<Longrightarrow> lookup_keyword (kw_name k) = k"
  by (cases k) (simp_all add: lookup_keyword_def kw_name_def)

definition names :: "string \<Rightarrow> keyword \<Rightarrow> bool" where
  "names s k \<longleftrightarrow> k = K_UNKNOWN \<or> kw_name k = s"

lemma names_if: "(b \<Longrightarrow> names s x) \<Longrightarrow> names s y \<Longrightarrow> names s (if b then x else y)"
  by simp

lemma names_lookup_keyword: "names s (lookup_keyword s)"
proof (cases s)
  case Nil
  then show ?thesis by (simp add: lookup_keyword_def names_def)
next
  case (Cons ch t)
  show ?thesis
    unfolding Cons lookup_keyword_def list.case
    by (intro names_if) (simp_all add: names_def kw_name_def)
qed

text \<open>
  The hand-written decision tree of \<open>lookup_keyword\<close> decides exactly the keyword table: it
  returns a keyword other than \<open>K_UNKNOWN\<close> for its name in the table, and for no other text.
\<close>

lemma lookup_keyword_correct:
  "lookup_keyword s = k \<and> k \<noteq> K_UNKNOWN \<longleftrightarrow> k \<noteq> K_UNKNOWN \<and> s = kw_name k"
  using lookup_keyword_name [of k] names_lookup_keyword [of s] by (auto simp: names_def)

text \<open>
  Every command of the table has a function, and no section or option has one: the function
  pointer that \<open>parse_line_action\<close> stores in a command is never null.
\<close>

lemma kw_command_func: "kw_is k COMMAND \<longleftrightarrow> kw_func k \<noteq> None"
  by (cases k) (simp_all add: kw_is_def kw_func_def has_def SECTION_def COMMAND_def OPTION_def)

lemma kw_nargs_pos: "k \<noteq> K_UNKNOWN \<Longrightarrow> 1 \<le> kw_nargs k"
  by (cases k) (simp_all add: kw_nargs_def)

lemma kw_section: "kw_is k SECTION \<longleftrightarrow> k \<in> {K_import, K_on, K_service}"
  by (cases k) (simp_all add: kw_is_def has_def SECTION_def COMMAND_def OPTION_def)

end
