(* ===== verification/Init_State.thy ===== *)
theory Init_State
  imports Keywords
begin

text \<open>
  The state of the process \<open>init\<close> and the world it runs in.

  The world is the record \<open>platform\<close>, a parameter \<open>P\<close> of the definitions: the constants and the
  library functions that the sources take from headers outside the repository (bionic, libcutils,
  the uid table), and the answers of the kernel.  A system call is a value of \<open>syscall\<close>; \<open>os P\<close>
  maps the calls answered so far and the next call to its answer, so a theorem that holds for
  every \<open>P\<close> holds for every behaviour of the kernel.  \<open>sys\<close> performs one call and records it in
  the field \<open>trace\<close>, the newest call first.

  The record \<open>init_st\<close> holds the static variables of \<open>init.c\<close>, \<open>init_parser.c\<close>,
  \<open>property_service.c\<close>, \<open>signal_handler.c\<close>, \<open>keychords.c\<close> and \<open>util.c\<close>.  Services and actions
  are referred to by their position in the lists \<open>service_list\<close> and \<open>action_list\<close>, which only
  grow, where the code has pointers.  Log output is left out.
\<close>

subsection \<open>System calls\<close>

datatype oflag = O_RDONLY | O_WRONLY | O_RDWR | O_CREAT | O_TRUNC | O_SYNC | O_DIRECTORY

datatype sock_type = SOCK_STREAM | SOCK_DGRAM | SOCK_SEQPACKET

datatype IoSchedClass = IoSchedClass_NONE | IoSchedClass_RT | IoSchedClass_BE | IoSchedClass_IDLE

datatype (plugins only: code) syscall =
    Sys_open string "oflag list" int
  | Sys_close int
  | Sys_read int int
  | Sys_write int string
  | Sys_stat string
  | Sys_lstat string
  | Sys_fstat int
  | Sys_access string
  | Sys_lseek_end int
  | Sys_lseek_start int
  | Sys_mkdir string "32 word"
  | Sys_rmdir string
  | Sys_chmod string "32 word"
  | Sys_chown string "32 word" "32 word"
  | Sys_unlink string
  | Sys_rename string string
  | Sys_symlink string string
  | Sys_readlink string int
  | Sys_mknod string "32 word" int int
  | Sys_mount string string string "32 word" "string option"
  | Sys_chdir string
  | Sys_chroot string
  | Sys_opendir string
  | Sys_openat int string "oflag list"
  | Sys_fdopendir int
  | Sys_readdir int
  | Sys_closedir int
  | Sys_fork
  | Sys_child
  | Sys_execve string "string list" "string list"
  | Sys_exit int
  | Sys_wait
  | Sys_waitpid int bool
  | Sys_kill int
  | Sys_umask int
  | Sys_setsid
  | Sys_setpgid
  | Sys_setgid "32 word"
  | Sys_setgroups "32 word list"
  | Sys_setuid "32 word"
  | Sys_setegid "32 word"
  | Sys_set_ioprio IoSchedClass int
  | Sys_setrlimit int int int
  | Sys_setenv string string
  | Sys_settimeofday int
  | Sys_clock_gettime
  | Sys_usleep int
  | Sys_socket sock_type
  | Sys_inet_socket
  | Sys_bind int string
  | Sys_listen int int
  | Sys_accept int
  | Sys_getpeercred int
  | Sys_recv int
  | Sys_socketpair
  | Sys_sigaction
  | Sys_signal_ignore
  | Sys_uevent_open int
  | Sys_uevent_recv int int
  | Sys_fcntl int string
  | Sys_ioctl int string string
  | Sys_dup int
  | Sys_dup2 int int
  | Sys_ftruncate int int
  | Sys_mmap int int
  | Sys_munmap int
  | Sys_fb_unmap int "16 word list"
  | Sys_futex_wake
  | Sys_init_module string string
  | Sys_klog_init
  | Sys_klog_set_level int
  | Sys_fs_mgr_mount_all string
  | Sys_reboot string
  | Sys_acct "string option"
  | Sys_strftime int
  | Sys_getc int
  | Sys_poll "int list" int

text \<open>
  The answer to a call: its return value, \<open>errno\<close>, the bytes it delivers (of a read, a link, a
  directory entry, a message), the mode word of a stat (of a wait: the status word, of a directory
  entry: its type), the credentials
  of a peer, the seconds of a clock, the file size of a stat, and the two descriptors of a socket
  pair (of the frame buffer: its width and height).  A mapping delivers the bytes that it maps, and
  the call that unmaps the frame buffer records the pixels it then holds.  \<open>poll\<close> delivers the events of each descriptor as one byte.
\<close>

record answer =
  an_ret :: int
  an_errno :: int
  an_data :: string
  an_mode :: "32 word"
  an_uid :: "32 word"
  an_gid :: "32 word"
  an_time :: int
  an_size :: int
  an_fds :: "int \<times> int"

text \<open>The bytes a read delivered: as many as its return value says.\<close>

definition got :: "answer \<Rightarrow> char list" where
  "got a = take (nat (an_ret a)) (an_data a @ replicate (nat (an_ret a)) NUL)"

lemma length_got [simp]: "length (got a) = nat (an_ret a)"
  by (simp add: got_def)

type_synonym sys_trace = "(syscall \<times> answer) list"

text \<open>The error numbers the sources test or return, as Linux defines them.\<close>

abbreviation (input) ENOENT :: int where "ENOENT \<equiv> 2"
abbreviation (input) EINTR :: int where "EINTR \<equiv> 4"
abbreviation (input) ENXIO :: int where "ENXIO \<equiv> 6"
abbreviation (input) EEXIST :: int where "EEXIST \<equiv> 17"
abbreviation (input) EINVAL :: int where "EINVAL \<equiv> 22"

subsection \<open>Services, actions and properties\<close>

text \<open>The number of arguments of a command and the strings of its argument array.\<close>

record command =
  cmd_func :: builtin
  cmd_nargs :: nat
  cmd_args :: "string list"

record action =
  act_name :: string
  act_commands :: "command list"

record socketinfo =
  si_name :: string
  si_type :: string
  si_uid :: "32 word"
  si_gid :: "32 word"
  si_perm :: "32 word"

record svcenvinfo =
  ei_name :: string
  ei_value :: string

record service =
  svc_name :: string
  svc_classname :: string
  svc_flags :: "32 word"
  svc_pid :: int
  svc_time_started :: int
  svc_time_crashed :: int
  svc_nr_crashed :: int
  svc_uid :: "32 word"
  svc_gid :: "32 word"
  svc_supp_gids :: "32 word list"
  svc_sockets :: "socketinfo list"
  svc_envvars :: "svcenvinfo list"
  svc_onrestart :: "command list"
  svc_keycodes :: "int list option"
  svc_keychord_id :: int
  svc_ioprio_class :: IoSchedClass
  svc_ioprio_pri :: int
  svc_args :: "string list"

definition SVC_DISABLED :: "32 word" where "SVC_DISABLED = 0x01"
definition SVC_ONESHOT :: "32 word" where "SVC_ONESHOT = 0x02"
definition SVC_RUNNING :: "32 word" where "SVC_RUNNING = 0x04"
definition SVC_RESTARTING :: "32 word" where "SVC_RESTARTING = 0x08"
definition SVC_CONSOLE :: "32 word" where "SVC_CONSOLE = 0x10"
definition SVC_CRITICAL :: "32 word" where "SVC_CRITICAL = 0x20"
definition SVC_RESET :: "32 word" where "SVC_RESET = 0x40"
definition SVC_RC_DISABLED :: "32 word" where "SVC_RC_DISABLED = 0x80"
definition SVC_RESTART :: "32 word" where "SVC_RESTART = 0x100"

definition NR_SVC_SUPP_GIDS :: nat where "NR_SVC_SUPP_GIDS = 12"
definition COMMAND_RETRY_TIMEOUT :: int where "COMMAND_RETRY_TIMEOUT = 5"
definition INIT_PARSER_MAXARGS :: nat where "INIT_PARSER_MAXARGS = 64"

text \<open>One entry of the shared property area: bionic's \<open>prop_info\<close>.\<close>

record prop_info =
  pi_name :: string
  pi_serial :: "32 word"
  pi_value :: string

subsection \<open>The platform\<close>

text \<open>
  \<open>system_property_find\<close> is bionic's \<open>__system_property_find\<close>: the position of an entry of the
  property area.  \<open>strtoul_einval\<close> says whether \<open>strtoul\<close> reports a text without digits;
  \<open>uninit\<close> is what an uninitialised buffer holds, \<open>environ\<close> the environment the kernel gave to
  init itself, \<open>uptime_jiffies\<close> the value of \<open>100LL * strtod(s, NULL)\<close>, and \<open>keychord_bytes\<close> the bytes of the kernel's \<open>struct input_keychord\<close> with an id and
  key codes.
\<close>

record platform =
  os :: "sys_trace \<Rightarrow> syscall \<Rightarrow> answer"
  system_property_find :: "prop_info list \<Rightarrow> string \<Rightarrow> nat option"
  PROP_NAME_MAX :: nat
  PROP_VALUE_MAX :: nat
  PATH_MAX :: nat
  PROP_PATH_RAMDISK_DEFAULT :: string
  PROP_PATH_SYSTEM_BUILD :: string
  PROP_PATH_SYSTEM_DEFAULT :: string
  PROP_PATH_LOCAL_OVERRIDE :: string
  PROP_SERVICE_NAME :: string
  PROP_MSG_SETPROP :: int
  PROP_MSG_SIZE :: int
  SIZEOF_PROP_INFO :: int
  prop_msg_cmd :: "string \<Rightarrow> int"
  prop_msg_name :: "string \<Rightarrow> char list"
  prop_msg_value :: "string \<Rightarrow> char list"
  ANDROID_SOCKET_DIR :: string
  ANDROID_SOCKET_ENV_PREFIX :: string
  SUN_PATH_SIZE :: nat
  AID_ROOT :: "32 word"
  AID_SYSTEM :: "32 word"
  AID_RADIO :: "32 word"
  AID_DHCP :: "32 word"
  AID_SHELL :: "32 word"
  AID_LOG :: "32 word"
  AID_GRAPHICS :: "32 word"
  android_ids :: "(string \<times> 32 word) list"
  strtoul_einval :: bool
  allow_local_prop_override :: bool
  charging_mode_lpm :: "string option"
  uninit :: "char list"
  environ :: "string list"
  keychord_bytes :: "int \<Rightarrow> int list \<Rightarrow> string"
  PAGE_SIZE :: int
  uptime_jiffies :: "string \<Rightarrow> int"

text \<open>A buffer of \<open>n\<close> bytes that nothing was stored in yet.\<close>

definition fresh_buf :: "platform \<Rightarrow> nat \<Rightarrow> char list" where
  "fresh_buf P n = take n (uninit P @ replicate n NUL)"

lemma length_fresh_buf [simp]: "length (fresh_buf P n) = n"
  by (simp add: fresh_buf_def)

text \<open>
  The documented behaviour of \<open>__system_property_find\<close>, and the constants of bionic as far as
  the code relies on them: the buffers are not empty, the fixed property names fit, and an entry of the area is 128 bytes
  long.
\<close>

definition find_ok :: "platform \<Rightarrow> bool" where
  "find_ok P \<longleftrightarrow>
     system_property_find P = (\<lambda>ps name. find_index (\<lambda>p. pi_name p = name) ps)"

definition sizes_ok :: "platform \<Rightarrow> bool" where
  "sizes_ok P \<longleftrightarrow> 20 \<le> PROP_NAME_MAX P \<and> PROP_NAME_MAX P \<le> PROP_VALUE_MAX P \<and>
     PROP_VALUE_MAX P \<le> 255 \<and> PROP_VALUE_MAX P < PATH_MAX P \<and>
     SIZEOF_PROP_INFO P = 128"

subsection \<open>The state of init\<close>

record init_st =
  service_list :: "service list"
  action_list :: "action list"
  action_queue :: "nat list"
  queue_corrupt :: bool
  props :: "prop_info list"
  pa_toc :: "32 word list"
  pa_serial :: "32 word"
  pa_mapped :: bool
  pa_workspace_fd :: int
  persistent_properties_loaded :: bool
  property_area_inited :: bool
  property_set_fd :: int
  property_triggers_enabled :: bool
  console :: string
  bootmode :: string
  hardware :: string
  revision :: "32 word"
  qemu :: string
  battchg_pause :: string
  cur_action :: "nat option"
  cur_command :: "nat option"
  have_console :: bool
  console_name :: string
  process_needs_restart :: int
  ENV :: "string option list"
  emmc_boot :: bool
  signal_fd :: int
  signal_recv_fd :: int
  keychords :: "string option"
  keychords_length :: nat
  keychords_count :: int
  keychord_fd :: int
  mtd_part_count :: int
  mtd_part_map :: "(string \<times> int) list"
  exited :: "int option"
  children :: "(int \<times> sys_trace) list"
  trace :: sys_trace

text \<open>The values the static variables start with.\<close>

definition init_st0 :: init_st where
  "init_st0 = \<lparr>service_list = [], action_list = [], action_queue = [], queue_corrupt = False,
     props = [], pa_toc = [], pa_serial = 0, pa_mapped = False, pa_workspace_fd = 0,
     persistent_properties_loaded = False, property_area_inited = False, property_set_fd = - 1,
     property_triggers_enabled = False, console = [], bootmode = [], hardware = [], revision = 0,
     qemu = [], battchg_pause = [], cur_action = None, cur_command = None, have_console = False,
     console_name = ''/dev/console'', process_needs_restart = 0, ENV = replicate 32 None,
     emmc_boot = False, signal_fd = - 1, signal_recv_fd = - 1, keychords = None,
     keychords_length = 0, keychords_count = 0, keychord_fd = - 1, mtd_part_count = - 1, mtd_part_map = [],
     exited = None, children = [], trace = []\<rparr>"

subsection \<open>Performing a call\<close>

definition sys :: "platform \<Rightarrow> syscall \<Rightarrow> init_st \<Rightarrow> answer \<times> init_st" where
  "sys P c st = (let a = os P (trace st) c in (a, st\<lparr>trace := (c, a) # trace st\<rparr>))"

definition perform :: "platform \<Rightarrow> syscall \<Rightarrow> init_st \<Rightarrow> init_st" where
  "perform P c st = snd (sys P c st)"

text \<open>\<open>traced st st'\<close>: from \<open>st\<close> to \<open>st'\<close> only system calls were made.\<close>

definition traced :: "init_st \<Rightarrow> init_st \<Rightarrow> bool" where
  "traced st st' \<longleftrightarrow> (\<exists>t. st' = st\<lparr>trace := t @ trace st\<rparr>)"

named_theorems traced_intros "routines that only make system calls"

lemma traced_refl [traced_intros, simp]: "traced st st"
  unfolding traced_def by (rule exI [of _ "[]"]) simp

lemma traced_trans: "traced st st' \<Longrightarrow> traced st' st'' \<Longrightarrow> traced st st''"
proof -
  assume "traced st st'" "traced st' st''"
  then obtain t u where "st' = st\<lparr>trace := t @ trace st\<rparr>" "st'' = st'\<lparr>trace := u @ trace st'\<rparr>"
    by (auto simp: traced_def)
  then have "st'' = st\<lparr>trace := (u @ t) @ trace st\<rparr>" by simp
  then show ?thesis unfolding traced_def by blast
qed

lemma traced_perform [traced_intros, simp]: "traced st (perform P c st)"
  unfolding traced_def perform_def sys_def Let_def by (rule exI [of _ "[_]"]) simp

lemma sys_eq: "sys P c st = (os P (trace st) c, perform P c st)"
  by (simp add: perform_def sys_def Let_def)

lemma sys_eqD: "sys P c st = (a, st') \<Longrightarrow> a = os P (trace st) c \<and> st' = perform P c st"
  by (auto simp: perform_def sys_def Let_def)

lemma traced_sys: "sys P c st = (a, st') \<Longrightarrow> traced st st'"
  by (auto dest: sys_eqD)

lemma trace_perform: "trace (perform P c st) = (c, os P (trace st) c) # trace st"
  by (simp add: perform_def sys_def Let_def)

lemma traced_step [traced_intros]: "traced st st' \<Longrightarrow> traced st (perform P c st')"
  by (blast intro: traced_trans traced_perform)

lemma traced_frame:
  assumes "traced st st'"
  shows "service_list st' = service_list st" "action_list st' = action_list st"
    "action_queue st' = action_queue st" "queue_corrupt st' = queue_corrupt st"
    "props st' = props st" "pa_toc st' = pa_toc st" "pa_serial st' = pa_serial st" "ENV st' = ENV st"
    "exited st' = exited st" "property_set_fd st' = property_set_fd st"
    "cur_action st' = cur_action st" "cur_command st' = cur_command st"
    "persistent_properties_loaded st' = persistent_properties_loaded st"
    "property_triggers_enabled st' = property_triggers_enabled st"
    "property_area_inited st' = property_area_inited st" "pa_mapped st' = pa_mapped st"
    "children st' = children st" "have_console st' = have_console st"
    "process_needs_restart st' = process_needs_restart st"
  using assms by (auto simp: traced_def)

subsection \<open>Bytes read and written\<close>

text \<open>The bytes a trace wrote to a descriptor, those of them that were accepted, and the bytes it read.\<close>

definition written :: "int \<Rightarrow> sys_trace \<Rightarrow> string" where
  "written fd t = concat (map (\<lambda>(c, a). case c of Sys_write fd' buf \<Rightarrow> if fd' = fd then buf else [] | _ \<Rightarrow> []) (rev t))"

definition accepted :: "int \<Rightarrow> sys_trace \<Rightarrow> string" where
  "accepted fd t =
     concat (map (\<lambda>(c, a). case c of Sys_write fd' buf \<Rightarrow> if fd' = fd then take (nat (an_ret a)) buf else [] | _ \<Rightarrow> []) (rev t))"

definition delivered :: "int \<Rightarrow> sys_trace \<Rightarrow> string" where
  "delivered fd t = concat (map (\<lambda>(c, a). case c of Sys_read fd' n \<Rightarrow> if fd' = fd then got a else [] | _ \<Rightarrow> []) (rev t))"

lemma io_append [simp]:
  "written fd (t @ u) = written fd u @ written fd t"
  "accepted fd (t @ u) = accepted fd u @ accepted fd t"
  "delivered fd (t @ u) = delivered fd u @ delivered fd t"
  by (simp_all add: written_def accepted_def delivered_def)

end
