(* ===== verification/Example_Platform.thy ===== *)
theory Example_Platform
  imports Init_State
begin

text \<open>
  A concrete platform, on which the theorems are applied to examples: the constants of the
  Android release the sources belong to, and a kernel that grants every call.  Files are empty,
  process ids count up from 100, and the clock stands at 1000 seconds.
\<close>

definition ok_answer :: "int \<Rightarrow> answer" where
  "ok_answer r = \<lparr>an_ret = r, an_errno = 0, an_data = [], an_mode = 0x124, an_uid = 0, an_gid = 0,
     an_time = 1000, an_size = 0, an_fds = (7, 8)\<rparr>"

definition example_os :: "sys_trace \<Rightarrow> syscall \<Rightarrow> answer" where
  "example_os t c =
     (case c of
        Sys_open _ _ _ \<Rightarrow> ok_answer 5
      | Sys_socket _ \<Rightarrow> ok_answer 6
      | Sys_fork \<Rightarrow> ok_answer (100 + int (length t))
      | _ \<Rightarrow> ok_answer 0)"

definition le16 :: "int \<Rightarrow> string" where
  "le16 n = [char_of (n mod 256), char_of (n div 256 mod 256)]"

definition example_platform :: platform where
  "example_platform = \<lparr>
     os = example_os,
     system_property_find = (\<lambda>ps name. find_index (\<lambda>p. pi_name p = name) ps),
     PROP_NAME_MAX = 32, PROP_VALUE_MAX = 92, PATH_MAX = 4096,
     PROP_PATH_RAMDISK_DEFAULT = ''/default.prop'',
     PROP_PATH_SYSTEM_BUILD = ''/system/build.prop'',
     PROP_PATH_SYSTEM_DEFAULT = ''/system/default.prop'',
     PROP_PATH_LOCAL_OVERRIDE = ''/data/local.prop'',
     PROP_SERVICE_NAME = ''property_service'',
     PROP_MSG_SETPROP = 1, PROP_MSG_SIZE = 128, SIZEOF_PROP_INFO = 128,
     prop_msg_cmd = (\<lambda>m. 1),
     prop_msg_name = (\<lambda>m. take 32 (drop 4 m)),
     prop_msg_value = (\<lambda>m. take 92 (drop 36 m)),
     ANDROID_SOCKET_DIR = ''/dev/socket'', ANDROID_SOCKET_ENV_PREFIX = ''ANDROID_SOCKET_'',
     SUN_PATH_SIZE = 108,
     AID_ROOT = 0, AID_SYSTEM = 1000, AID_RADIO = 1001, AID_DHCP = 1014, AID_SHELL = 2000,
     AID_LOG = 1007, AID_GRAPHICS = 1003,
     android_ids = [(''root'', 0), (''system'', 1000), (''radio'', 1001)],
     strtoul_einval = False, allow_local_prop_override = False, charging_mode_lpm = None,
     uninit = [], environ = [''HOME=/''],
     keychord_bytes = (\<lambda>id codes. le16 1 @ le16 id @ le16 (int (length codes)) @ concat (map le16 codes)),
     PAGE_SIZE = 4096, uptime_jiffies = (\<lambda>s. 100 * atoi s)\<rparr>"

lemma example_find_ok: "find_ok example_platform"
  by (simp add: find_ok_def example_platform_def)

lemma example_sizes_ok: "sizes_ok example_platform"
  by (simp add: sizes_ok_def example_platform_def)

end
