(* ===== verification/Util.thy ===== *)
theory Util
  imports Example_Platform
begin

text \<open>
  \<open>util.c\<close>: the decoding of user names, files read at boot, sockets, directories and links, the
  clock, and the scanners of \<open>/proc/mtd\<close>, \<open>/proc/cpuinfo\<close> and \<open>/proc/cmdline\<close>.  Memory
  allocation does not fail here.
\<close>

definition coldboot_done :: string where "coldboot_done = ''/dev/.coldboot_done''"

subsection \<open>User and group ids\<close>

definition android_name_to_id :: "platform \<Rightarrow> string \<Rightarrow> 32 word" where
  "android_name_to_id P name =
     (case find (\<lambda>(n, aid). n = name) (android_ids P) of None \<Rightarrow> - 1 | Some (n, aid) \<Rightarrow> aid)"

definition decode_uid :: "platform \<Rightarrow> string \<Rightarrow> 32 word" where
  "decode_uid P s =
     (case s of
        [] \<Rightarrow> - 1
      | c # _ \<Rightarrow>
          if isalpha c then android_name_to_id P s
          else (let (v, err) = strtoul (strtoul_einval P) 0 s in if err then - 1 else v))"

subsection \<open>The clock\<close>

definition gettime :: "platform \<Rightarrow> init_st \<Rightarrow> int \<times> init_st" where
  "gettime P st = (let (a, st) = sys P Sys_clock_gettime st
     in (if an_ret a < 0 then 0 else an_time a, st))"

subsection \<open>Files and sockets\<close>

definition create_socket ::
  "platform \<Rightarrow> string \<Rightarrow> sock_type \<Rightarrow> 32 word \<Rightarrow> 32 word \<Rightarrow> 32 word \<Rightarrow> init_st \<Rightarrow> int \<times> init_st" where
  "create_socket P name type perm uid gid st =
     (let (s, st) = sys P (Sys_socket type) st; fd = an_ret s in
      if fd < 0 then (- 1, st)
      else
        let sun_path = clip (SUN_PATH_SIZE P) (ANDROID_SOCKET_DIR P @ ''/'' @ name);
            (u, st) = sys P (Sys_unlink sun_path) st
        in if an_ret u \<noteq> 0 \<and> an_errno u \<noteq> ENOENT then (- 1, perform P (Sys_close fd) st)
           else
             let (b, st) = sys P (Sys_bind fd sun_path) st
             in if an_ret b \<noteq> 0
                then (- 1, perform P (Sys_close fd) (perform P (Sys_unlink sun_path) st))
                else (fd, perform P (Sys_chmod sun_path perm)
                            (perform P (Sys_chown sun_path uid gid) st)))"

definition S_IWGRP :: "32 word" where "S_IWGRP = 0x10"
definition S_IWOTH :: "32 word" where "S_IWOTH = 0x02"

text \<open>The buffer that \<open>read_file\<close> allocates: the bytes of the file, a line end and a NUL.\<close>

definition read_file :: "platform \<Rightarrow> string \<Rightarrow> init_st \<Rightarrow> char list option \<times> init_st" where
  "read_file P fn st =
     (let (f, st) = sys P (Sys_open fn [O_RDONLY] 0) st; fd = an_ret f in
      if fd < 0 then (None, st)
      else
        let (sb, st) = sys P (Sys_fstat fd) st in
        if an_ret sb < 0 then (None, perform P (Sys_close fd) st)
        else if has (an_mode sb) (S_IWGRP OR S_IWOTH) then (None, perform P (Sys_close fd) st)
        else
          let (e, st) = sys P (Sys_lseek_end fd) st; sz = an_ret e in
          if sz < 0 then (None, perform P (Sys_close fd) st)
          else
            let (b, st) = sys P (Sys_lseek_start fd) st in
            if an_ret b \<noteq> 0 then (None, perform P (Sys_close fd) st)
            else
              let (r, st) = sys P (Sys_read fd sz) st in
              if an_ret r \<noteq> sz then (None, perform P (Sys_close fd) st)
              else (Some (got r @ [NL, NUL]), perform P (Sys_close fd) st))"

text \<open>The directories above a path, outermost first, then the path itself.\<close>

function mkdir_prefixes ::
  "platform \<Rightarrow> string \<Rightarrow> 32 word \<Rightarrow> string \<Rightarrow> init_st \<Rightarrow> int option \<times> init_st" where
  "mkdir_prefixes P before mode rest st =
     (case split_first SLASH rest of
        None \<Rightarrow> (None, st)
      | Some (a, r) \<Rightarrow>
          let buf = before @ a; next = buf @ [SLASH] in
          if buf = [] then mkdir_prefixes P next mode r st
          else if 127 < length buf then (Some (- 1), st)
          else
            let (i, st) = sys P (Sys_stat buf) st in
            if an_ret i \<noteq> 0 then
              let (m, st) = sys P (Sys_mkdir buf mode) st in
              if an_ret m \<noteq> 0 \<and> an_errno m \<noteq> EEXIST then (Some (an_ret m), st)
              else mkdir_prefixes P next mode r st
            else mkdir_prefixes P next mode r st)"
  by pat_completeness auto
termination
  by (relation "measure (\<lambda>(P, before, mode, rest, st). length rest)")
     (auto dest: split_first_shorter)

declare mkdir_prefixes.simps [simp del]

definition mkdir_recursive :: "platform \<Rightarrow> string \<Rightarrow> 32 word \<Rightarrow> init_st \<Rightarrow> int \<times> init_st" where
  "mkdir_recursive P pathname mode st =
     (case mkdir_prefixes P [] mode pathname st of
        (Some ret, st) \<Rightarrow> (ret, st)
      | (None, st) \<Rightarrow>
          let (m, st) = sys P (Sys_mkdir pathname mode) st in
          if an_ret m \<noteq> 0 \<and> an_errno m \<noteq> EEXIST then (an_ret m, st) else (0, st))"

definition sanitize :: "string \<Rightarrow> string" where
  "sanitize s = takeWhile isalnum s"

definition make_link :: "platform \<Rightarrow> string \<Rightarrow> string \<Rightarrow> init_st \<Rightarrow> init_st" where
  "make_link P oldpath newpath st =
     (case split_last SLASH newpath of
        None \<Rightarrow> st
      | Some (buf, _) \<Rightarrow>
          if length buf = 0 \<or> 255 < length buf then st
          else perform P (Sys_symlink oldpath newpath) (snd (mkdir_recursive P buf 0x1ED st)))"

definition remove_link :: "platform \<Rightarrow> string \<Rightarrow> string \<Rightarrow> init_st \<Rightarrow> init_st" where
  "remove_link P oldpath newpath st =
     (let (a, st) = sys P (Sys_readlink newpath 255) st in
      if an_ret a \<le> 0 then st
      else if cstr_at (got a @ [NUL]) 0 = oldpath then perform P (Sys_unlink newpath) st else st)"

text \<open>
  \<open>wait_for_file\<close> polls until the file exists or the time is over; whether it returns depends on
  the clock, so that not returning is the value \<open>None\<close>.
\<close>

partial_function (option) wait_loop ::
  "platform \<Rightarrow> string \<Rightarrow> int \<Rightarrow> int \<Rightarrow> init_st \<Rightarrow> (int \<times> init_st) option" where
  "wait_loop P filename timeout_time ret st =
     (let (now, st) = gettime P st in
      if now < timeout_time then
        (let (i, st) = sys P (Sys_stat filename) st in
         if an_ret i < 0 then
           wait_loop P filename timeout_time (an_ret i) (perform P (Sys_usleep 10000) st)
         else Some (an_ret i, st))
      else Some (ret, st))"

definition wait_for_file :: "platform \<Rightarrow> string \<Rightarrow> int \<Rightarrow> init_st \<Rightarrow> (int \<times> init_st) option" where
  "wait_for_file P filename timeout st =
     (let (now, st) = gettime P st in wait_loop P filename (now + timeout) (- 1) st)"

definition open_devnull_stdio :: "platform \<Rightarrow> init_st \<Rightarrow> init_st" where
  "open_devnull_stdio P st =
     (let name = ''/dev/__null__'';
          (m, st) = sys P (Sys_mknod name (0x2000 OR 0x180) 1 3) st in
      if an_ret m = 0 then
        (let (f, st) = sys P (Sys_open name [O_RDWR] 0) st; fd = an_ret f;
             st = perform P (Sys_unlink name) st in
         if 0 \<le> fd then
           (let st = perform P (Sys_dup2 fd 2) (perform P (Sys_dup2 fd 1) (perform P (Sys_dup2 fd 0) st))
            in if 2 < fd then perform P (Sys_close fd) st else st)
         else (perform P (Sys_exit 1) st)\<lparr>exited := Some 1\<rparr>)
      else (perform P (Sys_exit 1) st)\<lparr>exited := Some 1\<rparr>)"

subsection \<open>Partitions of the flash memory\<close>

definition MAX_MTD_PARTITIONS :: int where "MAX_MTD_PARTITIONS = 16"

text \<open>
  \<open>sscanf(p, "mtd%d: %x %x %15s", ...)\<close> as far as its result is used: the partition number and
  the name when all four fields are read.
\<close>

definition scan_int :: "nat \<Rightarrow> string \<Rightarrow> (int \<times> string) option" where
  "scan_int base s =
     (let (neg, s1) = scan_sign (dropWhile isspace s);
          (b, s2) = scan_base base s1;
          (v, rest) = scan_digits b 0 s2
      in if rest = s2 then None else Some (if neg then - int v else int v, rest))"

definition scan_literal :: "string \<Rightarrow> string \<Rightarrow> string option" where
  "scan_literal l s = (if has_prefix l s then Some (drop (length l) s) else None)"

definition scan_word :: "nat \<Rightarrow> string \<Rightarrow> string option" where
  "scan_word n s =
     (let w = takeWhile (\<lambda>c. \<not> isspace c) (dropWhile isspace s)
      in if w = [] then None else Some (take n w))"

definition sscanf_mtd :: "string \<Rightarrow> (int \<times> string) option" where
  "sscanf_mtd s =
     do {
       s \<leftarrow> scan_literal ''mtd'' s;
       (mtdnum, s) \<leftarrow> scan_int 10 s;
       s \<leftarrow> scan_literal '':'' s;
       (mtdsize, s) \<leftarrow> scan_int 16 s;
       (mtderasesize, s) \<leftarrow> scan_int 16 s;
       mtdname \<leftarrow> scan_word 15 s;
       Some (mtdnum, mtdname)
     }"

text \<open>
  The loop over the \<open>pmtdsize\<close> bytes read, at the pointer \<open>pmtdbufp\<close>.  The text that \<open>sscanf\<close> sees
  runs on to the NUL at the end of the buffer, through bytes that nothing initialised.
\<close>

definition add_mtd :: "int \<times> string \<Rightarrow> init_st \<Rightarrow> init_st" where
  "add_mtd = (\<lambda>(mtdnum, mtdname) st.
     if take 1 mtdname = [DQ] then
       let name = (case split_first DQ (drop 1 mtdname) of None \<Rightarrow> drop 1 mtdname | Some (a, _) \<Rightarrow> a)
       in if mtd_part_count st < MAX_MTD_PARTITIONS
          then st\<lparr>mtd_part_map := take (nat (mtd_part_count st)) (mtd_part_map st) @ [(name, mtdnum)],
                  mtd_part_count := mtd_part_count st + 1\<rparr>
          else st
     else st)"

fun mtd_loop :: "nat \<Rightarrow> char list \<Rightarrow> init_st \<Rightarrow> init_st" where
  "mtd_loop pmtdsize pmtdbufp st =
     (if pmtdsize = 0 then st
      else
        let st = (case sscanf_mtd (takeWhile (\<lambda>c. c \<noteq> NUL) pmtdbufp) of
                    None \<Rightarrow> st | Some f \<Rightarrow> add_mtd f st);
            k = length (takeWhile (\<lambda>c. c \<noteq> NL) (take pmtdsize pmtdbufp))
        in if k < pmtdsize then mtd_loop (pmtdsize - k - 1) (drop (k + 1) pmtdbufp) st else st)"

declare mtd_loop.simps [simp del]

definition find_mtd_partitions :: "platform \<Rightarrow> init_st \<Rightarrow> init_st" where
  "find_mtd_partitions P st =
     (let (f, st) = sys P (Sys_open ''/proc/mtd'' [O_RDONLY] 0) st; fd = an_ret f in
      if fd < 0 then st
      else
        let (r, st) = sys P (Sys_read fd 1023) st;
            buf = take 1023 (got r @ drop (length (got r)) (uninit P)) @ [NUL]
        in perform P (Sys_close fd) (mtd_loop (nat (an_ret r)) buf st))"

definition mtd_name_to_number :: "platform \<Rightarrow> string \<Rightarrow> init_st \<Rightarrow> int \<times> init_st" where
  "mtd_name_to_number P name st =
     (let st = (if mtd_part_count st < 0
                then find_mtd_partitions P (st\<lparr>mtd_part_count := 0, mtd_part_map := []\<rparr>) else st)
      in (case find (\<lambda>(n, number). n = name) (take (nat (mtd_part_count st)) (mtd_part_map st)) of
            None \<Rightarrow> (- 1, st)
          | Some (n, number) \<Rightarrow> (number, st)))"

subsection \<open>The machine and the kernel command line\<close>

text \<open>\<open>strstr\<close>: the text from the first occurrence of a pattern on.\<close>

fun strstr :: "string \<Rightarrow> string \<Rightarrow> string option" where
  "strstr pat [] = (if pat = [] then Some [] else None)"
| "strstr pat (c # s) = (if has_prefix pat (c # s) then Some (c # s) else strstr pat s)"

definition tolower :: "char \<Rightarrow> char" where
  "tolower c = (if 65 \<le> (of_char c :: nat) \<and> (of_char c :: nat) \<le> 90
                then char_of ((of_char c :: nat) + 32) else c)"

text \<open>The copy of the hardware name, \<open>n\<close> characters already written.\<close>

fun copy_hardware :: "nat \<Rightarrow> string \<Rightarrow> string" where
  "copy_hardware n [] = []"
| "copy_hardware n (x # s) =
     (if x = NL then []
      else if isspace x then (if n = 31 then [] else copy_hardware n s)
      else tolower x # (if Suc n = 31 then [] else copy_hardware (Suc n) s))"

definition get_hardware_name :: "platform \<Rightarrow> init_st \<Rightarrow> init_st" where
  "get_hardware_name P st =
     (let (f, st) = sys P (Sys_open ''/proc/cpuinfo'' [O_RDONLY] 0) st; fd = an_ret f in
      if fd < 0 then st
      else
        let (r, st) = sys P (Sys_read fd 1023) st; st = perform P (Sys_close fd) st in
        if an_ret r < 0 then st
        else
          let data = cstr_at (got r @ [NUL]) 0;
              hw = strstr (NL # ''Hardware'') data;
              rev = strstr (NL # ''Revision'') data;
              st = (if hardware st = [] then
                      (case hw of None \<Rightarrow> st | Some h \<Rightarrow>
                        (case strstr '': '' h of None \<Rightarrow> st | Some x \<Rightarrow>
                           st\<lparr>hardware := copy_hardware 0 (drop 2 x)\<rparr>))
                    else st)
          in (case rev of None \<Rightarrow> st | Some r \<Rightarrow>
               (case strstr '': '' r of None \<Rightarrow> st | Some x \<Rightarrow>
                  st\<lparr>revision := fst (strtoul (strtoul_einval P) 16 (drop 2 x))\<rparr>)))"

function cmdline_loop :: "(string \<Rightarrow> init_st \<Rightarrow> init_st) \<Rightarrow> string \<Rightarrow> init_st \<Rightarrow> init_st" where
  "cmdline_loop import_nv ptr st =
     (if ptr = [] then st
      else (case split_first SP ptr of
              None \<Rightarrow> import_nv ptr st
            | Some (w, x) \<Rightarrow> cmdline_loop import_nv x (import_nv w st)))"
  by pat_completeness auto
termination
  by (relation "measure (\<lambda>(f, ptr, st). length ptr)") (auto dest: split_first_shorter)

declare cmdline_loop.simps [simp del]

definition import_kernel_cmdline ::
  "platform \<Rightarrow> bool \<Rightarrow> (string \<Rightarrow> bool \<Rightarrow> init_st \<Rightarrow> init_st) \<Rightarrow> init_st \<Rightarrow> init_st" where
  "import_kernel_cmdline P in_qemu import_nv st =
     (let (f, st) = sys P (Sys_open ''/proc/cmdline'' [O_RDONLY] 0) st; fd = an_ret f in
      if 0 \<le> fd then
        (let (r, st) = sys P (Sys_read fd 1023) st;
             data = got r;
             line = (if data \<noteq> [] \<and> last data = NL then butlast data else data);
             st = perform P (Sys_close fd) st
         in cmdline_loop (\<lambda>w. import_nv w in_qemu) (cstr_at (line @ [NUL]) 0) st)
      else st)"

subsection \<open>What the routines leave alone\<close>

lemmas run_simps = sys_eq Let_def

lemma gettime_eq:
  "gettime P st = (let a = os P (trace st) Sys_clock_gettime in if an_ret a < 0 then 0 else an_time a,
                   perform P Sys_clock_gettime st)"
  by (simp add: gettime_def run_simps)

lemma traced_gettime [traced_intros]: "traced st (snd (gettime P st))"
  by (simp add: gettime_eq)

lemma traced_create_socket [traced_intros]: "traced st (snd (create_socket P n t p u g st))"
  by (simp add: create_socket_def run_simps traced_intros)

lemma traced_read_file [traced_intros]: "traced st (snd (read_file P fn st))"
  by (simp add: read_file_def run_simps traced_intros)

lemma traced_mkdir_prefixes: "traced st (snd (mkdir_prefixes P b mode r st))"
proof (induction r arbitrary: b st rule: length_induct)
  case (1 r)
  show ?case
  proof (cases "split_first SLASH r")
    case None
    then show ?thesis by (simp add: mkdir_prefixes.simps [of P b])
  next
    case (Some p)
    obtain a x where p: "p = (a, x)" by force
    have IH: "traced s (snd (mkdir_prefixes P b' mode x s))" for b' s
      using 1 Some p by (auto dest: split_first_shorter)
    show ?thesis
      by (simp add: mkdir_prefixes.simps [of P b] Some p run_simps traced_intros)
         (auto intro: IH traced_trans [OF traced_perform IH]
               traced_trans [OF traced_step [OF traced_perform] IH])
  qed
qed

lemma traced_mkdir_recursive [traced_intros]: "traced st (snd (mkdir_recursive P path mode st))"
  using traced_mkdir_prefixes [of st P "[]" mode path]
  by (auto simp: mkdir_recursive_def run_simps intro: traced_intros split: prod.splits option.splits)

lemma traced_make_link [traced_intros]: "traced st (make_link P old new st)"
  by (simp add: make_link_def traced_intros split: option.splits prod.splits)

lemma traced_remove_link [traced_intros]: "traced st (remove_link P old new st)"
  by (simp add: remove_link_def run_simps traced_intros)

lemma traced_wait_loop:
  assumes "wait_loop P f t ret st = Some y"
  shows "traced st (snd y)"
proof (rule wait_loop.raw_induct [where Pa = "\<lambda>x y. traced (snd x) (snd y)", OF _ assms, unfolded snd_conv], goal_cases)
  case (1 wl P f t ret st y)
  note t = traced_trans [OF traced_step [OF traced_step [OF traced_perform]]]
  from 1(2) show ?case
    by (cases y) (auto simp: run_simps gettime_eq traced_step split: if_splits
        dest!: 1(1) intro: t)
qed

lemma traced_wait_for_file [traced_intros]:
  "wait_for_file P f t st = Some (r, st') \<Longrightarrow> traced st st'"
  by (auto simp: wait_for_file_def gettime_eq dest!: traced_wait_loop
           intro: traced_trans [OF traced_perform])

subsection \<open>Properties\<close>

text \<open>
  \<open>read_file\<close> delivers a buffer only for a file that it opened and whose mode, read from the
  open descriptor, lets neither the group nor others write; the buffer is what was read, then a
  line end and a NUL.
\<close>

lemma read_file_secure:
  assumes "read_file P fn st = (Some b, st')"
  shows "\<exists>t f sb r. trace st' = t @ trace st \<and>
    (Sys_open fn [O_RDONLY] 0, f) \<in> set t \<and> 0 \<le> an_ret f \<and>
    (Sys_fstat (an_ret f), sb) \<in> set t \<and>
    \<not> has (an_mode sb) S_IWGRP \<and> \<not> has (an_mode sb) S_IWOTH \<and>
    (Sys_read (an_ret f) (int (length (got r))), r) \<in> set t \<and> b = got r @ [NL, NUL]"
  using assms
  by (fastforce simp: read_file_def run_simps trace_perform flag_simps split: if_splits)

lemma read_file_secure_witness:
  "read_file example_platform ''/init.rc'' init_st0 =
     (Some [NL, NUL], snd (read_file example_platform ''/init.rc'' init_st0)) \<and>
   (\<exists>t f sb r. trace (snd (read_file example_platform ''/init.rc'' init_st0)) = t @ trace init_st0 \<and>
    (Sys_open ''/init.rc'' [O_RDONLY] 0, f) \<in> set t \<and> 0 \<le> an_ret f \<and>
    (Sys_fstat (an_ret f), sb) \<in> set t \<and>
    \<not> has (an_mode sb) S_IWGRP \<and> \<not> has (an_mode sb) S_IWOTH \<and>
    (Sys_read (an_ret f) (int (length (got r))), r) \<in> set t \<and> [NL, NUL] = got r @ [NL, NUL])"
proof -
  have *: "read_file example_platform ''/init.rc'' init_st0 =
     (Some [NL, NUL], snd (read_file example_platform ''/init.rc'' init_st0))"
    by code_simp
  show ?thesis using * read_file_secure [OF *] by blast
qed

lemma decode_uid_show: "n < 2 ^ 32 \<Longrightarrow> decode_uid P (show_nat n) = of_nat n"
proof -
  assume n: "n < 2 ^ 32"
  obtain c r where cr: "show_nat n = c # r" by (cases "show_nat n") auto
  then have "\<not> isalpha c" using show_nat_hd [OF cr] isdigit_not by blast
  then have "decode_uid P (show_nat n) =
      (let (v, err) = strtoul (strtoul_einval P) 0 (show_nat n) in if err then - 1 else v)"
    unfolding decode_uid_def by (simp add: cr)
  then show ?thesis by (simp add: strtoul_show [OF disjI1 [OF refl] n])
qed

text \<open>
  The words of the kernel command line: what stands between the blanks, an empty last one left
  out.
\<close>

function words_of :: "string \<Rightarrow> string list" where
  "words_of s = (if s = [] then [] else
     (case split_first SP s of None \<Rightarrow> [s] | Some (w, r) \<Rightarrow> w # words_of r))"
  by pat_completeness auto
termination
  by (relation "measure length") (auto dest: split_first_shorter)

declare words_of.simps [simp del]

lemma cmdline_loop_words: "cmdline_loop f s st = fold f (words_of s) st"
proof (induction s arbitrary: st rule: words_of.induct)
  case (1 s)
  show ?case
  proof (cases "s = []")
    case True
    then show ?thesis by (simp add: cmdline_loop.simps [of f "[]"] words_of.simps [of "[]"])
  next
    case False
    with 1 show ?thesis
      by (cases "split_first SP s") (auto simp: cmdline_loop.simps [of f s] words_of.simps [of s])
  qed
qed

lemma length_copy_hardware: "n < 31 \<Longrightarrow> n + length (copy_hardware n s) \<le> 31"
proof (induction s arbitrary: n)
  case (Cons x s)
  show ?case using Cons.IH [of n] Cons.IH [of "Suc n"] Cons.prems by auto
qed simp

text \<open>The partition table and the hardware name stay within their arrays.\<close>

definition util_ok :: "init_st \<Rightarrow> bool" where
  "util_ok st \<longleftrightarrow> length (hardware st) < 32 \<and>
     (0 \<le> mtd_part_count st \<longrightarrow> mtd_part_count st \<le> MAX_MTD_PARTITIONS \<and>
        length (mtd_part_map st) = nat (mtd_part_count st) \<and>
        (\<forall>(n, k) \<in> set (mtd_part_map st). length n < 16))"

lemma split_first_length: "split_first c s = Some (a, r) \<Longrightarrow> length a < length s"
  by (auto dest: split_first_SomeD)

lemma add_mtd_ok:
  assumes "util_ok st" "0 \<le> mtd_part_count st" "length name \<le> 15"
  shows "util_ok (add_mtd (num, name) st) \<and> 0 \<le> mtd_part_count (add_mtd (num, name) st)"
  using assms
  by (auto simp: add_mtd_def util_ok_def MAX_MTD_PARTITIONS_def Let_def nat_add_distrib
           split: option.splits dest!: split_first_length)

lemma sscanf_mtd_name: "sscanf_mtd s = Some (num, name) \<Longrightarrow> length name \<le> 15"
  by (auto simp: sscanf_mtd_def scan_word_def Let_def bind_eq_Some_conv split: if_splits)

lemma mtd_loop_ok:
  "util_ok st \<Longrightarrow> 0 \<le> mtd_part_count st \<Longrightarrow>
   util_ok (mtd_loop n buf st) \<and> 0 \<le> mtd_part_count (mtd_loop n buf st)"
proof (induction n buf st rule: mtd_loop.induct)
  case (1 n buf st)
  let ?st = "case sscanf_mtd (takeWhile (\<lambda>c. c \<noteq> NUL) buf) of None \<Rightarrow> st | Some f \<Rightarrow> add_mtd f st"
  have "util_ok ?st \<and> 0 \<le> mtd_part_count ?st"
    using "1.prems" add_mtd_ok sscanf_mtd_name by (auto split: option.splits)
  with 1 show ?case by (subst (1 2) mtd_loop.simps) (auto simp: Let_def)
qed

lemma util_ok_traced: "traced st st' \<Longrightarrow> util_ok st \<Longrightarrow> util_ok st'"
  by (auto simp: traced_def util_ok_def)

lemma perform_mtd: "mtd_part_count (perform P c st) = mtd_part_count st"
  by (simp add: perform_def sys_def Let_def)

text \<open>
  The scanners of \<open>/proc/cpuinfo\<close> and \<open>/proc/mtd\<close> stay within their fixed arrays, whatever
  the files hold: the hardware name within its 32 bytes, the partitions within 16 entries, and
  each partition name within 16 bytes.
\<close>

lemma util_bounds:
  assumes "util_ok st"
  shows "util_ok (get_hardware_name P st) \<and> util_ok (snd (mtd_name_to_number P name st))"
proof (rule conjI)
  have h: "util_ok (s\<lparr>hardware := copy_hardware 0 x\<rparr>)" if "util_ok s" for s x
    using that length_copy_hardware [of 0 x] by (simp add: util_ok_def)
  have t: "util_ok (perform P c s)" if "util_ok s" for c s
    using that by (rule util_ok_traced [OF traced_perform])
  have r: "util_ok (s\<lparr>revision := x\<rparr>)" if "util_ok s" for s x
    using that by (simp add: util_ok_def)
  show "util_ok (get_hardware_name P st)"
    by (simp only: get_hardware_name_def run_simps case_prod_conv split: if_split option.split)
       (intro conjI impI allI r h t assms)
  have z: "util_ok (st\<lparr>mtd_part_count := 0, mtd_part_map := []\<rparr>)"
    using assms by (simp add: util_ok_def MAX_MTD_PARTITIONS_def)
  have "util_ok (find_mtd_partitions P (st\<lparr>mtd_part_count := 0, mtd_part_map := []\<rparr>))"
    unfolding find_mtd_partitions_def run_simps case_prod_conv
    by (simp only: split: if_split) (intro conjI impI t z mtd_loop_ok [THEN conjunct1], simp add: perform_mtd)
  then show "util_ok (snd (mtd_name_to_number P name st))"
    using assms by (auto simp: mtd_name_to_number_def Let_def split: option.splits)
qed

lemma util_bounds_witness:
  "util_ok init_st0 \<and> util_ok (get_hardware_name example_platform init_st0) \<and>
   util_ok (snd (mtd_name_to_number example_platform ''system'' init_st0))"
  using util_bounds [of init_st0 example_platform "''system''"] by (simp add: util_ok_def init_st0_def)

subsection \<open>Waiting for a file\<close>

text \<open>The time a process reads after the calls \<open>t\<close>, and how often it slept.\<close>

definition clock_at :: "platform \<Rightarrow> sys_trace \<Rightarrow> int" where
  "clock_at P t = (let a = os P t Sys_clock_gettime in if an_ret a < 0 then 0 else an_time a)"

definition naps :: "sys_trace \<Rightarrow> nat" where
  "naps t = length (filter (\<lambda>(c, a). c = Sys_usleep 10000) t)"

lemma wait_loop_returns:
  assumes "\<And>u. N \<le> naps u \<Longrightarrow> timeout_time \<le> clock_at P (u @ t0)" "trace st = u @ t0"
  shows "\<exists>y. wait_loop P f timeout_time ret st = Some y"
  using assms(2)
proof (induction "N - naps u" arbitrary: u ret st rule: less_induct)
  case less
  show ?case
  proof (cases "clock_at P (trace st) < timeout_time")
    case False
    then show ?thesis by (subst wait_loop.simps) (simp add: gettime_eq clock_at_def Let_def)
  next
    case True
    let ?s1 = "perform P Sys_clock_gettime st"
    let ?s3 = "perform P (Sys_usleep 10000) (perform P (Sys_stat f) ?s1)"
    have n: "naps u < N" using True assms(1) [of u] less.prems by (cases "N \<le> naps u") auto
    obtain v where v: "trace ?s3 = (v @ u) @ t0" "naps (v @ u) = Suc (naps u)"
      using less.prems by (force simp: trace_perform naps_def)
    have "\<exists>y. wait_loop P f timeout_time r ?s3 = Some y" for r
      by (rule less.hyps [OF _ v(1)]) (use n v(2) in simp)
    then show ?thesis
      using True by (subst wait_loop.simps) (simp add: run_simps gettime_eq clock_at_def)
  qed
qed

text \<open>
  C24.  \<open>wait_for_file\<close> returns, whether or not the file ever appears, on a clock that reaches
  every time limit after enough naps.
\<close>

theorem wait_for_file_returns:
  assumes "\<And>limit. \<exists>N. \<forall>u. N \<le> naps u \<longrightarrow> limit \<le> clock_at P (u @ trace st)"
  shows "\<exists>ret st'. wait_for_file P filename timeout st = Some (ret, st')"
proof -
  let ?limit = "clock_at P (trace st) + timeout"
  obtain N where N: "\<And>u. N \<le> naps u \<Longrightarrow> ?limit \<le> clock_at P (u @ trace st)"
    using assms [of ?limit] by blast
  have tr: "trace (perform P Sys_clock_gettime st) = [(Sys_clock_gettime, os P (trace st) Sys_clock_gettime)] @ trace st"
    by (simp add: trace_perform)
  from wait_loop_returns [OF N tr]
  have "\<exists>y. wait_loop P filename ?limit (- 1) (perform P Sys_clock_gettime st) = Some y" .
  then show ?thesis by (auto simp: wait_for_file_def gettime_eq clock_at_def Let_def split: if_splits)
qed

text \<open>A kernel without any file, whose clock is the number of naps.\<close>

definition napping_os :: "sys_trace \<Rightarrow> syscall \<Rightarrow> answer" where
  "napping_os t c = (case c of Sys_stat _ \<Rightarrow> ok_answer (- 1) | _ \<Rightarrow> (ok_answer 0)\<lparr>an_time := int (naps t)\<rparr>)"

theorem wait_for_file_returns_witness:
  "\<exists>ret st'. wait_for_file (example_platform\<lparr>os := napping_os\<rparr>) ''/dev/.coldboot_done'' 5 init_st0 = Some (ret, st')"
proof (rule wait_for_file_returns)
  fix limit
  show "\<exists>N. \<forall>u. N \<le> naps u \<longrightarrow> limit \<le> clock_at (example_platform\<lparr>os := napping_os\<rparr>) (u @ trace init_st0)"
    by (rule exI [of _ "nat limit"])
       (auto simp: clock_at_def napping_os_def ok_answer_def init_st0_def Let_def)
qed

end
