(* ===== verification/Lexer.thy ===== *)
theory Lexer
  imports Prelude
begin

text \<open>
  The tokenizer of the init language, \<open>next_token\<close> of \<open>src/system/core/init/parser.c\<close>.  It
  works in place: the characters of a token are copied towards the front of the very buffer
  that is being read, and a NUL is written after them.  \<open>next_token\<close> models it on an explicit
  buffer, with every read and write checked.  \<open>spec_token\<close> is the same language as a function
  on the remaining input; \<open>next_token_refines\<close> shows that the in-place code computes it, never
  leaves the buffer, and leaves everything in front of the token alone.
\<close>

subsection \<open>The tokens and the parse state\<close>

datatype token = T_EOF | T_TEXT | T_NEWLINE

text \<open>
  \<open>struct parse_state\<close>, with the memory \<open>ptr\<close> and \<open>text\<close> point into as the field \<open>ps_buf\<close>
  and the two pointers as offsets.  \<open>ps_nexttoken\<close> is \<open>T_EOF\<close> (the constant 0) when no token
  is pending.
\<close>

record parse_state =
  ps_buf :: "char list"
  ps_ptr :: nat
  ps_text :: nat
  ps_line :: nat
  ps_nexttoken :: token

subsection \<open>The in-place tokenizer\<close>

abbreviation is_blank :: "char \<Rightarrow> bool" where
  "is_blank c \<equiv> c = SP \<or> c = TAB"

text \<open>\<open>while (*x && (*x != '\n')) x++;\<close>\<close>

function skip_comment :: "char list \<Rightarrow> nat \<Rightarrow> nat option" where
  "skip_comment b x =
     (case char_at b x of
        None \<Rightarrow> None
      | Some c \<Rightarrow> if c = NUL \<or> c = NL then Some x else skip_comment b (Suc x))"
  by pat_completeness auto
termination
  by (relation "measure (\<lambda>(b, x). length b - x)") (auto dest!: char_at_SomeD)

text \<open>\<open>while((*x == ' ') || (*x == '\t')) x++;\<close>\<close>

function skip_blanks :: "char list \<Rightarrow> nat \<Rightarrow> nat option" where
  "skip_blanks b x =
     (case char_at b x of
        None \<Rightarrow> None
      | Some c \<Rightarrow> if is_blank c then skip_blanks b (Suc x) else Some x)"
  by pat_completeness auto
termination
  by (relation "measure (\<lambda>(b, x). length b - x)") (auto dest!: char_at_SomeD)

text \<open>
  The inner loop of a quoted part: copy up to the closing quote.  The flag of the result tells
  whether the quote was closed (\<open>goto textresume\<close>) or the text ended (\<open>return T_EOF\<close>).
\<close>

function quote_copy :: "char list \<Rightarrow> nat \<Rightarrow> nat \<Rightarrow> (char list \<times> nat \<times> nat \<times> bool) option" where
  "quote_copy b s x =
     (case char_at b x of
        None \<Rightarrow> None
      | Some c \<Rightarrow>
          if c = NUL then Some (b, s, x, False)
          else if c = DQ then Some (b, s, Suc x, True)
          else (case put_at b s c of
                  None \<Rightarrow> None
                | Some b' \<Rightarrow> quote_copy b' (Suc s) (Suc x)))"
  by pat_completeness auto
termination
  by (relation "measure (\<lambda>(b, s, x). length b - x)")
     (auto dest!: char_at_SomeD put_at_SomeD)

declare skip_comment.simps [simp del] skip_blanks.simps [simp del] quote_copy.simps [simp del]

lemma skip_blanks_mono: "skip_blanks b x = Some y \<Longrightarrow> x \<le> y"
proof (induction b x rule: skip_blanks.induct)
  case (1 b x)
  show ?case
  proof (cases "char_at b x")
    case None
    with "1.prems" show ?thesis by (simp add: skip_blanks.simps [of b x])
  next
    case (Some c)
    with "1.prems" "1.IH" [OF Some] show ?thesis
      by (auto simp: skip_blanks.simps [of b x] split: if_splits)
  qed
qed

lemma quote_copy_mono: "quote_copy b s x = Some (b', s', x', q) \<Longrightarrow> length b' = length b \<and> x \<le> x'"
proof (induction b s x rule: quote_copy.induct)
  case (1 b s x)
  from "1.prems" obtain c where c: "char_at b x = Some c"
    by (auto simp: quote_copy.simps [of b s x] split: option.splits)
  show ?case
  proof (cases "c = NUL \<or> c = DQ")
    case True
    with "1.prems" c show ?thesis by (auto simp: quote_copy.simps [of b s x] split: if_splits)
  next
    case False
    with "1.prems" c obtain b1 where b1: "put_at b s c = Some b1"
      and rec: "quote_copy b1 (Suc s) (Suc x) = Some (b', s', x', q)"
      by (auto simp: quote_copy.simps [of b s x] split: option.splits)
    from "1.IH" [OF c _ _ b1 rec] False b1 show ?thesis by (auto dest: put_at_length)
  qed
qed

text \<open>The label \<open>textdone\<close>.\<close>

definition nt_textdone :: "parse_state \<Rightarrow> nat \<Rightarrow> nat \<Rightarrow> (token \<times> parse_state) option" where
  "nt_textdone ps s x =
     (case put_at (ps_buf ps) s NUL of
        None \<Rightarrow> None
      | Some b \<Rightarrow> Some (T_TEXT, ps\<lparr>ps_ptr := x, ps_buf := b\<rparr>))"

text \<open>
  The loop at \<open>textresume\<close>.  After \<open>\n\<close>, \<open>\r\<close>, \<open>\t\<close> and \<open>\\\<close> the code leaves \<open>x\<close> on the
  escaped letter, so the next round reads that letter again.
\<close>

function nt_text :: "parse_state \<Rightarrow> nat \<Rightarrow> nat \<Rightarrow> (token \<times> parse_state) option" where
  "nt_text ps s x =
     (case char_at (ps_buf ps) x of
        None \<Rightarrow> None
      | Some c \<Rightarrow>
        if c = NUL then nt_textdone ps s x
        else if c = SP \<or> c = TAB \<or> c = CR then nt_textdone ps s (Suc x)
        else if c = NL then nt_textdone (ps\<lparr>ps_nexttoken := T_NEWLINE\<rparr>) s (Suc x)
        else if c = DQ then
          (case quote_copy (ps_buf ps) s (Suc x) of
             None \<Rightarrow> None
           | Some (b, s', x', closed) \<Rightarrow>
               if closed then nt_text (ps\<lparr>ps_buf := b\<rparr>) s' x'
               else Some (T_EOF, ps\<lparr>ps_buf := b, ps_ptr := x'\<rparr>))
        else if c = BSL then
          (case char_at (ps_buf ps) (Suc x) of
             None \<Rightarrow> None
           | Some d \<Rightarrow>
             if d = NUL then nt_textdone ps s (Suc x)
             else if d = CHR ''n'' then
               (case put_at (ps_buf ps) s NL of None \<Rightarrow> None
                | Some b \<Rightarrow> nt_text (ps\<lparr>ps_buf := b\<rparr>) (Suc s) (Suc x))
             else if d = CHR ''r'' then
               (case put_at (ps_buf ps) s CR of None \<Rightarrow> None
                | Some b \<Rightarrow> nt_text (ps\<lparr>ps_buf := b\<rparr>) (Suc s) (Suc x))
             else if d = CHR ''t'' then
               (case put_at (ps_buf ps) s TAB of None \<Rightarrow> None
                | Some b \<Rightarrow> nt_text (ps\<lparr>ps_buf := b\<rparr>) (Suc s) (Suc x))
             else if d = BSL then
               (case put_at (ps_buf ps) s BSL of None \<Rightarrow> None
                | Some b \<Rightarrow> nt_text (ps\<lparr>ps_buf := b\<rparr>) (Suc s) (Suc x))
             else if d = CR then
               (case char_at (ps_buf ps) (Suc (Suc x)) of None \<Rightarrow> None
                | Some e \<Rightarrow>
                    if e \<noteq> NL then nt_text ps s (Suc (Suc x))
                    else (case skip_blanks (ps_buf ps) (Suc (Suc x)) of None \<Rightarrow> None
                          | Some y \<Rightarrow> nt_text (ps\<lparr>ps_line := Suc (ps_line ps)\<rparr>) s y))
             else if d = NL then
               (case skip_blanks (ps_buf ps) (Suc (Suc x)) of None \<Rightarrow> None
                | Some y \<Rightarrow> nt_text (ps\<lparr>ps_line := Suc (ps_line ps)\<rparr>) s y)
             else
               (case put_at (ps_buf ps) s d of None \<Rightarrow> None
                | Some b \<Rightarrow> nt_text (ps\<lparr>ps_buf := b\<rparr>) (Suc s) (Suc (Suc x))))
        else
          (case put_at (ps_buf ps) s c of None \<Rightarrow> None
           | Some b \<Rightarrow> nt_text (ps\<lparr>ps_buf := b\<rparr>) (Suc s) (Suc x)))"
  by pat_completeness auto
termination
  by (relation "measure (\<lambda>(ps, s, x). length (ps_buf ps) - x)")
     (auto dest!: char_at_SomeD put_at_SomeD quote_copy_mono skip_blanks_mono)

declare nt_text.simps [simp del]

text \<open>The first loop: blanks, line ends and comments before a token.\<close>

function nt_skip :: "parse_state \<Rightarrow> nat \<Rightarrow> (token \<times> parse_state) option" where
  "nt_skip ps x =
     (case char_at (ps_buf ps) x of
        None \<Rightarrow> None
      | Some c \<Rightarrow>
        if c = NUL then Some (T_EOF, ps\<lparr>ps_ptr := x\<rparr>)
        else if c = NL then Some (T_NEWLINE, ps\<lparr>ps_ptr := Suc x\<rparr>)
        else if c = SP \<or> c = TAB \<or> c = CR then nt_skip ps (Suc x)
        else if c = HASH then
          (case skip_comment (ps_buf ps) x of
             None \<Rightarrow> None
           | Some y \<Rightarrow>
             (case char_at (ps_buf ps) y of
                None \<Rightarrow> None
              | Some d \<Rightarrow>
                  if d = NL then Some (T_NEWLINE, ps\<lparr>ps_ptr := Suc y\<rparr>)
                  else Some (T_EOF, ps\<lparr>ps_ptr := y\<rparr>)))
        else nt_text (ps\<lparr>ps_text := x\<rparr>) x x)"
  by pat_completeness auto
termination
  by (relation "measure (\<lambda>(ps, x). length (ps_buf ps) - x)") (auto dest!: char_at_SomeD)

declare nt_skip.simps [simp del]

definition next_token :: "parse_state \<Rightarrow> (token \<times> parse_state) option" where
  "next_token ps =
     (if ps_nexttoken ps \<noteq> T_EOF then Some (ps_nexttoken ps, ps\<lparr>ps_nexttoken := T_EOF\<rparr>)
      else nt_skip ps (ps_ptr ps))"

subsection \<open>The language as a function on the remaining input\<close>

text \<open>
  \<open>spec_text acc n inp\<close> reads the rest of a token.  It returns the text of the token, the
  input behind it, the number of continued lines and whether a line end is pending; \<open>None\<close> in
  the first place is a quoted part that is not closed.
\<close>

function spec_text ::
  "string \<Rightarrow> nat \<Rightarrow> string \<Rightarrow> string option \<times> string \<times> nat \<times> bool" where
  "spec_text acc n [] = (Some acc, [], n, False)"
| "spec_text acc n (c # r) =
     (if c = SP \<or> c = TAB \<or> c = CR then (Some acc, r, n, False)
      else if c = NL then (Some acc, r, n, True)
      else if c = DQ then
        (case split_first DQ r of
           None \<Rightarrow> (None, [], n, False)
         | Some (q, r') \<Rightarrow> spec_text (acc @ q) n r')
      else if c = BSL then
        (case r of
           [] \<Rightarrow> (Some acc, [], n, False)
         | d # r' \<Rightarrow>
           if d = CHR ''n'' then spec_text (acc @ [NL]) n r
           else if d = CHR ''r'' then spec_text (acc @ [CR]) n r
           else if d = CHR ''t'' then spec_text (acc @ [TAB]) n r
           else if d = BSL then spec_text (acc @ [BSL]) n r
           else if d = CR then
             (if take 1 r' = [NL] then spec_text acc (Suc n) (dropWhile is_blank r')
              else spec_text acc n r')
           else if d = NL then spec_text acc (Suc n) (dropWhile is_blank r')
           else spec_text (acc @ [d]) n r')
      else spec_text (acc @ [c]) n r)"
  by pat_completeness auto
termination
  by (relation "measure (\<lambda>(acc, n, inp). length inp)")
     (auto dest!: split_first_SomeD simp: le_imp_less_Suc length_dropWhile_le
           intro!: le_less_trans [OF length_dropWhile_le])

fun spec_token :: "string \<Rightarrow> token \<times> string \<times> string \<times> nat \<times> bool" where
  "spec_token [] = (T_EOF, [], [], 0, False)"
| "spec_token (c # r) =
     (if c = NL then (T_NEWLINE, [], r, 0, False)
      else if c = SP \<or> c = TAB \<or> c = CR then spec_token r
      else if c = HASH then
        (case dropWhile (\<lambda>d. d \<noteq> NL) r of
           [] \<Rightarrow> (T_EOF, [], [], 0, False)
         | _ # r' \<Rightarrow> (T_NEWLINE, [], r', 0, False))
      else
        (case spec_text [] 0 (c # r) of
           (None, r', n, nl) \<Rightarrow> (T_EOF, [], r', n, nl)
         | (Some txt, r', n, nl) \<Rightarrow> (T_TEXT, txt, r', n, nl)))"

declare spec_text.simps(2) [simp del]

subsection \<open>Refinement: the in-place code computes the function\<close>

text \<open>
  The remaining input of a parse state: the characters from \<open>ps_ptr\<close> to the terminating NUL.
\<close>

definition remaining :: "char list \<Rightarrow> nat \<Rightarrow> string \<Rightarrow> char list \<Rightarrow> bool" where
  "remaining b x inp post \<longleftrightarrow> drop x b = inp @ NUL # post \<and> NUL \<notin> set inp"

lemma remaining_Nil: "remaining b x [] post \<Longrightarrow> char_at b x = Some NUL"
  by (auto simp: remaining_def intro: char_at_drop)

lemma remaining_Cons:
  "remaining b x (c # r) post \<Longrightarrow>
     char_at b x = Some c \<and> c \<noteq> NUL \<and> x < length b \<and> remaining b (Suc x) r post"
  by (auto simp: remaining_def intro: char_at_drop drop_less_length dest: drop_Suc_eq)

lemma remaining_length: "remaining b x inp post \<Longrightarrow> x + length inp < length b"
  by (auto simp: remaining_def dest: arg_cong [where f = length])

lemma remaining_write:
  "remaining b x inp post \<Longrightarrow> s < x \<Longrightarrow> remaining (b[s := c]) x inp post"
  by (auto simp: remaining_def)

lemma skip_comment_spec:
  "remaining b x inp post \<Longrightarrow>
     \<exists>y. skip_comment b x = Some y \<and> remaining b y (dropWhile (\<lambda>d. d \<noteq> NL) inp) post"
proof (induction inp arbitrary: x)
  case Nil
  with remaining_Nil [OF Nil] show ?case by (simp add: skip_comment.simps [of b x])
next
  case (Cons c r)
  with remaining_Cons [OF Cons.prems] show ?case by (auto simp: skip_comment.simps [of b x])
qed

lemma skip_blanks_spec:
  "remaining b x inp post \<Longrightarrow>
     \<exists>y \<ge> x. skip_blanks b x = Some y \<and> remaining b y (dropWhile is_blank inp) post"
proof (induction inp arbitrary: x)
  case Nil
  with remaining_Nil [OF Nil] show ?case by (auto simp: skip_blanks.simps [of b x])
next
  case (Cons c r)
  note R = remaining_Cons [OF Cons.prems]
  show ?case
  proof (cases "is_blank c")
    case True
    from Cons.IH [of "Suc x"] R obtain y where "Suc x \<le> y" "skip_blanks b (Suc x) = Some y"
      "remaining b y (dropWhile is_blank r) post" by auto
    with True R show ?thesis by (intro exI [of _ y]) (auto simp: skip_blanks.simps [of b x])
  next
    case False
    with R Cons.prems show ?thesis by (auto simp: skip_blanks.simps [of b x])
  qed
qed

text \<open>
  The invariant of the copying loops: the token starts at \<open>t\<close>, its characters \<open>acc\<close> stand in
  front of the write position \<open>s\<close>, which is never ahead of the read position \<open>x\<close>; nothing in
  front of \<open>t\<close> differs from the buffer \<open>b0\<close> at the start.
\<close>

definition copying ::
  "char list \<Rightarrow> char list \<Rightarrow> nat \<Rightarrow> nat \<Rightarrow> nat \<Rightarrow> string \<Rightarrow> string \<Rightarrow> char list \<Rightarrow> bool" where
  "copying b0 b t s x acc inp post \<longleftrightarrow>
     t \<le> s \<and> s \<le> x \<and> take (s - t) (drop t b) = acc \<and> NUL \<notin> set acc \<and>
     length b = length b0 \<and> take t b = take t b0 \<and> remaining b x inp post"

lemma copyingD:
  assumes "copying b0 b t s x acc inp post"
  shows "t \<le> s" "s \<le> x" "remaining b x inp post" "length b = length b0" "take t b = take t b0"
    "s < length b"
  using assms remaining_length [of b x inp post] by (auto simp: copying_def)

lemma copying_write:
  assumes "copying b0 b t s x acc inp post" "s < y" "remaining b y inp' post" "c \<noteq> NUL"
  shows "put_at b s c = Some (b[s := c]) \<and> copying b0 (b[s := c]) t (Suc s) y (acc @ [c]) inp' post"
proof -
  note D = copyingD [OF assms(1)]
  have "take (Suc s - t) (drop t (b[s := c])) = acc @ [c]"
    using take_drop_snoc [OF D(1,6), of c] assms(1) by (simp add: copying_def)
  then show ?thesis
    using assms D by (auto simp: copying_def put_at_def remaining_write)
qed

lemma copying_move:
  assumes "copying b0 b t s x acc inp post" "x \<le> y" "remaining b y inp' post"
  shows "copying b0 b t s y acc inp' post"
  using assms by (auto simp: copying_def)

lemma quote_copy_spec:
  assumes "copying b0 b t s x acc inp post" "s < x"
  shows "case split_first DQ inp of
      None \<Rightarrow> \<exists>b' s' x'. quote_copy b s x = Some (b', s', x', False) \<and> x \<le> x' \<and>
                copying b0 b' t s' x' (acc @ inp) [] post
    | Some (q, r) \<Rightarrow> \<exists>b' s' x'. quote_copy b s x = Some (b', s', x', True) \<and> x < x' \<and>
                copying b0 b' t s' x' (acc @ q) r post"
  using assms
proof (induction inp arbitrary: b s x acc)
  case Nil
  with remaining_Nil [OF copyingD(3) [OF Nil(1)]] show ?case
    by (auto simp: quote_copy.simps [of b s x])
next
  case (Cons c r)
  note R = remaining_Cons [OF copyingD(3) [OF Cons.prems(1)]]
  show ?case
  proof (cases "c = DQ")
    case True
    with R Cons.prems show ?thesis
      by (auto simp: quote_copy.simps [of b s x] intro: copying_move)
  next
    case False
    from R have "remaining b (Suc x) r post" "c \<noteq> NUL" by auto
    with copying_write [OF Cons.prems(1) less_SucI [OF Cons.prems(2)]] Cons.prems(2)
    have W: "put_at b s c = Some (b[s := c])"
      and C: "copying b0 (b[s := c]) t (Suc s) (Suc x) (acc @ [c]) r post" by auto
    have Q: "quote_copy b s x = quote_copy (b[s := c]) (Suc s) (Suc x)"
      using R False W by (simp add: quote_copy.simps [of b s x])
    from Cons.IH [OF C] Cons.prems(2) False show ?thesis
      by (auto simp: Q split: option.splits)
  qed
qed

text \<open>
  The C string \<open>w\<close> stands at offset \<open>t\<close> and ends, NUL included, in front of the read position
  \<open>p\<close>; at the end of the input its NUL may be the one that ends the input.
\<close>

definition ends_before :: "char list \<Rightarrow> nat \<Rightarrow> string \<Rightarrow> nat \<Rightarrow> string \<Rightarrow> bool" where
  "ends_before b t w p rest \<longleftrightarrow>
     cstr_at b t = w \<and> (t + length w < p \<or> t + length w = p \<and> rest = [])"

text \<open>What a finished token guarantees of the new parse state.\<close>

definition token_done ::
  "char list \<Rightarrow> parse_state \<Rightarrow> nat \<Rightarrow> string option \<times> string \<times> nat \<times> bool \<Rightarrow> nat \<Rightarrow> char list \<Rightarrow>
   parse_state \<Rightarrow> bool" where
  "token_done b0 ps n res t post ps' \<longleftrightarrow>
     (case res of (txt, rest, n', nl) \<Rightarrow>
        remaining (ps_buf ps') (ps_ptr ps') rest post \<and>
        ps_line ps' + n = ps_line ps + n' \<and> ps_text ps' = ps_text ps \<and>
        ps_nexttoken ps' = (if nl then T_NEWLINE else ps_nexttoken ps) \<and>
        length (ps_buf ps') = length b0 \<and> take t (ps_buf ps') = take t b0 \<and>
        (\<forall>w. txt = Some w \<longrightarrow> ends_before (ps_buf ps') t w (ps_ptr ps') rest))"

lemma nt_textdone_spec:
  assumes C: "copying b0 (ps_buf ps) t s y acc rest post" and "s < y \<or> rest = []"
  shows "\<exists>ps'. nt_textdone ps s y = Some (T_TEXT, ps') \<and> ps_ptr ps' = y \<and>
           token_done b0 ps n (Some acc, rest, n, False) t post ps'"
proof -
  define b where "b = (ps_buf ps)[s := NUL]"
  note D = copyingD [OF C]
  have rem: "remaining b y rest post"
  proof (cases "s < y")
    case True
    with D show ?thesis by (simp add: b_def remaining_write)
  next
    case False
    with D assms(2) have "s = y" "rest = []" by auto
    with D(3) have "ps_buf ps ! s = NUL" by (auto simp: remaining_def nth_via_drop)
    with D(3) \<open>s = y\<close> show ?thesis by (simp add: b_def) (metis list_update_id)
  qed
  have "drop s b = NUL # drop (Suc s) b"
    using D by (simp add: b_def Cons_nth_drop_Suc [symmetric])
  moreover have "take (s - t) (drop t b) = acc"
    using C D by (simp add: b_def copying_def drop_update_swap)
  ultimately have "cstr_at b t = acc"
    using C D cstr_at_eq [of "s - t" t b acc] by (auto simp: copying_def)
  moreover have "s = t + length acc" using C D by (auto simp: copying_def)
  ultimately have "ends_before b t acc y rest" using assms(2) D by (auto simp: ends_before_def)
  moreover have "take t b = take t b0" "length b = length b0"
    using D by (simp_all add: b_def)
  ultimately show ?thesis
    using rem D by (auto simp: nt_textdone_def put_at_def token_done_def b_def [symmetric])
qed

definition text_token :: "string option \<times> 'a \<Rightarrow> token" where
  "text_token r = (if fst r = None then T_EOF else T_TEXT)"

lemma text_token_simps [simp]: "text_token (None, r) = T_EOF" "text_token (Some a, r) = T_TEXT"
  by (simp_all add: text_token_def)

text \<open>
  \<open>text_ok b0 t post inp\<close>: from every state that has copied up to the input \<open>inp\<close>, the loop
  returns what \<open>spec_text\<close> says.  One lemma per branch of the loop, then an induction on the
  length of the input.
\<close>

definition text_ok :: "char list \<Rightarrow> nat \<Rightarrow> char list \<Rightarrow> string \<Rightarrow> bool" where
  "text_ok b0 t post inp \<longleftrightarrow>
     (\<forall>ps s x acc n. copying b0 (ps_buf ps) t s x acc inp post \<longrightarrow>
        (\<exists>ps'. nt_text ps s x = Some (text_token (spec_text acc n inp), ps') \<and>
               token_done b0 ps n (spec_text acc n inp) t post ps'))"

lemma text_okI:
  assumes "\<And>ps s x acc n. copying b0 (ps_buf ps) t s x acc inp post \<Longrightarrow>
     \<exists>ps'. nt_text ps s x = Some (text_token (spec_text acc n inp), ps') \<and>
           token_done b0 ps n (spec_text acc n inp) t post ps'"
  shows "text_ok b0 t post inp"
  using assms by (auto simp: text_ok_def)

lemma text_ok_continue:
  assumes "text_ok b0 t post inp2" "copying b0 (ps_buf ps2) t s2 x2 acc2 inp2 post"
    and "nt_text ps s x = nt_text ps2 s2 x2" "spec_text acc n inp = spec_text acc2 n2 inp2"
    and "ps_text ps2 = ps_text ps" "ps_nexttoken ps2 = ps_nexttoken ps"
      "ps_line ps2 + n = ps_line ps + n2"
  shows "\<exists>ps'. nt_text ps s x = Some (text_token (spec_text acc n inp), ps') \<and>
           token_done b0 ps n (spec_text acc n inp) t post ps'"
proof -
  from assms(1,2) obtain ps' where "nt_text ps2 s2 x2 = Some (text_token (spec_text acc2 n2 inp2), ps')"
    "token_done b0 ps2 n2 (spec_text acc2 n2 inp2) t post ps'"
    unfolding text_ok_def by blast
  with assms(3-) show ?thesis by (auto simp: token_done_def)
qed

text \<open>Storing one character and going on behind the character just read.\<close>

lemma text_ok_put:
  assumes ok: "text_ok b0 t post r" and C: "copying b0 (ps_buf ps) t s x acc inp post"
    and y: "s < y" "remaining (ps_buf ps) y r post" and "e \<noteq> NUL"
    and "spec_text acc n inp = spec_text (acc @ [e]) n r"
    and step: "\<And>b. put_at (ps_buf ps) s e = Some b \<Longrightarrow>
           nt_text ps s x = nt_text (ps\<lparr>ps_buf := b\<rparr>) (Suc s) y"
  shows "\<exists>ps'. nt_text ps s x = Some (text_token (spec_text acc n inp), ps') \<and>
           token_done b0 ps n (spec_text acc n inp) t post ps'"
proof -
  from copying_write [OF C y] assms(5)
  have w: "put_at (ps_buf ps) s e = Some ((ps_buf ps)[s := e])"
    and c: "copying b0 ((ps_buf ps)[s := e]) t (Suc s) y (acc @ [e]) r post" by auto
  show ?thesis
    by (rule text_ok_continue [OF ok, where ?ps2.0 = "ps\<lparr>ps_buf := (ps_buf ps)[s := e]\<rparr>"
          and ?s2.0 = "Suc s" and ?x2.0 = y and ?acc2.0 = "acc @ [e]" and ?n2.0 = n])
       (use c step [OF w] assms(6) in simp_all)
qed

lemma text_ok_Nil: "text_ok b0 t post []"
proof (rule text_okI)
  fix ps :: parse_state and s x acc n
  assume C: "copying b0 (ps_buf ps) t s x acc [] post"
  from nt_textdone_spec [OF C, of n] remaining_Nil [OF copyingD(3) [OF C]]
  show "\<exists>ps'. nt_text ps s x = Some (text_token (spec_text acc n []), ps') \<and>
          token_done b0 ps n (spec_text acc n []) t post ps'"
    by (auto simp: nt_text.simps [of ps s x])
qed

lemma text_ok_end:
  assumes c: "c = SP \<or> c = TAB \<or> c = CR \<or> c = NL"
  shows "text_ok b0 t post (c # r)"
proof (rule text_okI)
  fix ps :: parse_state and s x acc n
  assume C: "copying b0 (ps_buf ps) t s x acc (c # r) post"
  note R = remaining_Cons [OF copyingD(3) [OF C]]
  let ?p = "if c = NL then ps\<lparr>ps_nexttoken := T_NEWLINE\<rparr> else ps"
  have "copying b0 (ps_buf ?p) t s (Suc x) acc r post"
    using copying_move [OF C, of "Suc x" r] R by simp
  from nt_textdone_spec [OF this, of n] copyingD(2) [OF C] R c
  show "\<exists>ps'. nt_text ps s x = Some (text_token (spec_text acc n (c # r)), ps') \<and>
          token_done b0 ps n (spec_text acc n (c # r)) t post ps'"
    by (auto simp: nt_text.simps [of ps s x] spec_text.simps(2) token_done_def split: if_splits)
qed

lemma text_ok_quote:
  assumes ok: "\<And>q r'. split_first DQ r = Some (q, r') \<Longrightarrow> text_ok b0 t post r'"
  shows "text_ok b0 t post (DQ # r)"
proof (rule text_okI)
  fix ps :: parse_state and s x acc n
  assume C: "copying b0 (ps_buf ps) t s x acc (DQ # r) post"
  note R = remaining_Cons [OF copyingD(3) [OF C]]
  have C1: "copying b0 (ps_buf ps) t s (Suc x) acc r post"
    using copying_move [OF C, of "Suc x" r] R by simp
  have Q: "case split_first DQ r of
      None \<Rightarrow> \<exists>b' s' x'. quote_copy (ps_buf ps) s (Suc x) = Some (b', s', x', False) \<and> Suc x \<le> x' \<and>
                copying b0 b' t s' x' (acc @ r) [] post
    | Some (q, r') \<Rightarrow> \<exists>b' s' x'. quote_copy (ps_buf ps) s (Suc x) = Some (b', s', x', True) \<and> Suc x < x' \<and>
                copying b0 b' t s' x' (acc @ q) r' post"
    using quote_copy_spec [OF C1] copyingD(2) [OF C] by simp
  show "\<exists>ps'. nt_text ps s x = Some (text_token (spec_text acc n (DQ # r)), ps') \<and>
          token_done b0 ps n (spec_text acc n (DQ # r)) t post ps'"
  proof (cases "split_first DQ r")
    case None
    with Q obtain b' s' x' where "quote_copy (ps_buf ps) s (Suc x) = Some (b', s', x', False)"
      and c: "copying b0 b' t s' x' (acc @ r) [] post" by auto
    with R None copyingD [OF c] show ?thesis
      by (auto simp: nt_text.simps [of ps s x] spec_text.simps(2) token_done_def)
  next
    case (Some qr)
    obtain q r' where qr: "qr = (q, r')" by (cases qr)
    with Q Some obtain b' s' x' where q: "quote_copy (ps_buf ps) s (Suc x) = Some (b', s', x', True)"
      and c: "copying b0 b' t s' x' (acc @ q) r' post" by auto
    show ?thesis
      by (rule text_ok_continue [OF ok [OF Some [unfolded qr]],
            where ?ps2.0 = "ps\<lparr>ps_buf := b'\<rparr>" and ?s2.0 = s' and ?x2.0 = x' and ?acc2.0 = "acc @ q" and ?n2.0 = n])
         (use c q R Some qr in \<open>simp_all add: nt_text.simps [of ps s x] spec_text.simps(2)\<close>)
  qed
qed

lemma text_ok_plain:
  assumes "text_ok b0 t post r" "c \<notin> {SP, TAB, CR, NL, DQ, BSL}"
  shows "text_ok b0 t post (c # r)"
proof (rule text_okI)
  fix ps :: parse_state and s x acc n
  assume C: "copying b0 (ps_buf ps) t s x acc (c # r) post"
  note R = remaining_Cons [OF copyingD(3) [OF C]]
  show "\<exists>ps'. nt_text ps s x = Some (text_token (spec_text acc n (c # r)), ps') \<and>
          token_done b0 ps n (spec_text acc n (c # r)) t post ps'"
    by (rule text_ok_put [OF assms(1) C, where y = "Suc x" and e = c])
       (use R assms(2) copyingD(2) [OF C] in
         \<open>auto simp: nt_text.simps [of ps s x] spec_text.simps(2)\<close>)
qed

text \<open>The escapes: a continued line, a dropped carriage return, a stored character.\<close>

lemma text_ok_fold:
  assumes ok: "\<And>r''. length r'' \<le> length r' \<Longrightarrow> text_ok b0 t post r''"
    and C: "copying b0 (ps_buf ps) t s x acc inp post" and y: "x \<le> y" "remaining (ps_buf ps) y r' post"
    and "spec_text acc n inp = spec_text acc (Suc n) (dropWhile is_blank r')"
    and step: "\<And>z. skip_blanks (ps_buf ps) y = Some z \<Longrightarrow>
           nt_text ps s x = nt_text (ps\<lparr>ps_line := Suc (ps_line ps)\<rparr>) s z"
  shows "\<exists>ps'. nt_text ps s x = Some (text_token (spec_text acc n inp), ps') \<and>
           token_done b0 ps n (spec_text acc n inp) t post ps'"
proof -
  obtain z where z: "y \<le> z" "skip_blanks (ps_buf ps) y = Some z"
    "remaining (ps_buf ps) z (dropWhile is_blank r') post"
    using skip_blanks_spec [OF y(2)] by auto
  show ?thesis
    by (rule text_ok_continue [OF ok [OF length_dropWhile_le],
          where ?ps2.0 = "ps\<lparr>ps_line := Suc (ps_line ps)\<rparr>" and ?s2.0 = s and ?x2.0 = z
            and ?acc2.0 = acc and ?n2.0 = "Suc n"])
       (use copying_move [OF C _ z(3)] y z assms(5) step [OF z(2)] in simp_all)
qed

lemma text_ok_escaped:
  assumes ok: "\<And>r''. length r'' \<le> Suc (length r') \<Longrightarrow> text_ok b0 t post r''"
    and C: "copying b0 (ps_buf ps) t s x acc (BSL # d # r') post"
  shows "\<exists>ps'. nt_text ps s x = Some (text_token (spec_text acc n (BSL # d # r')), ps') \<and>
           token_done b0 ps n (spec_text acc n (BSL # d # r')) t post ps'"
    (is "\<exists>ps'. ?goal ps'")
proof -
  let ?b = "ps_buf ps" and ?r = "d # r'"
  note R = remaining_Cons [OF copyingD(3) [OF C]]
  have R1: "remaining ?b (Suc x) ?r post" using R by simp
  note R' = remaining_Cons [OF R1]
  have sx: "s < Suc x" "s < Suc (Suc x)" using copyingD(2) [OF C] by simp_all
  have okr: "text_ok b0 t post ?r" and okr': "text_ok b0 t post r'" using ok by auto
  note eqs = nt_text.simps [of ps s x] spec_text.simps(2)
  note put = text_ok_put [OF okr C sx(1) R1] and put' = text_ok_put [OF okr' C sx(2)]
  note fold = text_ok_fold [OF ok C, where y = "Suc (Suc x)"]
  define e where "e = (case r' of [] \<Rightarrow> NUL | c # _ \<Rightarrow> c)"
  have e: "char_at ?b (Suc (Suc x)) = Some e" "e = NL \<longleftrightarrow> take 1 r' = [NL]"
    using R' remaining_Nil [of ?b "Suc (Suc x)" post] remaining_Cons [of ?b "Suc (Suc x)"]
    by (cases r'; auto simp: e_def)+
  consider "d = CHR ''n''" | "d = CHR ''r''" | "d = CHR ''t''" | "d = BSL"
    | "d = CR" "take 1 r' = [NL]" | "d = CR" "take 1 r' \<noteq> [NL]" | "d = NL"
    | "d \<notin> {CHR ''n'', CHR ''r'', CHR ''t'', BSL, CR, NL}" by auto
  then show ?thesis
  proof cases
    case 1 show ?thesis by (rule put [of NL]) (use 1 R R' in \<open>auto simp: eqs\<close>)
  next
    case 2 show ?thesis by (rule put [of CR]) (use 2 R R' in \<open>auto simp: eqs\<close>)
  next
    case 3 show ?thesis by (rule put [of TAB]) (use 3 R R' in \<open>auto simp: eqs\<close>)
  next
    case 4 show ?thesis by (rule put [of BSL]) (use 4 R R' in \<open>auto simp: eqs\<close>)
  next
    case 5 show ?thesis by (rule fold [of r']) (use 5 e R R' in \<open>auto simp: eqs\<close>)
  next
    case 6
    show ?thesis
      by (rule text_ok_continue [OF okr', where ?ps2.0 = ps and ?s2.0 = s and ?x2.0 = "Suc (Suc x)"
            and ?acc2.0 = acc and ?n2.0 = n])
         (use 6 e R R' copying_move [OF C, of "Suc (Suc x)" r'] in \<open>auto simp: eqs\<close>)
  next
    case 7 show ?thesis by (rule fold [of r']) (use 7 R R' in \<open>auto simp: eqs\<close>)
  next
    case 8 show ?thesis by (rule put' [of d]) (use 8 R R' in \<open>auto simp: eqs\<close>)
  qed
qed

lemma text_ok_escape:
  assumes ok: "\<And>r'. length r' \<le> length r \<Longrightarrow> text_ok b0 t post r'"
  shows "text_ok b0 t post (BSL # r)"
proof (rule text_okI)
  fix ps :: parse_state and s x acc n
  assume C: "copying b0 (ps_buf ps) t s x acc (BSL # r) post"
  note R = remaining_Cons [OF copyingD(3) [OF C]]
  show "\<exists>ps'. nt_text ps s x = Some (text_token (spec_text acc n (BSL # r)), ps') \<and>
          token_done b0 ps n (spec_text acc n (BSL # r)) t post ps'"
  proof (cases r)
    case Nil
    have C1: "copying b0 (ps_buf ps) t s (Suc x) acc [] post"
      using copying_move [OF C, of "Suc x" r] R Nil by simp
    from nt_textdone_spec [OF C1, of n] R Nil remaining_Nil [OF copyingD(3) [OF C1]] copyingD(2) [OF C]
    show ?thesis by (auto simp: nt_text.simps [of ps s x] spec_text.simps(2))
  next
    case (Cons d r')
    with text_ok_escaped [of r' b0 t post ps s x acc d n] ok C show ?thesis by simp
  qed
qed

lemma text_ok_all: "text_ok b0 t post inp"
proof (induction inp rule: length_induct)
  case (1 inp)
  then have IH: "\<And>r. length r < length inp \<Longrightarrow> text_ok b0 t post r" by blast
  show ?case
  proof (cases inp)
    case Nil
    then show ?thesis by (simp add: text_ok_Nil)
  next
    case (Cons c r)
    then have IHr: "\<And>r'. length r' \<le> length r \<Longrightarrow> text_ok b0 t post r'" using IH by simp
    consider "c = SP \<or> c = TAB \<or> c = CR \<or> c = NL" | "c = DQ" | "c = BSL"
      | "c \<notin> {SP, TAB, CR, NL, DQ, BSL}" by auto
    then show ?thesis
    proof cases
      case 1
      with Cons show ?thesis using text_ok_end by blast
    next
      case 2
      have "text_ok b0 t post (DQ # r)"
        by (rule text_ok_quote, rule IHr) (auto dest!: split_first_SomeD)
      with 2 Cons show ?thesis by simp
    next
      case 3
      with text_ok_escape [OF IHr] Cons show ?thesis by simp
    next
      case 4
      with text_ok_plain [OF IHr [OF order_refl] 4] Cons show ?thesis by simp
    qed
  qed
qed

subsection \<open>The whole tokenizer\<close>

lemma length_split_first: "split_first c r = Some (q, r') \<Longrightarrow> length r' < length r"
  by (auto dest!: split_first_SomeD)

text \<open>
  The escapes, one equation each.  The letter of \<open>\n\<close>, \<open>\r\<close>, \<open>\t\<close> and \<open>\\\<close> is read again, and
  the line end of a backslash, carriage return, line feed sequence is not swallowed.
\<close>

lemma spec_text_escapes:
  "spec_text acc n [BSL] = (Some acc, [], n, False)"
  "spec_text acc n (BSL # CHR ''n'' # r) = spec_text (acc @ [NL]) n (CHR ''n'' # r)"
  "spec_text acc n (BSL # CHR ''r'' # r) = spec_text (acc @ [CR]) n (CHR ''r'' # r)"
  "spec_text acc n (BSL # CHR ''t'' # r) = spec_text (acc @ [TAB]) n (CHR ''t'' # r)"
  "spec_text acc n (BSL # BSL # r) = spec_text (acc @ [BSL]) n (BSL # r)"
  "spec_text acc n (BSL # NL # r) = spec_text acc (Suc n) (dropWhile is_blank r)"
  "spec_text acc n (BSL # CR # NL # r) = (Some acc, r, Suc n, True)"
  "take 1 r \<noteq> [NL] \<Longrightarrow> spec_text acc n (BSL # CR # r) = spec_text acc n r"
  "d \<notin> {CHR ''n'', CHR ''r'', CHR ''t'', BSL, CR, NL} \<Longrightarrow>
     spec_text acc n (BSL # d # r) = spec_text (acc @ [d]) n r"
  by (simp_all add: spec_text.simps(2) [of acc n BSL] spec_text.simps(2) [of acc "Suc n" NL])

text \<open>The other characters.\<close>

lemma spec_text_chars:
  "c = SP \<or> c = TAB \<or> c = CR \<Longrightarrow> spec_text acc n (c # r) = (Some acc, r, n, False)"
  "spec_text acc n (NL # r) = (Some acc, r, n, True)"
  "split_first DQ r = Some (q, r') \<Longrightarrow> spec_text acc n (DQ # r) = spec_text (acc @ q) n r'"
  "split_first DQ r = None \<Longrightarrow> spec_text acc n (DQ # r) = (None, [], n, False)"
  "c \<notin> {SP, TAB, CR, NL, DQ, BSL} \<Longrightarrow> spec_text acc n (c # r) = spec_text (acc @ [c]) n r"
  by (auto simp: spec_text.simps(2) [of acc n])

lemma spec_text_step:
  assumes "spec_text acc n (c # r) = (txt, rest, n', nl)"
  shows "length rest \<le> length r \<or>
    (\<exists>a m i. spec_text a m i = (txt, rest, n', nl) \<and> length i \<le> length r)"
proof -
  have L: "length (dropWhile is_blank r') \<le> length r'" for r' by (rule length_dropWhile_le)
  consider "c = SP \<or> c = TAB \<or> c = CR" | "c = NL" | q r' where "c = DQ" "split_first DQ r = Some (q, r')"
    | "c = DQ" "split_first DQ r = None" | "c = BSL" "r = []" | d r' where "c = BSL" "r = d # r'"
    | "c \<notin> {SP, TAB, CR, NL, DQ, BSL}"
    by (cases r; cases "split_first DQ r"; auto)
  then show ?thesis
  proof cases
    case 3
    with assms length_split_first [OF 3(2)] show ?thesis
      by (intro disjI2 exI [of _ "acc @ q"] exI [of _ n] exI [of _ r']) (simp add: spec_text_chars)
  next
    case (6 d r')
    consider "d = CHR ''n''" | "d = CHR ''r''" | "d = CHR ''t''" | "d = BSL"
      | q where "d = CR" "r' = NL # q" | "d = CR" "take 1 r' \<noteq> [NL]" | "d = NL"
      | "d \<notin> {CHR ''n'', CHR ''r'', CHR ''t'', BSL, CR, NL}"
      by (cases r') auto
    then show ?thesis
    proof cases
      case 7
      with assms 6 L [of r'] le_SucI [OF L [of r']] show ?thesis
        by (intro disjI2 exI [of _ acc] exI [of _ "Suc n"] exI [of _ "dropWhile is_blank r'"])
           (simp add: spec_text_escapes)
    qed (use assms 6 in \<open>fastforce simp: spec_text_escapes\<close>)+
  qed (use assms in \<open>fastforce simp: spec_text_chars spec_text_escapes\<close>)+
qed

lemma spec_text_rest: "spec_text acc n inp = (txt, rest, n', nl) \<Longrightarrow> length rest \<le> length inp"
proof (induction "length inp" arbitrary: acc n inp rule: less_induct)
  case less
  show ?case
  proof (cases inp)
    case (Cons c r)
    from spec_text_step [OF less.prems [unfolded Cons]] Cons show ?thesis
      by (auto dest!: less.hyps [rotated])
  qed (use less.prems in simp)
qed

text \<open>The bytes from a read position to the end of the buffer fix the position.\<close>

lemma remaining_less:
  assumes "remaining b x inp post" "remaining b' y rest post" "length b' = length b"
  shows "length rest < length inp \<longleftrightarrow> x < y"
proof -
  have "length b - x = length inp + Suc (length post)" "length b' - y = length rest + Suc (length post)"
    using assms(1,2) by (auto simp: remaining_def dest: arg_cong [where f = length])
  then show ?thesis using assms(3) by linarith
qed

text \<open>
  One call: the token, its text, the input left over, and what the call leaves alone.
\<close>

definition token_step :: "parse_state \<Rightarrow> string \<Rightarrow> char list \<Rightarrow> token \<Rightarrow> parse_state \<Rightarrow> bool" where
  "token_step ps inp post tok ps' \<longleftrightarrow>
     (case spec_token inp of (tk, txt, rest, n, nl) \<Rightarrow>
        tok = tk \<and> remaining (ps_buf ps') (ps_ptr ps') rest post \<and>
        ps_line ps' = ps_line ps + n \<and>
        ps_nexttoken ps' = (if nl then T_NEWLINE else T_EOF) \<and>
        length (ps_buf ps') = length (ps_buf ps) \<and>
        take (ps_ptr ps) (ps_buf ps') = take (ps_ptr ps) (ps_buf ps) \<and>
        (inp = [] \<longrightarrow> ps_buf ps' = ps_buf ps) \<and>
        (tk = T_TEXT \<longrightarrow> ps_ptr ps \<le> ps_text ps' \<and>
           ends_before (ps_buf ps') (ps_text ps') txt (ps_ptr ps') rest))"

lemma nt_skip_spec:
  assumes "remaining (ps_buf ps) x inp post" "ps_nexttoken ps = T_EOF" "ps_ptr ps \<le> x"
  shows "\<exists>tok ps'. nt_skip ps x = Some (tok, ps') \<and> token_step ps inp post tok ps'"
  using assms
proof (induction inp arbitrary: x)
  case Nil
  with remaining_Nil [OF Nil(1)] show ?case
    by (auto simp: nt_skip.simps [of ps x] token_step_def)
next
  case (Cons c r)
  note prems = Cons.prems and R = remaining_Cons [OF Cons.prems(1)]
  consider "c = NL" | "c = SP \<or> c = TAB \<or> c = CR" | "c = HASH" | "c \<notin> {NL, SP, TAB, CR, HASH}" by auto
  then show ?case
  proof cases
    case 1
    with R Cons.prems show ?thesis by (auto simp: nt_skip.simps [of ps x] token_step_def)
  next
    case 2
    have "nt_skip ps x = nt_skip ps (Suc x)" using 2 R by (auto simp: nt_skip.simps [of ps x])
    moreover have "token_step ps r post tok ps' \<Longrightarrow> token_step ps (c # r) post tok ps'" for tok ps'
      using 2 by (auto simp: token_step_def)
    ultimately show ?thesis using Cons.IH [of "Suc x"] R Cons.prems by fastforce
  next
    case 3
    obtain y where y: "skip_comment (ps_buf ps) x = Some y"
      "remaining (ps_buf ps) y (dropWhile (\<lambda>d. d \<noteq> NL) r) post"
      using skip_comment_spec [OF Cons.prems(1)] 3 by auto
    show ?thesis
    proof (cases "dropWhile (\<lambda>d. d \<noteq> NL) r")
      case Nil
      have at: "remaining (ps_buf ps) y [] post" using y(2) unfolding Nil .
      have "spec_token (c # r) = (T_EOF, [], [], 0, False)"
        using 3 Nil by (simp only: spec_token.simps) simp
      moreover have "nt_skip ps x = Some (T_EOF, ps\<lparr>ps_ptr := y\<rparr>)"
        using 3 R y(1) remaining_Nil [OF at] by (simp add: nt_skip.simps [of ps x])
      ultimately show ?thesis using at prems by (simp add: token_step_def)
    next
      case (Cons e q)
      then have "e = NL" using hd_dropWhile [of "\<lambda>d. d \<noteq> NL" r] by simp
      then have "char_at (ps_buf ps) y = Some NL" "remaining (ps_buf ps) (Suc y) q post"
        using y(2) Cons remaining_Cons [of "ps_buf ps" y e q post] by simp_all
      then have "nt_skip ps x = Some (T_NEWLINE, ps\<lparr>ps_ptr := Suc y\<rparr>)"
        using 3 R y(1) by (simp add: nt_skip.simps [of ps x])
      then show ?thesis
        using 3 Cons prems \<open>remaining (ps_buf ps) (Suc y) q post\<close> by (simp add: token_step_def)
    qed
  next
    case 4
    let ?p = "ps\<lparr>ps_text := x\<rparr>"
    have "copying (ps_buf ps) (ps_buf ?p) x x x [] (c # r) post"
      using Cons.prems(1) by (simp add: copying_def)
    with text_ok_all [of "ps_buf ps" x post "c # r"]
    obtain ps' where t: "nt_text ?p x x = Some (text_token (spec_text [] 0 (c # r)), ps')"
      and d: "token_done (ps_buf ps) ?p 0 (spec_text [] 0 (c # r)) x post ps'"
      unfolding text_ok_def by blast
    have sk: "nt_skip ps x = nt_text ?p x x" using 4 R by (auto simp: nt_skip.simps [of ps x])
    have pre: "take (ps_ptr ps) (ps_buf ps') = take (ps_ptr ps) (ps_buf ps)"
      if "take x (ps_buf ps') = take x (ps_buf ps)"
      using arg_cong [OF that, of "take (ps_ptr ps)"] Cons.prems(3) by (simp add: min_def)
    obtain tx rest n nl where sp: "spec_text [] 0 (c # r) = (tx, rest, n, nl)"
      by (metis prod_cases4)
    with 4 t d sk pre Cons.prems show ?thesis
      by (cases tx) (auto simp: token_step_def token_done_def)
  qed
qed

lemma spec_token_rest:
  "spec_token inp = (tok, txt, rest, n, nl) \<Longrightarrow>
     length rest \<le> length inp \<and> (tok \<noteq> T_EOF \<longrightarrow> length rest < length inp)"
proof (induction inp)
  case (Cons c r)
  show ?case
  proof (cases "c \<in> {NL, SP, TAB, CR, HASH}")
    case True
    with Cons length_dropWhile_le [of "\<lambda>d. d \<noteq> NL" r] show ?thesis
      by (auto split: if_splits list.splits simp del: dropWhile_eq_Nil_conv)
  next
    case False
    obtain txt' rest' n' nl' where sp: "spec_text [] 0 (c # r) = (txt', rest', n', nl')"
      by (metis prod_cases4)
    have "length rest' \<le> length r" if "txt' \<noteq> None \<or> nl'"
      using spec_text_step [OF sp] by (auto dest: spec_text_rest)
    with False Cons.prems sp spec_text_rest [OF sp] show ?thesis
      by (auto split: option.splits)
  qed
qed simp

text \<open>
  The contract of \<open>next_token\<close>.  A call with a token pending returns it; any other call on a
  NUL-terminated input returns a token, and it is the one of \<open>spec_token\<close>.
\<close>

lemma next_token_pending:
  "ps_nexttoken ps = t \<Longrightarrow> t \<noteq> T_EOF \<Longrightarrow> next_token ps = Some (t, ps\<lparr>ps_nexttoken := T_EOF\<rparr>)"
  by (simp add: next_token_def)

lemma next_token_step:
  assumes "remaining (ps_buf ps) (ps_ptr ps) inp post" "ps_nexttoken ps = T_EOF"
  shows "\<exists>tok ps'. next_token ps = Some (tok, ps') \<and> token_step ps inp post tok ps'"
  using nt_skip_spec [OF assms order_refl] assms(2) by (simp add: next_token_def)

text \<open>Loops over the tokens stop: this number falls with every token but \<open>T_EOF\<close>.\<close>

definition token_measure :: "parse_state \<Rightarrow> nat" where
  "token_measure ps =
     2 * (length (ps_buf ps) - ps_ptr ps) + (if ps_nexttoken ps = T_EOF then 0 else 1)"

definition lex_inv :: "parse_state \<Rightarrow> bool" where
  "lex_inv ps \<longleftrightarrow> (\<exists>inp post. remaining (ps_buf ps) (ps_ptr ps) inp post) \<and> ps_nexttoken ps \<noteq> T_TEXT"

lemma next_token_progress:
  assumes "lex_inv ps"
  shows "\<exists>tok ps'. next_token ps = Some (tok, ps') \<and> lex_inv ps' \<and>
           (tok \<noteq> T_EOF \<longrightarrow> token_measure ps' < token_measure ps)"
proof (cases "ps_nexttoken ps = T_EOF")
  case True
  from assms obtain inp post where R: "remaining (ps_buf ps) (ps_ptr ps) inp post"
    by (auto simp: lex_inv_def)
  from next_token_step [OF R True] obtain tok ps'
    where n: "next_token ps = Some (tok, ps')" and st: "token_step ps inp post tok ps'" by blast
  obtain tx rest k nl where sp: "spec_token inp = (tok, tx, rest, k, nl)"
    using st by (auto simp: token_step_def split: prod.splits)
  have R': "remaining (ps_buf ps') (ps_ptr ps') rest post" "length (ps_buf ps') = length (ps_buf ps)"
    "ps_nexttoken ps' = (if nl then T_NEWLINE else T_EOF)"
    using st sp by (auto simp: token_step_def)
  have "token_measure ps' < token_measure ps" if "tok \<noteq> T_EOF"
    using spec_token_rest [OF sp] that remaining_less [OF R R'(1,2)] R'(2,3)
      remaining_length [OF R] remaining_length [OF R'(1)] True
    by (auto simp: token_measure_def)
  with n R' show ?thesis by (auto simp: lex_inv_def split: if_splits)
next
  case False
  with assms show ?thesis
    by (auto simp: lex_inv_def token_measure_def next_token_pending)
qed

subsection \<open>Properties of the tokenizer\<close>

text \<open>
  The \<open>parse_state\<close> a parser starts with on the text \<open>inp\<close>: \<open>read_file\<close> puts a NUL behind it.
\<close>

definition start_state :: "nat \<Rightarrow> string \<Rightarrow> parse_state" where
  "start_state line inp =
     \<lparr>ps_buf = inp @ [NUL], ps_ptr = 0, ps_text = 0, ps_line = line, ps_nexttoken = T_EOF\<rparr>"

lemma remaining_start: "NUL \<notin> set inp \<Longrightarrow> remaining (inp @ [NUL]) 0 inp []"
  by (simp add: remaining_def)

lemma lex_inv_start: "NUL \<notin> set inp \<Longrightarrow> lex_inv (start_state line inp)"
  by (auto simp: lex_inv_def start_state_def intro: remaining_start)

text \<open>
  C1.  On every NUL-terminated input the in-place tokenizer returns (no access leaves the
  buffer, no loop runs on), and what it returns is the token, the text, the rest of the input,
  the line count and the pending line end of \<open>spec_token\<close>; nothing in front of the read
  position and nothing behind the token is changed.
\<close>

theorem next_token_refines:
  assumes "drop (ps_ptr ps) (ps_buf ps) = inp @ NUL # post" "NUL \<notin> set inp"
    and "ps_nexttoken ps = T_EOF" "spec_token inp = (tok, w, rest, n, nl)"
  shows "\<exists>ps'. next_token ps = Some (tok, ps') \<and>
     drop (ps_ptr ps') (ps_buf ps') = rest @ NUL # post \<and>
     take (ps_ptr ps) (ps_buf ps') = take (ps_ptr ps) (ps_buf ps) \<and>
     ps_line ps' = ps_line ps + n \<and> ps_nexttoken ps' = (if nl then T_NEWLINE else T_EOF) \<and>
     (tok = T_TEXT \<longrightarrow> cstr_at (ps_buf ps') (ps_text ps') = w)"
  using next_token_step [of ps inp post] assms
  by (auto simp: remaining_def token_step_def ends_before_def)

theorem next_token_refines_witness:
  "\<exists>ps'. next_token (start_state 0 (''on '' @ [DQ] @ ''a b'' @ [DQ, NL])) = Some (T_TEXT, ps') \<and>
     cstr_at (ps_buf ps') (ps_text ps') = ''on''"
  using next_token_refines [of "start_state 0 (''on '' @ [DQ] @ ''a b'' @ [DQ, NL])"
      "''on '' @ [DQ] @ ''a b'' @ [DQ, NL]" "[]" T_TEXT "''on''" "[DQ] @ ''a b'' @ [DQ, NL]" 0 False]
  by (auto simp: start_state_def spec_text.simps(2))

text \<open>A run of calls of \<open>next_token\<close>.\<close>

fun run_tokens :: "nat \<Rightarrow> parse_state \<Rightarrow> parse_state option" where
  "run_tokens 0 ps = Some ps"
| "run_tokens (Suc k) ps =
     (case next_token ps of None \<Rightarrow> None | Some (tok, ps') \<Rightarrow> run_tokens k ps')"

definition settled :: "parse_state \<Rightarrow> nat \<Rightarrow> string \<Rightarrow> bool" where
  "settled ps t w \<longleftrightarrow>
     (\<exists>inp post. remaining (ps_buf ps) (ps_ptr ps) inp post \<and> ends_before (ps_buf ps) t w (ps_ptr ps) inp)"

lemma settled_next:
  assumes "settled ps t w" "lex_inv ps" "next_token ps = Some (tok, ps')"
  shows "settled ps' t w"
proof (cases "ps_nexttoken ps = T_EOF")
  case False
  with assms(3) have "ps_buf ps' = ps_buf ps" "ps_ptr ps' = ps_ptr ps" by (auto simp: next_token_def)
  with assms(1) show ?thesis by (simp add: settled_def)
next
  case True
  from assms(1) obtain inp post where R: "remaining (ps_buf ps) (ps_ptr ps) inp post"
    and E: "ends_before (ps_buf ps) t w (ps_ptr ps) inp" by (auto simp: settled_def)
  from next_token_step [OF R True] assms(3) have st: "token_step ps inp post tok ps'" by auto
  obtain tx rest n nl where sp: "spec_token inp = (tok, tx, rest, n, nl)"
    using st by (auto simp: token_step_def split: prod.splits)
  have st': "remaining (ps_buf ps') (ps_ptr ps') rest post" "length (ps_buf ps') = length (ps_buf ps)"
    "take (ps_ptr ps) (ps_buf ps') = take (ps_ptr ps) (ps_buf ps)" "inp = [] \<Longrightarrow> ps_buf ps' = ps_buf ps"
    using st sp by (auto simp: token_step_def)
  note le = spec_token_rest [OF sp] remaining_less [OF R st'(1,2)] remaining_less [OF st'(1) R st'(2) [symmetric]]
  have ptr: "ps_ptr ps \<le> ps_ptr ps'" using le by linarith
  have "ends_before (ps_buf ps') t w (ps_ptr ps') rest"
  proof (cases "t + length w < ps_ptr ps")
    case True
    with cstr_at_take_cong [OF st'(3)] E st'(2) remaining_length [OF R] ptr show ?thesis
      by (auto simp: ends_before_def)
  next
    case False
    with E have "inp = []" "t + length w = ps_ptr ps" by (auto simp: ends_before_def)
    with E st'(4) le ptr show ?thesis by (auto simp: ends_before_def)
  qed
  with st'(1) show ?thesis by (auto simp: settled_def)
qed

lemma settled_run:
  "run_tokens k ps = Some ps' \<Longrightarrow> settled ps t w \<Longrightarrow> lex_inv ps \<Longrightarrow> settled ps' t w"
proof (induction k arbitrary: ps)
  case (Suc k)
  then show ?case using next_token_progress [of ps] settled_next [of ps t w]
    by (auto split: option.splits)
qed simp

text \<open>
  The text of a token stays where it is: however many tokens are read after it, the C
  string at the offset the parser keeps in its argument array is the one the token had when it
  was read.
\<close>

lemma token_text_stable:
  assumes "lex_inv ps" "next_token ps = Some (T_TEXT, ps')" "run_tokens k ps' = Some ps''"
  shows "cstr_at (ps_buf ps'') (ps_text ps') = cstr_at (ps_buf ps') (ps_text ps')"
proof -
  from assms(1) obtain inp post where R: "remaining (ps_buf ps) (ps_ptr ps) inp post"
    by (auto simp: lex_inv_def)
  have none: "ps_nexttoken ps = T_EOF"
    using assms(1,2) by (cases "ps_nexttoken ps") (auto simp: next_token_def lex_inv_def)
  from next_token_step [OF R none] assms(2) have "token_step ps inp post T_TEXT ps'" by auto
  then have "settled ps' (ps_text ps') (cstr_at (ps_buf ps') (ps_text ps'))"
    by (auto simp: settled_def token_step_def ends_before_def split: prod.splits)
  moreover have "lex_inv ps'" using next_token_progress [OF assms(1)] assms(2) by auto
  ultimately show ?thesis
    using settled_run [OF assms(3)] by (auto simp: settled_def ends_before_def)
qed

lemma token_text_stable_witness:
  "\<exists>ps' ps''. next_token (start_state 0 ''a b '') = Some (T_TEXT, ps') \<and>
     run_tokens 2 ps' = Some ps'' \<and> cstr_at (ps_buf ps'') (ps_text ps') = ''a''"
proof -
  let ?ps1 = "\<lparr>ps_buf = ''a'' @ [NUL] @ ''b '' @ [NUL], ps_ptr = 2, ps_text = 0, ps_line = 0,
    ps_nexttoken = T_EOF\<rparr>"
  let ?ps2 = "\<lparr>ps_buf = ''a'' @ [NUL] @ ''b'' @ [NUL, NUL], ps_ptr = 4, ps_text = 2, ps_line = 0,
    ps_nexttoken = T_EOF\<rparr>"
  have inv: "lex_inv (start_state 0 ''a b '')" by (rule lex_inv_start) simp
  have one: "next_token (start_state 0 ''a b '') = Some (T_TEXT, ?ps1)" by code_simp
  have two: "run_tokens 2 ?ps1 = Some ?ps2" by code_simp
  have "cstr_at (ps_buf ?ps1) (ps_text ?ps1) = ''a''" by (simp add: cstr_at_def)
  with token_text_stable [OF inv one two] have "cstr_at (ps_buf ?ps2) (ps_text ?ps1) = ''a''"
    by (rule trans)
  with one two show ?thesis by (intro exI [of _ ?ps1] exI [of _ ?ps2] conjI)
qed

text \<open>
  The letter escapes insert the character they name and then the letter itself: a token
  written \<open>\n\<close> reads as a line feed followed by \<open>n\<close>, and likewise for \<open>\r\<close> and \<open>\t\<close>.
\<close>

lemma letter_escape_keeps_letter:
  assumes "(e, c) \<in> {(CHR ''n'', NL), (CHR ''r'', CR), (CHR ''t'', TAB)}"
    and "drop (ps_ptr ps) (ps_buf ps) = BSL # e # SP # inp @ NUL # post" "NUL \<notin> set inp"
    and "ps_nexttoken ps = T_EOF"
  shows "\<exists>ps'. next_token ps = Some (T_TEXT, ps') \<and> cstr_at (ps_buf ps') (ps_text ps') = [c, e] \<and>
     drop (ps_ptr ps') (ps_buf ps') = inp @ NUL # post"
proof -
  have sp: "spec_token (BSL # e # SP # inp) = (T_TEXT, [c, e], inp, 0, False)"
    using assms(1) by (auto simp: spec_text_escapes spec_text_chars)
  have R: "remaining (ps_buf ps) (ps_ptr ps) (BSL # e # SP # inp) post"
    using assms by (auto simp: remaining_def)
  from next_token_step [OF R assms(4)] sp show ?thesis
    by (auto simp: token_step_def ends_before_def remaining_def)
qed

lemma letter_escape_keeps_letter_witness:
  "\<exists>ps'. next_token (start_state 0 (BSL # ''n b'')) = Some (T_TEXT, ps') \<and>
     cstr_at (ps_buf ps') (ps_text ps') = [NL, CHR ''n'']"
  using letter_escape_keeps_letter [of "CHR ''n''" NL "start_state 0 (BSL # ''n b'')" "''b''" "[]"]
  by (auto simp: start_state_def)

text \<open>
  A backslash in front of a carriage return and a line feed does not continue the line: the
  token ends there and the line end is delivered as the next token.  A backslash in front of a
  bare line feed does continue it.
\<close>

lemma crlf_does_not_continue:
  assumes "drop (ps_ptr ps) (ps_buf ps) = CHR ''a'' # BSL # eol @ CHR ''b'' # SP # inp @ NUL # post"
    and "NUL \<notin> set inp" "ps_nexttoken ps = T_EOF" "eol = [CR, NL] \<or> eol = [NL]"
  shows "\<exists>ps'. next_token ps = Some (T_TEXT, ps') \<and> ps_line ps' = Suc (ps_line ps) \<and>
     (eol = [CR, NL] \<longrightarrow> cstr_at (ps_buf ps') (ps_text ps') = ''a'' \<and> ps_nexttoken ps' = T_NEWLINE) \<and>
     (eol = [NL] \<longrightarrow> cstr_at (ps_buf ps') (ps_text ps') = ''ab'' \<and> ps_nexttoken ps' = T_EOF)"
proof -
  have R: "remaining (ps_buf ps) (ps_ptr ps) (CHR ''a'' # BSL # eol @ CHR ''b'' # SP # inp) post"
    using assms by (auto simp: remaining_def)
  have sp: "spec_token (CHR ''a'' # BSL # eol @ CHR ''b'' # SP # inp) =
      (if eol = [NL] then (T_TEXT, ''ab'', inp, 1, False)
       else (T_TEXT, ''a'', CHR ''b'' # SP # inp, 1, True))"
    using assms(4) by (auto simp: spec_text_escapes spec_text_chars)
  from next_token_step [OF R assms(3)] sp assms(4) show ?thesis
    by (auto simp: token_step_def ends_before_def)
qed

end
