(* ===== verification/Line_Parser.thy ===== *)
theory Line_Parser
  imports Lexer
begin

text \<open>
  The loop around \<open>next_token\<close> that both configuration parsers run: \<open>parse_config\<close> of
  \<open>init_parser.c\<close> and \<open>parse_config\<close> of \<open>ueventd_parser.c\<close>.  It collects the tokens of a line in
  a fixed array of argument pointers, and at the end of the line hands the array and the number
  of arguments to a handler.  The array is not cleared between lines, so its entries beyond the
  number of arguments are the ones of earlier lines, or \<open>None\<close> where nothing was stored yet.

  The locale \<open>line_parser\<close> is the interface between a parser and the tokenizer: a loop with
  this unfolding computes a fold of its handler over \<open>spec_lines\<close>, the lines as a function of
  the input text, and it always returns.
\<close>

subsection \<open>The lines of an input, as a function\<close>

type_synonym arg_array = "string option list"
type_synonym arg_line = "nat \<times> nat \<times> arg_array"

definition store_arg :: "nat \<Rightarrow> string \<Rightarrow> arg_array \<times> nat \<Rightarrow> arg_array \<times> nat" where
  "store_arg maxargs t = (\<lambda>(args, nargs).
     if nargs < maxargs then (args[nargs := Some t], Suc nargs) else (args, nargs))"

text \<open>
  \<open>spec_lines bump maxargs line a pending inp\<close>: the calls of the handler, as (line number,
  number of arguments, argument array).  \<open>bump\<close> is what the loop does to the line number at the
  end of a line.
\<close>

function spec_lines ::
  "(nat \<Rightarrow> nat) \<Rightarrow> nat \<Rightarrow> nat \<Rightarrow> arg_array \<times> nat \<Rightarrow> bool \<Rightarrow> string \<Rightarrow> arg_line list" where
  "spec_lines bump maxargs line a True inp =
     (if snd a \<noteq> 0 then [(bump line, snd a, fst a)] else []) @
     spec_lines bump maxargs (bump line) (fst a, 0) False inp"
| "spec_lines bump maxargs line a False inp =
     (case spec_token inp of (tok, t, rest, n, nl) \<Rightarrow>
        (case tok of
           T_EOF \<Rightarrow> []
         | T_NEWLINE \<Rightarrow> spec_lines bump maxargs (line + n) a True rest
         | T_TEXT \<Rightarrow> spec_lines bump maxargs (line + n) (store_arg maxargs t a) nl rest))"
  by pat_completeness auto
termination
  by (relation "measure (\<lambda>(bump, maxargs, line, a, pending, inp).
        2 * length inp + (if pending then 1 else 0))")
     (auto dest!: spec_token_rest [OF sym])

fun fold_lines :: "(nat \<Rightarrow> nat \<Rightarrow> arg_array \<Rightarrow> 'h \<Rightarrow> 'h option) \<Rightarrow> arg_line list \<Rightarrow> 'h \<Rightarrow> 'h option" where
  "fold_lines f [] h = Some h"
| "fold_lines f ((line, nargs, args) # ls) h =
     (case f line nargs args h of None \<Rightarrow> None | Some h' \<Rightarrow> fold_lines f ls h')"

lemma fold_lines_append:
  "fold_lines f (xs @ ys) h = Option.bind (fold_lines f xs h) (fold_lines f ys)"
  by (induction xs arbitrary: h) (auto split: option.splits)

lemma spec_token_newline:
  "spec_token inp = (tok, tx, rest, n, nl) \<Longrightarrow> tok = T_NEWLINE \<Longrightarrow> tx = [] \<and> n = 0 \<and> \<not> nl"
  by (induction inp) (auto split: if_splits list.splits option.splits prod.splits)

subsection \<open>The interface of a line-oriented parser\<close>

locale line_parser =
  fixes handle :: "nat \<Rightarrow> nat \<Rightarrow> arg_array \<Rightarrow> 'h \<Rightarrow> 'h option"
    and loop :: "parse_state \<Rightarrow> arg_array \<Rightarrow> nat \<Rightarrow> 'h \<Rightarrow> 'h option"
    and bump :: "nat \<Rightarrow> nat"
    and maxargs :: nat
  assumes loop_unfold:
    "loop ps args nargs h =
       (case next_token ps of
          None \<Rightarrow> None
        | Some (tok, ps1) \<Rightarrow>
          (case tok of
             T_EOF \<Rightarrow> Some h
           | T_NEWLINE \<Rightarrow>
               (let ps2 = ps1\<lparr>ps_line := bump (ps_line ps1)\<rparr> in
                if nargs \<noteq> 0 then
                  (case handle (ps_line ps2) nargs args h of
                     None \<Rightarrow> None
                   | Some h' \<Rightarrow> loop ps2 args 0 h')
                else loop ps2 args 0 h)
           | T_TEXT \<Rightarrow>
               (let a = store_arg maxargs (cstr_at (ps_buf ps1) (ps_text ps1)) (args, nargs)
                in loop ps1 (fst a) (snd a) h)))"
begin

lemma loop_pending:
  assumes "ps_nexttoken ps = T_NEWLINE"
  shows "loop ps args nargs h =
     Option.bind (fold_lines handle
        (if nargs \<noteq> 0 then [(bump (ps_line ps), nargs, args)] else []) h)
       (loop (ps\<lparr>ps_nexttoken := T_EOF, ps_line := bump (ps_line ps)\<rparr>) args 0)"
proof -
  have "next_token ps = Some (T_NEWLINE, ps\<lparr>ps_nexttoken := T_EOF\<rparr>)"
    using next_token_pending [of ps T_NEWLINE] assms by simp
  then show ?thesis by (subst loop_unfold) (auto simp: Let_def split: option.splits)
qed

lemma loop_spec:
  assumes "remaining (ps_buf ps) (ps_ptr ps) inp post" "ps_nexttoken ps \<noteq> T_TEXT"
  shows "loop ps args nargs h =
     fold_lines handle
       (spec_lines bump maxargs (ps_line ps) (args, nargs) (ps_nexttoken ps = T_NEWLINE) inp) h"
  using assms
proof (induction "2 * length inp + (if ps_nexttoken ps = T_NEWLINE then 1 else 0)"
    arbitrary: inp ps args nargs h rule: less_induct)
  case less
  show ?case
  proof (cases "ps_nexttoken ps = T_NEWLINE")
    case True
    let ?p = "ps\<lparr>ps_nexttoken := T_EOF, ps_line := bump (ps_line ps)\<rparr>"
    have "loop ?p args 0 h' = fold_lines handle
        (spec_lines bump maxargs (bump (ps_line ps)) (args, 0) False inp) h'" for h'
      using less.hyps [of inp ?p args 0 h'] less.prems True by simp
    then show ?thesis
      by (simp add: loop_pending [OF True] True fold_lines_append bind_eq_Some_conv
               split: Option.bind_split)
  next
    case False
    with less.prems(2) have none: "ps_nexttoken ps = T_EOF" by (cases "ps_nexttoken ps") auto
    from next_token_step [OF less.prems(1) none] obtain tok ps1
      where nt: "next_token ps = Some (tok, ps1)" and st: "token_step ps inp post tok ps1" by blast
    obtain tx rest n nl where sp: "spec_token inp = (tok, tx, rest, n, nl)"
      using st by (auto simp: token_step_def split: prod.splits)
    have st': "remaining (ps_buf ps1) (ps_ptr ps1) rest post" "ps_line ps1 = ps_line ps + n"
      "ps_nexttoken ps1 = (if nl then T_NEWLINE else T_EOF)"
      "tok = T_TEXT \<Longrightarrow> cstr_at (ps_buf ps1) (ps_text ps1) = tx"
      using st sp by (auto simp: token_step_def ends_before_def)
    note len = spec_token_rest [OF sp]
    show ?thesis
    proof (cases tok)
      case T_EOF
      with nt sp False show ?thesis by (subst loop_unfold) simp
    next
      case T_TEXT
      obtain args' nargs' where a: "store_arg maxargs tx (args, nargs) = (args', nargs')" by force
      have "loop ps args nargs h = loop ps1 args' nargs' h"
        using nt T_TEXT st'(4) a by (subst loop_unfold) (simp add: Let_def)
      with less.hyps [of rest ps1 args' nargs' h] T_TEXT len st' sp a False show ?thesis by auto
    next
      case T_NEWLINE
      let ?p = "ps1\<lparr>ps_line := bump (ps_line ps1)\<rparr>"
      have nl: "\<not> nl" using spec_token_newline [OF sp] T_NEWLINE by simp
      have IH: "loop ?p args 0 h' = fold_lines handle
          (spec_lines bump maxargs (bump (ps_line ps1)) (args, 0) False rest) h'" for h'
        using less.hyps [of rest ?p args 0 h'] T_NEWLINE len st' nl by simp
      have "loop ps args nargs h = Option.bind (fold_lines handle
          (if nargs \<noteq> 0 then [(bump (ps_line ps1), nargs, args)] else []) h) (loop ?p args 0)"
        using nt T_NEWLINE by (subst loop_unfold) (auto simp: Let_def split: option.splits)
      with IH T_NEWLINE sp st'(2) False show ?thesis
        by (simp add: fold_lines_append bind_eq_Some_conv split: Option.bind_split)
    qed
  qed
qed

text \<open>A handler that is always defined makes the whole loop defined.\<close>

lemma loop_returns:
  assumes "lex_inv ps" "\<And>line n a h. handle line n a h \<noteq> None"
  shows "\<exists>h'. loop ps args nargs h = Some h'"
proof -
  have "fold_lines handle ls h \<noteq> None" for ls h
    by (induction ls arbitrary: h) (auto split: option.splits simp: assms(2))
  moreover from assms(1) obtain inp post where "remaining (ps_buf ps) (ps_ptr ps) inp post"
    "ps_nexttoken ps \<noteq> T_TEXT" by (auto simp: lex_inv_def)
  ultimately show ?thesis by (simp add: loop_spec)
qed

end

subsection \<open>Printing a configuration and reading it back\<close>

text \<open>
  The canonical spelling of a line: every word in double quotes, one blank after it.  A word
  may hold anything but a double quote and a NUL, blanks, hashes, line ends and backslashes
  included.
\<close>

definition print_word :: "string \<Rightarrow> string" where
  "print_word w = DQ # w @ [DQ, SP]"

definition print_line :: "string list \<Rightarrow> string" where
  "print_line ws = concat (map print_word ws) @ [NL]"

lemma spec_token_word:
  "DQ \<notin> set w \<Longrightarrow> spec_token (print_word w @ r) = (T_TEXT, w, r, 0, False)"
  by (simp add: print_word_def spec_text_chars(3) [OF split_first_append] spec_text_chars(1))

declare spec_lines.simps(2) [simp del]

lemma spec_lines_newline:
  "spec_lines bump maxargs line a False (NL # r) = spec_lines bump maxargs line a True r"
  by (subst spec_lines.simps(2)) simp

lemma spec_lines_words:
  assumes "\<forall>w \<in> set ws. DQ \<notin> set w"
  shows "spec_lines bump maxargs line a False (concat (map print_word ws) @ r) =
    spec_lines bump maxargs line (fold (store_arg maxargs) ws a) False r"
  using assms by (induction ws arbitrary: a) (simp_all add: spec_token_word spec_lines.simps(2) [of bump maxargs line _ "print_word _ @ _"])

lemma store_arg_all:
  assumes "length ws + k \<le> length args"
  shows "fold (store_arg (length args)) ws (args, k) =
     (take k args @ map Some ws @ drop (k + length ws) args, k + length ws)"
  using assms
proof (induction ws arbitrary: args k)
  case (Cons w ws)
  have "fold (store_arg (length (args[k := Some w]))) ws (args[k := Some w], Suc k) =
     (take (Suc k) (args[k := Some w]) @ map Some ws @ drop (Suc k + length ws) (args[k := Some w]),
      Suc k + length ws)"
    by (rule Cons.IH) (use Cons.prems in simp)
  moreover have "take (Suc k) (args[k := Some w]) = take k args @ [Some w]"
    using Cons.prems by (simp add: take_Suc_conv_app_nth)
  moreover have "store_arg (length args) w (args, k) = (args[k := Some w], Suc k)"
    using Cons.prems by (simp add: store_arg_def)
  ultimately show ?case using Cons.prems by simp
qed simp

lemma spec_lines_print_line:
  assumes "\<forall>w \<in> set ws. DQ \<notin> set w" "ws \<noteq> []" "length ws \<le> length args"
  shows "spec_lines bump (length args) line (args, 0) False (print_line ws @ r) =
    (bump line, length ws, map Some ws @ drop (length ws) args) #
    spec_lines bump (length args) (bump line) (map Some ws @ drop (length ws) args, 0) False r"
  using assms spec_lines_words [OF assms(1), of bump "length args" line "(args, 0)" "NL # r"]
    store_arg_all [of ws 0 args]
  by (simp add: print_line_def spec_lines_newline)

text \<open>The argument lists the handler is called with, for a configuration printed line by line.\<close>

lemma spec_lines_print:
  assumes "\<forall>ws \<in> set ls. ws \<noteq> [] \<and> length ws \<le> length args \<and> (\<forall>w \<in> set ws. DQ \<notin> set w)"
  shows "map (\<lambda>(line, n, a). take n a)
      (spec_lines bump (length args) line (args, 0) False (concat (map print_line ls))) =
    map (map Some) ls"
  using assms
proof (induction ls arbitrary: args line)
  case (Cons ws ls)
  let ?args = "map Some ws @ drop (length ws) args"
  have "length ?args = length args" using Cons.prems by simp
  with Cons.IH [of ?args "bump line"] spec_lines_print_line [of ws args bump line] Cons.prems
  show ?case by simp
qed (simp add: spec_lines.simps(2))

end
