(* ===== verification/Store.thy ===== *)
theory Store
  imports Prelude
begin

text \<open>
  The contract of a key-value store with writes that may be refused.  Two components provide it:
  the environment table \<open>ENV\<close> of \<open>init.c\<close> and the property area of \<open>property_service.c\<close>.
\<close>

text \<open>
  \<open>put k v s\<close> is \<open>None\<close> when the store refuses the write; \<open>key\<close> restricts the keys for which the
  store keeps its promise, \<open>inv\<close> is its invariant.
\<close>

fun put_all :: "('k \<Rightarrow> 'v \<Rightarrow> 's \<Rightarrow> 's option) \<Rightarrow> ('k \<times> 'v) list \<Rightarrow> 's \<Rightarrow> 's option" where
  "put_all put [] s = Some s"
| "put_all put ((k, v) # kvs) s = Option.bind (put k v s) (put_all put kvs)"

locale kv_store =
  fixes put :: "'k \<Rightarrow> 'v \<Rightarrow> 's \<Rightarrow> 's option"
    and get :: "'k \<Rightarrow> 's \<Rightarrow> 'v option"
    and inv :: "'s \<Rightarrow> bool"
    and key :: "'k \<Rightarrow> bool"
    and vals :: "'v \<Rightarrow> bool"
  assumes put_inv: "inv s \<Longrightarrow> key k \<Longrightarrow> vals v \<Longrightarrow> put k v s = Some s' \<Longrightarrow> inv s'"
    and get_put_same: "inv s \<Longrightarrow> key k \<Longrightarrow> vals v \<Longrightarrow> put k v s = Some s' \<Longrightarrow> get k s' = Some v"
    and get_put_other: "inv s \<Longrightarrow> key k \<Longrightarrow> vals v \<Longrightarrow> put k v s = Some s' \<Longrightarrow>
      key k' \<Longrightarrow> k' \<noteq> k \<Longrightarrow> get k' s' = get k' s"
begin

lemma put_all_inv:
  "inv s \<Longrightarrow> \<forall>(k, v) \<in> set kvs. key k \<and> vals v \<Longrightarrow> put_all put kvs s = Some s' \<Longrightarrow> inv s'"
  by (induction kvs arbitrary: s) (auto simp: bind_eq_Some_conv, blast intro: put_inv)

text \<open>A sequence of accepted writes acts as a finite map: the last write to a key wins.\<close>

lemma get_put_all:
  assumes "inv s" "\<forall>(k, v) \<in> set kvs. key k \<and> vals v" "put_all put kvs s = Some s'" "key k"
  shows "get k s' = (case map_of (rev kvs) k of Some v \<Rightarrow> Some v | None \<Rightarrow> get k s)"
  using assms
proof (induction kvs arbitrary: s)
  case (Cons kv kvs)
  obtain k1 v1 where kv: "kv = (k1, v1)" by force
  from Cons.prems kv obtain s1 where s1: "put k1 v1 s = Some s1" "put_all put kvs s1 = Some s'"
    by (auto simp: bind_eq_Some_conv)
  have k1: "key k1" "vals v1" using Cons.prems(2) kv by auto
  have i1: "inv s1" by (rule put_inv [OF Cons.prems(1) k1 s1(1)])
  have IH: "get k s' = (case map_of (rev kvs) k of Some v \<Rightarrow> Some v | None \<Rightarrow> get k s1)"
    by (rule Cons.IH [OF i1 _ s1(2) Cons.prems(4)]) (use Cons.prems(2) in auto)
  have "get k s1 = (if k = k1 then Some v1 else get k s)"
    using get_put_same [OF Cons.prems(1) k1 s1(1)] get_put_other [OF Cons.prems(1) k1 s1(1) Cons.prems(4)]
    by simp
  with IH kv show ?case by (auto simp: map_add_Some_iff split: option.splits)
qed simp

end

end
