(* ===== verification/Environment.thy ===== *)
theory Environment
  imports Util Line_Parser Store
begin

text \<open>
  The environment that init hands to the processes it starts: the table \<open>ENV\<close> of \<open>init.c\<close> with
  \<open>add_environment\<close> and \<open>publish_socket\<close>, and \<open>init_export_rc_file\<close> of \<open>init_parser.c\<close>, which
  fills it from a file.
\<close>

subsection \<open>The table\<close>

definition add_environment :: "string \<Rightarrow> string \<Rightarrow> init_st \<Rightarrow> int \<times> init_st" where
  "add_environment key val st =
     (let check = key @ ''='' in
      case find_index (\<lambda>e. case e of None \<Rightarrow> True | Some s \<Rightarrow> has_prefix check s) (take 31 (ENV st)) of
        Some n \<Rightarrow> (0, st\<lparr>ENV := (ENV st)[n := Some (key @ ''='' @ val)]\<rparr>)
      | None \<Rightarrow> (1, st))"

definition publish_socket :: "platform \<Rightarrow> string \<Rightarrow> int \<Rightarrow> init_st \<Rightarrow> init_st" where
  "publish_socket P name fd st =
     (let prefix = ANDROID_SOCKET_ENV_PREFIX P;
          key = prefix @ clip (64 - (length prefix + 1)) name;
          val = clip 64 (show_int fd)
      in perform P (Sys_fcntl fd ''F_SETFD 0'') (snd (add_environment key val st)))"

text \<open>What \<open>execve\<close> gets: the entries before the first null pointer.\<close>

definition env_list :: "init_st \<Rightarrow> string list" where
  "env_list st = map the (takeWhile (\<lambda>e. e \<noteq> None) (ENV st))"

subsection \<open>Reading exports from a file\<close>

datatype export_rc_state_t = ENV_NOTREADY | ENV_NAME | ENV_VALUE | ENV_WAITFORNEXTLINE

text \<open>The body of the switch for one token: the state, the remembered name, and init's state.\<close>

fun export_token :: "token \<Rightarrow> string \<Rightarrow> export_rc_state_t \<times> string \<times> init_st \<Rightarrow>
    export_rc_state_t \<times> string \<times> init_st" where
  "export_token T_EOF text (env_state, env, st) = (env_state, env, st)"
| "export_token T_NEWLINE text (env_state, env, st) = (ENV_NOTREADY, env, st)"
| "export_token T_TEXT text (env_state, env, st) =
     (case env_state of
        ENV_NOTREADY \<Rightarrow> ((if text = ''export'' then ENV_NAME else ENV_WAITFORNEXTLINE), env, st)
      | ENV_NAME \<Rightarrow> (ENV_VALUE, text, st)
      | ENV_VALUE \<Rightarrow> (ENV_WAITFORNEXTLINE, env, snd (add_environment env text st))
      | ENV_WAITFORNEXTLINE \<Rightarrow> (ENV_WAITFORNEXTLINE, env, st))"

partial_function (option) export_loop ::
  "parse_state \<Rightarrow> export_rc_state_t \<times> string \<times> init_st \<Rightarrow> init_st option" where
  "export_loop ps x =
     (case next_token ps of
        None \<Rightarrow> None
      | Some (tok, ps1) \<Rightarrow>
          if tok = T_EOF then Some (snd (snd x))
          else export_loop ps1 (export_token tok (cstr_at (ps_buf ps1) (ps_text ps1)) x))"

definition file_state :: "char list \<Rightarrow> parse_state" where
  "file_state buf = \<lparr>ps_buf = buf, ps_ptr = 0, ps_text = 0, ps_line = 0, ps_nexttoken = T_EOF\<rparr>"

definition init_export_rc_file :: "platform \<Rightarrow> string \<Rightarrow> init_st \<Rightarrow> (int \<times> init_st) option" where
  "init_export_rc_file P fn st =
     (case read_file P fn st of
        (None, st) \<Rightarrow> Some (- 1, st)
      | (Some data, st) \<Rightarrow>
          map_option (Pair 0) (export_loop (file_state data) (ENV_NOTREADY, [], st)))"

subsection \<open>The table is a map from names to values\<close>

text \<open>
  The invariant: 32 entries, the last one always null, no gap, and every entry before the end of
  the form name, equals sign, value, with different names.
\<close>

definition entry_key :: "string \<Rightarrow> string" where
  "entry_key e = takeWhile (\<lambda>c. c \<noteq> CHR ''='') e"

definition env_ok :: "init_st \<Rightarrow> bool" where
  "env_ok st \<longleftrightarrow> (\<exists>es k. ENV st = map Some es @ replicate k None \<and> length es + k = 32 \<and> 0 < k \<and>
     (\<forall>e \<in> set es. CHR ''='' \<in> set e) \<and> distinct (map entry_key es))"

definition env_get :: "string \<Rightarrow> init_st \<Rightarrow> string option" where
  "env_get key st =
     map_option (\<lambda>e. drop (length key + 1) e) (find (has_prefix (key @ ''='')) (env_list st))"

lemma env_list_eq: "ENV st = map Some es @ replicate k None \<Longrightarrow> 0 < k \<Longrightarrow> env_list st = es"
  by (cases k) (simp_all add: env_list_def takeWhile_stop del: not_None_eq)

lemma entry_key_iff:
  assumes "CHR ''='' \<notin> set key" "CHR ''='' \<in> set e"
  shows "has_prefix (key @ ''='') e \<longleftrightarrow> entry_key e = key"
proof
  assume "has_prefix (key @ ''='') e"
  then obtain r where "e = key @ ''='' @ r" by (auto simp: has_prefix_iff)
  then show "entry_key e = key" using assms(1) by (auto simp: entry_key_def intro!: takeWhile_stop)
next
  assume k: "entry_key e = key"
  obtain a r where e: "e = a @ CHR ''='' # r" "CHR ''='' \<notin> set a"
    using assms(2) by (meson split_list_first)
  then have "entry_key e = a" by (auto simp: entry_key_def intro!: takeWhile_stop)
  with k e show "has_prefix (key @ ''='') e" by (simp add: has_prefix_iff)
qed

lemma entry_key_entry [simp]: "CHR ''='' \<notin> set key \<Longrightarrow> entry_key (key @ CHR ''='' # v) = key"
  by (auto simp: entry_key_def intro!: takeWhile_stop)

lemma find_index_append_None:
  "\<forall>x \<in> set xs. \<not> p x \<Longrightarrow> p y \<Longrightarrow> find_index p (xs @ y # ys) = Some (length xs)"
  by (induction xs) auto

lemma find_index_map: "find_index p (map f xs) = find_index (\<lambda>x. p (f x)) xs"
  by (induction xs) auto

lemma find_index_append_Some: "find_index p xs = Some i \<Longrightarrow> find_index p (xs @ ys) = Some i"
  by (induction xs arbitrary: i) (auto split: if_splits)

text \<open>Which of the 31 usable entries a write takes: the one of the name, or the first free one.\<close>

lemma env_slot:
  assumes "ENV st = map Some es @ replicate k None" "length es + k = 32" "0 < k"
  shows "find_index (\<lambda>e. case e of None \<Rightarrow> True | Some s \<Rightarrow> has_prefix check s) (take 31 (ENV st)) =
    (case find_index (has_prefix check) es of
       Some i \<Rightarrow> Some i
     | None \<Rightarrow> if k = 1 then None else Some (length es))"
proof -
  let ?p = "\<lambda>e. case e of None \<Rightarrow> True | Some s \<Rightarrow> has_prefix check s"
  have t: "take 31 (ENV st) = map Some es @ replicate (k - 1) None"
  proof -
    have "31 - length es = k - 1" "k - 1 \<le> k" "length es \<le> 31" using assms(2,3) by auto
    then show ?thesis by (simp add: assms(1) min_def)
  qed
  show ?thesis
  proof (cases "find_index (has_prefix check) es")
    case None
    then have n: "\<forall>x \<in> set (map Some es). \<not> ?p x" by (simp add: find_index_None)
    show ?thesis
    proof (cases "k = 1")
      case True
      then show ?thesis using None t by (simp add: find_index_map)
    next
      case False
      then obtain j where "k - 1 = Suc j" using assms(3) by (cases "k - 1") auto
      with None t False show ?thesis using find_index_append_None [OF n, of None] by simp
    qed
  next
    case (Some i)
    then have "find_index ?p (map Some es) = Some i" by (simp add: find_index_map)
    with Some show ?thesis unfolding t by (simp add: find_index_append_Some)
  qed
qed

text \<open>The two ways a write succeeds.\<close>

lemma add_environment_cases:
  assumes "add_environment key val st = (0, st')"
    and "ENV st = map Some es @ replicate k None" "length es + k = 32" "0 < k"
  obtains (update) i where "find_index (has_prefix (key @ ''='')) es = Some i"
      "st' = st\<lparr>ENV := map Some (es[i := key @ ''='' @ val]) @ replicate k None\<rparr>"
    | (fresh) "find_index (has_prefix (key @ ''='')) es = None" "1 < k"
      "st' = st\<lparr>ENV := map Some (es @ [key @ ''='' @ val]) @ replicate (k - 1) None\<rparr>"
proof (cases "find_index (has_prefix (key @ ''='')) es")
  case None
  then have k: "1 < k" and "st' = st\<lparr>ENV := (ENV st)[length es := Some (key @ ''='' @ val)]\<rparr>"
    using assms env_slot [OF assms(2-4), of "key @ ''=''"] by (auto simp: add_environment_def split: if_splits)
  moreover have "(map Some es @ replicate k None)[length es := Some (key @ ''='' @ val)] =
      map Some (es @ [key @ ''='' @ val]) @ replicate (k - 1) None"
    using k by (cases k) (simp_all add: list_update_append)
  ultimately show thesis using fresh None assms(2) by simp
next
  case (Some i)
  then have i: "i < length es" by (auto dest: find_index_Some)
  have "st' = st\<lparr>ENV := (ENV st)[i := Some (key @ ''='' @ val)]\<rparr>"
    using Some assms(1) env_slot [OF assms(2-4), of "key @ ''=''"] by (simp add: add_environment_def)
  then show thesis using update Some assms(2) i by (simp add: list_update_append map_update)
qed

definition env_put :: "string \<Rightarrow> string \<Rightarrow> init_st \<Rightarrow> init_st option" where
  "env_put key val st = (case add_environment key val st of (r, st') \<Rightarrow> if r = 0 then Some st' else None)"

definition env_name :: "string \<Rightarrow> bool" where
  "env_name key \<longleftrightarrow> CHR ''='' \<notin> set key"

lemma env_putD: "env_put key val st = Some st' \<Longrightarrow> add_environment key val st = (0, st')"
  by (auto simp: env_put_def split: prod.splits if_splits)

lemma env_get_entries:
  "ENV st = map Some es @ replicate k None \<Longrightarrow> 0 < k \<Longrightarrow>
   env_get key st = map_option (\<lambda>e. drop (length key + 1) e) (find (has_prefix (key @ ''='')) es)"
  by (simp add: env_get_def env_list_eq)

lemma find_prefix_key:
  assumes "env_name key" "\<forall>e \<in> set es. CHR ''='' \<in> set e"
  shows "find (has_prefix (key @ ''='')) es = find (\<lambda>e. entry_key e = key) es"
  using assms by (induction es) (auto simp: entry_key_iff env_name_def)

lemma find_index_prefix_key:
  assumes "env_name key" "\<forall>e \<in> set es. CHR ''='' \<in> set e"
  shows "find_index (has_prefix (key @ ''='')) es = find_index (\<lambda>e. entry_key e = key) es"
  using assms by (induction es) (auto simp: entry_key_iff env_name_def)

lemma find_update_key:
  assumes "i < length es" "g (es ! i) = g v" "distinct (map g es)"
  shows "find (\<lambda>e. g e = k) (es[i := v]) = (if k = g v then Some v else find (\<lambda>e. g e = k) es)"
  using assms
proof (induction es arbitrary: i)
  case (Cons e es)
  show ?case
  proof (cases i)
    case 0
    then show ?thesis using Cons.prems by auto
  next
    case (Suc j)
    then have "find (\<lambda>e. g e = k) (es[j := v]) = (if k = g v then Some v else find (\<lambda>e. g e = k) es)"
      and "g e \<noteq> g v" using Cons.IH [of j] Cons.prems nth_mem [of j es] by (auto simp: image_iff simp del: nth_mem)
    then show ?thesis using Suc by auto
  qed
qed simp

lemma find_snoc: "find p (xs @ [x]) = (case find p xs of Some y \<Rightarrow> Some y | None \<Rightarrow> if p x then Some x else None)"
  by (induction xs) auto

lemma find_index_find: "find_index p xs = None \<longleftrightarrow> find p xs = None"
  by (induction xs) auto

text \<open>One accepted write, seen through the entries.\<close>

lemma env_put_entries:
  assumes "env_ok st" "env_name key" "env_put key val st = Some st'"
  shows "env_ok st' \<and>
    (\<forall>key'. env_name key' \<longrightarrow> env_get key' st' = (if key' = key then Some val else env_get key' st))"
proof -
  let ?e = "key @ ''='' @ val"
  obtain es k where es: "ENV st = map Some es @ replicate k None" "length es + k = 32" "0 < k"
    and eq: "\<forall>e \<in> set es. CHR ''='' \<in> set e" and dist: "distinct (map entry_key es)"
    using assms(1) by (auto simp: env_ok_def)
  have ek: "entry_key ?e = key" using assms(2) by (simp add: env_name_def)
  have get: "env_get key' s = map_option (\<lambda>e. drop (length key' + 1) e) (find (\<lambda>e. entry_key e = key') xs)"
    if "ENV s = map Some xs @ replicate j None" "0 < j" "\<forall>e \<in> set xs. CHR ''='' \<in> set e" "env_name key'"
    for key' s xs j
    using that by (simp add: env_get_entries [OF that(1,2)] find_prefix_key)
  from env_putD [OF assms(3)] es show ?thesis
  proof (cases rule: add_environment_cases)
    case (update i)
    then have i: "i < length es" "entry_key (es ! i) = entry_key ?e"
      using find_index_Some [of "\<lambda>e. entry_key e = key" es i] ek
      by (auto simp: find_index_prefix_key [OF assms(2) eq])
    have eq': "\<forall>e \<in> set (es[i := ?e]). CHR ''='' \<in> set e"
      using eq by (auto dest!: set_update_subset_insert [THEN subsetD])
    have m: "map entry_key (es[i := ?e]) = map entry_key es"
      using i by (simp add: map_update list_update_same_conv)
    have E: "ENV st' = map Some (es[i := ?e]) @ replicate k None" using update by simp
    have "env_ok st'" unfolding env_ok_def
      by (rule exI [of _ "es[i := ?e]"], rule exI [of _ k]) (use E es eq' m dist in auto)
    then show ?thesis
      using get [OF E es(3) eq'] get [OF es(1,3) eq] find_update_key [OF i dist] ek by auto
  next
    case fresh
    have nk: "find (\<lambda>e. entry_key e = key) es = None"
      using fresh(1) by (simp add: find_index_prefix_key [OF assms(2) eq] find_index_find)
    have eq': "\<forall>e \<in> set (es @ [?e]). CHR ''='' \<in> set e" using eq by auto
    have E: "ENV st' = map Some (es @ [?e]) @ replicate (k - 1) None" using fresh by simp
    have k1: "0 < k - 1" using fresh(2) by simp
    have "env_ok st'" unfolding env_ok_def
      by (rule exI [of _ "es @ [?e]"], rule exI [of _ "k - 1"])
         (use E es eq' ek dist k1 nk in \<open>auto simp: find_None_iff\<close>)
    then show ?thesis
      using get [OF E k1 eq'] get [OF es(1,3) eq] nk ek by (auto simp: find_snoc split: option.splits)
  qed
qed

interpretation env: kv_store env_put env_get env_ok env_name "\<lambda>_. True"
  by unfold_locales (use env_put_entries in auto)

text \<open>
  C23.  The environment table is a map: after any sequence of accepted \<open>add_environment\<close> calls, a
  name has the value of the last call for it, and every other name has the value it had before.
\<close>

theorem environment_is_map:
  assumes "env_ok st" "\<forall>(k, v) \<in> set kvs. env_name k" "put_all env_put kvs st = Some st'" "env_name key"
  shows "env_get key st' = (case map_of (rev kvs) key of Some v \<Rightarrow> Some v | None \<Rightarrow> env_get key st)"
  using env.get_put_all [OF assms(1) _ assms(3,4)] assms(2) by auto

theorem environment_is_map_witness:
  "put_all env_put [(''PATH'', ''/sbin''), (''HOME'', ''/''), (''PATH'', ''/bin'')] init_st0 \<noteq> None \<and>
   env_get ''PATH'' (the (put_all env_put [(''PATH'', ''/sbin''), (''HOME'', ''/''), (''PATH'', ''/bin'')] init_st0)) = Some ''/bin''"
proof -
  let ?kvs = "[(''PATH'', ''/sbin''), (''HOME'', ''/''), (''PATH'', ''/bin'')]"
  have ok: "env_ok init_st0" unfolding env_ok_def
    by (rule exI [of _ "[]"], rule exI [of _ 32]) (simp add: init_st0_def)
  have n: "put_all env_put ?kvs init_st0 \<noteq> None" by code_simp
  then obtain st' where st': "put_all env_put ?kvs init_st0 = Some st'" by blast
  have "env_get ''PATH'' st' = Some ''/bin''"
    using environment_is_map [OF ok _ st', of "''PATH''"] by (simp add: env_name_def)
  with st' n show ?thesis by simp
qed

subsection \<open>The export loop as a fold over the tokens of the file\<close>

function token_stream :: "bool \<Rightarrow> string \<Rightarrow> (token \<times> string) list" where
  "token_stream True inp = (T_NEWLINE, []) # token_stream False inp"
| "token_stream False inp =
     (case spec_token inp of (tok, t, rest, n, nl) \<Rightarrow>
        if tok = T_EOF then [] else (tok, t) # token_stream nl rest)"
  by pat_completeness auto
termination
  by (relation "measure (\<lambda>(nl, inp). 2 * length inp + (if nl then 1 else 0))")
     (auto dest!: spec_token_rest [OF sym])

declare token_stream.simps(2) [simp del]

lemma remaining_file: "NUL \<in> set buf \<Longrightarrow> \<exists>post. remaining buf 0 (cstr_at buf 0) post"
proof -
  assume "NUL \<in> set buf"
  then obtain a r where "buf = a @ NUL # r" "NUL \<notin> set a" by (meson split_list_first)
  moreover from this have "takeWhile (\<lambda>c. c \<noteq> NUL) buf = a" by (auto intro!: takeWhile_stop)
  ultimately show ?thesis by (auto simp: remaining_def cstr_at_def)
qed

lemma export_loop_stream:
  assumes "remaining (ps_buf ps) (ps_ptr ps) inp post" "ps_nexttoken ps \<noteq> T_TEXT"
  shows "export_loop ps x =
    Some (snd (snd (fold (case_prod export_token) (token_stream (ps_nexttoken ps = T_NEWLINE) inp) x)))"
  using assms
proof (induction "2 * length inp + (if ps_nexttoken ps = T_NEWLINE then 1 else 0)"
    arbitrary: inp ps x rule: less_induct)
  case less
  show ?case
  proof (cases "ps_nexttoken ps = T_NEWLINE")
    case True
    let ?p = "ps\<lparr>ps_nexttoken := T_EOF\<rparr>"
    have "next_token ps = Some (T_NEWLINE, ?p)"
      using next_token_pending [of ps T_NEWLINE] True by simp
    then have "export_loop ps x = export_loop ?p (export_token T_NEWLINE [] x)"
      by (subst export_loop.simps) (cases x; simp)
    with less.hyps [of inp ?p] less.prems True show ?thesis by simp
  next
    case False
    with less.prems(2) have none: "ps_nexttoken ps = T_EOF" by (cases "ps_nexttoken ps") auto
    from next_token_step [OF less.prems(1) none] obtain tok ps1
      where nt: "next_token ps = Some (tok, ps1)" and st: "token_step ps inp post tok ps1" by blast
    obtain tx rest n nl where sp: "spec_token inp = (tok, tx, rest, n, nl)"
      using st by (auto simp: token_step_def split: prod.splits)
    have st': "remaining (ps_buf ps1) (ps_ptr ps1) rest post"
      "ps_nexttoken ps1 = (if nl then T_NEWLINE else T_EOF)"
      "tok = T_TEXT \<Longrightarrow> cstr_at (ps_buf ps1) (ps_text ps1) = tx"
      using st sp by (auto simp: token_step_def ends_before_def)
    have ts: "token_stream False inp = (if tok = T_EOF then [] else (tok, tx) # token_stream nl rest)"
      by (simp add: token_stream.simps(2) sp)
    show ?thesis
    proof (cases "tok = T_EOF")
      case True
      with nt ts False show ?thesis by (subst export_loop.simps) simp
    next
      case tok: False
      have "export_token tok (cstr_at (ps_buf ps1) (ps_text ps1)) x = export_token tok tx x"
      proof (cases tok)
        case T_TEXT
        then show ?thesis by (simp only: st'(3))
      qed (cases x; simp)+
      then have "export_loop ps x = export_loop ps1 (export_token tok tx x)"
        using nt tok by (subst export_loop.simps) simp
      with less.hyps [of rest ps1 "export_token tok tx x"] spec_token_rest [OF sp] tok st' ts False
      show ?thesis by auto
    qed
  qed
qed

text \<open>
  \<open>export_rc\<close> always returns, and its effect is that of the tokens of the file, one after the
  other.
\<close>

lemma init_export_rc_file_eq:
  "init_export_rc_file P fn st =
     (case read_file P fn st of
        (None, st1) \<Rightarrow> Some (- 1, st1)
      | (Some data, st1) \<Rightarrow>
          Some (0, snd (snd (fold (case_prod export_token) (token_stream False (cstr_at data 0))
                              (ENV_NOTREADY, [], st1)))))"
proof -
  obtain o1 st1 where rf: "read_file P fn st = (o1, st1)" by force
  show ?thesis
  proof (cases o1)
    case (Some data)
    have "NUL \<in> set data"
      using rf Some by (auto simp: read_file_def run_simps split: if_splits)
    then obtain post where "remaining data 0 (cstr_at data 0) post" using remaining_file by blast
    with Some rf show ?thesis
      using export_loop_stream [of "file_state data" "cstr_at data 0" post]
      by (simp add: init_export_rc_file_def file_state_def)
  qed (simp add: init_export_rc_file_def rf)
qed

subsection \<open>Reading back exports\<close>

lemma token_stream_words:
  "\<forall>w \<in> set ws. DQ \<notin> set w \<Longrightarrow>
   token_stream False (concat (map print_word ws) @ r) = map (Pair T_TEXT) ws @ token_stream False r"
  by (induction ws) (simp_all add: token_stream.simps(2) [of "print_word _ @ _"] spec_token_word)

lemma token_stream_line:
  "\<forall>w \<in> set ws. DQ \<notin> set w \<Longrightarrow>
   token_stream False (print_line ws @ r) = map (Pair T_TEXT) ws @ (T_NEWLINE, []) # token_stream False r"
  using token_stream_words [of ws "NL # r"]
  by (simp add: print_line_def token_stream.simps(2) [of "NL # _"])

text \<open>The meaning of a line of an export file.\<close>

fun export_line :: "string list \<Rightarrow> init_st \<Rightarrow> init_st" where
  "export_line (kw # name # val # _) st =
     (if kw = ''export'' then snd (add_environment name val st) else st)"
| "export_line _ st = st"

lemma export_line_tokens:
  "\<exists>env'. fold (case_prod export_token) (map (Pair T_TEXT) ws @ [(T_NEWLINE, [])]) (ENV_NOTREADY, env, st) =
     (ENV_NOTREADY, env', export_line ws st)"
proof -
  have wait: "\<exists>e. fold (case_prod export_token) (map (Pair T_TEXT) vs @ [(T_NEWLINE, [])]) (ENV_WAITFORNEXTLINE, env, s) = (ENV_NOTREADY, e, s)"
    for vs env s by (induction vs) simp_all
  show ?thesis
  proof (cases "ws = [] \<or> hd ws \<noteq> ''export''")
    case True
    then show ?thesis
    proof (cases ws)
      case (Cons w vs)
      then have "export_line ws st = st" using True by (cases vs; cases "tl vs") auto
      with Cons True show ?thesis using wait [of vs env st] by simp
    qed simp
  next
    case False
    then obtain vs where ws: "ws = ''export'' # vs" by (cases ws) auto
    show ?thesis
    proof (cases vs)
      case (Cons n us)
      then show ?thesis using ws wait [of _ n] by (cases us) auto
    qed (use ws in simp)
  qed
qed

lemma export_lines:
  assumes "\<forall>ws \<in> set ls. \<forall>w \<in> set ws. DQ \<notin> set w"
  shows "\<exists>env'. fold (case_prod export_token) (token_stream False (concat (map print_line ls) @ [NL])) (ENV_NOTREADY, env, st) =
     (ENV_NOTREADY, env', fold export_line ls st)"
  using assms
proof (induction ls arbitrary: env st)
  case Nil
  show ?case by (simp add: token_stream.simps(2) [of "[NL]"] token_stream.simps(2) [of "[]"])
next
  case (Cons ws ls)
  obtain env1 where e: "fold (case_prod export_token) (map (Pair T_TEXT) ws @ [(T_NEWLINE, [])]) (ENV_NOTREADY, env, st) =
     (ENV_NOTREADY, env1, export_line ws st)" using export_line_tokens by blast
  have ts: "token_stream False (concat (map print_line (ws # ls)) @ [NL]) =
     (map (Pair T_TEXT) ws @ [(T_NEWLINE, [])]) @ token_stream False (concat (map print_line ls) @ [NL])"
    using Cons.prems token_stream_line [of ws] by simp
  show ?case
    unfolding ts fold_append comp_apply e [unfolded fold_append comp_apply] using Cons.IH [of env1 "export_line ws st"] Cons.prems by simp
qed

lemma print_no_NUL:
  "\<forall>ws \<in> set ls. \<forall>w \<in> set ws. NUL \<notin> set w \<Longrightarrow> NUL \<notin> set (concat (map print_line ls))"
  by (auto simp: print_line_def print_word_def)

text \<open>
  A file of export lines, each word in double quotes, is read back line by line: every line
  \<open>export name value\<close> adds that entry, and every other line does nothing.
\<close>

lemma export_rc_roundtrip:
  assumes "read_file P fn st = (Some (concat (map print_line ls) @ [NL, NUL]), st1)"
    and "\<forall>ws \<in> set ls. \<forall>w \<in> set ws. DQ \<notin> set w \<and> NUL \<notin> set w"
  shows "init_export_rc_file P fn st = Some (0, fold export_line ls st1)"
proof -
  have "cstr_at (concat (map print_line ls) @ [NL, NUL]) 0 = concat (map print_line ls) @ [NL]"
    using takeWhile_stop [of "concat (map print_line ls) @ [NL]" "\<lambda>c. c \<noteq> NUL" NUL "[]"]
      print_no_NUL [of ls] assms(2) by (force simp: cstr_at_def)
  with assms export_lines [of ls "[]" st1] show ?thesis by (force simp: init_export_rc_file_eq)
qed

text \<open>A kernel whose files hold one export line.\<close>

definition export_os :: "sys_trace \<Rightarrow> syscall \<Rightarrow> answer" where
  "export_os t c =
     (let text = print_line [''export'', ''PROMPT'', ''a b''] in
      case c of
        Sys_lseek_end _ \<Rightarrow> ok_answer (int (length text))
      | Sys_read _ _ \<Rightarrow> (ok_answer (int (length text)))\<lparr>an_data := text\<rparr>
      | _ \<Rightarrow> ok_answer 0)"

lemma export_rc_roundtrip_witness:
  "\<exists>st1. read_file (example_platform\<lparr>os := export_os\<rparr>) ''/env.rc'' init_st0 =
       (Some (concat (map print_line [[''export'', ''PROMPT'', ''a b'']]) @ [NL, NUL]), st1) \<and>
     init_export_rc_file (example_platform\<lparr>os := export_os\<rparr>) ''/env.rc'' init_st0 =
       Some (0, fold export_line [[''export'', ''PROMPT'', ''a b'']] st1)"
proof -
  let ?P = "example_platform\<lparr>os := export_os\<rparr>"
  have r: "read_file ?P ''/env.rc'' init_st0 =
     (Some (concat (map print_line [[''export'', ''PROMPT'', ''a b'']]) @ [NL, NUL]),
      snd (read_file ?P ''/env.rc'' init_st0))" by code_simp
  from export_rc_roundtrip [OF r] r show ?thesis by auto
qed

end
