(* ===== verification/Action_Queue.thy ===== *)
theory Action_Queue
  imports Init_State
begin

text \<open>
  The actions of \<open>init_parser.c\<close> and the queue of pending actions: \<open>action_add_queue_tail\<close>,
  \<open>action_remove_queue_head\<close>, \<open>action_queue_empty\<close>, \<open>action_for_each_trigger\<close>,
  \<open>queue_property_triggers\<close> and \<open>queue_builtin_action\<close>.

  The queue links the actions through a list node inside each action, with the list routines of
  libcutils.  Their contract is that a node is on one list at a time: \<open>list_add_tail\<close> of a node
  that is already on the queue breaks the links.  The field \<open>queue_corrupt\<close> records that this
  happened; what the queue holds is meaningful while it is false.
\<close>

subsection \<open>The queue\<close>

definition action_add_queue_tail :: "nat \<Rightarrow> init_st \<Rightarrow> init_st" where
  "action_add_queue_tail a st =
     st\<lparr>action_queue := action_queue st @ [a],
        queue_corrupt := queue_corrupt st \<or> a \<in> set (action_queue st)\<rparr>"

definition action_remove_queue_head :: "init_st \<Rightarrow> nat option \<times> init_st" where
  "action_remove_queue_head st =
     (case action_queue st of
        [] \<Rightarrow> (None, st)
      | a # q \<Rightarrow> (Some a, st\<lparr>action_queue := q\<rparr>))"

definition action_queue_empty :: "init_st \<Rightarrow> bool" where
  "action_queue_empty st \<longleftrightarrow> action_queue st = []"

definition list_for_each_action :: "(nat \<Rightarrow> action \<Rightarrow> init_st \<Rightarrow> init_st) \<Rightarrow> init_st \<Rightarrow> init_st" where
  "list_for_each_action body st =
     fold (\<lambda>i s. body i (action_list s ! i) s) [0..<length (action_list st)] st"

definition action_for_each_trigger :: "string \<Rightarrow> (nat \<Rightarrow> init_st \<Rightarrow> init_st) \<Rightarrow> init_st \<Rightarrow> init_st" where
  "action_for_each_trigger trigger func =
     list_for_each_action (\<lambda>i act st. if act_name act = trigger then func i st else st)"

text \<open>
  \<open>strncmp(name, test, name_length)\<close> and the character after it decide whether the trigger names
  the property; reading \<open>test[name_length]\<close> beyond the end is excluded by the first test.
\<close>

definition property_trigger_matches :: "string \<Rightarrow> string \<Rightarrow> action \<Rightarrow> bool" where
  "property_trigger_matches name value act \<longleftrightarrow>
     has_prefix ''property:'' (act_name act) \<and>
     (let test = drop (length ''property:'') (act_name act);
          name_length = length name
      in take name_length test = name \<and>
         take 1 (drop name_length test) = ''='' \<and>
         (drop (name_length + 1) test = value \<or> drop (name_length + 1) test = ''*''))"

definition queue_property_triggers :: "string \<Rightarrow> string \<Rightarrow> init_st \<Rightarrow> init_st" where
  "queue_property_triggers name value =
     list_for_each_action (\<lambda>i act st.
       if property_trigger_matches name value act then action_add_queue_tail i st else st)"

definition queue_builtin_action :: "builtin \<Rightarrow> string \<Rightarrow> init_st \<Rightarrow> init_st" where
  "queue_builtin_action func name st =
     (let cmd = \<lparr>cmd_func = func, cmd_nargs = 0, cmd_args = [name]\<rparr>;
          act = \<lparr>act_name = name, act_commands = [cmd]\<rparr>;
          st1 = st\<lparr>action_list := action_list st @ [act]\<rparr>
      in action_add_queue_tail (length (action_list st)) st1)"

subsection \<open>A first-in first-out queue\<close>

text \<open>
  The contract of the queue towards \<open>execute_one_command\<close>: an abstract list, to whose end
  actions are added and from whose front they are taken.
\<close>

locale fifo =
  fixes add :: "'a \<Rightarrow> 's \<Rightarrow> 's"
    and remove :: "'s \<Rightarrow> 'a option \<times> 's"
    and empty :: "'s \<Rightarrow> bool"
    and contents :: "'s \<Rightarrow> 'a list"
  assumes add_contents: "contents (add a s) = contents s @ [a]"
    and remove_contents: "remove s = (r, s') \<Longrightarrow>
      (case contents s of [] \<Rightarrow> r = None \<and> s' = s | a # q \<Rightarrow> r = Some a \<and> contents s' = q)"
    and empty_contents: "empty s \<longleftrightarrow> contents s = []"
begin

lemma add_all_contents: "contents (fold add as s) = contents s @ as"
  by (induction as arbitrary: s) (simp_all add: add_contents)

fun drain :: "nat \<Rightarrow> 's \<Rightarrow> 'a list \<times> 's" where
  "drain 0 s = ([], s)"
| "drain (Suc n) s =
     (case remove s of (None, s') \<Rightarrow> ([], s') | (Some a, s') \<Rightarrow> apfst (Cons a) (drain n s'))"

lemma drain_contents:
  "fst (drain n s) = take n (contents s) \<and> contents (snd (drain n s)) = drop n (contents s)"
proof (induction n arbitrary: s)
  case (Suc n)
  obtain r s' where r: "remove s = (r, s')" by force
  show ?case
  proof (cases "contents s")
    case Nil
    then show ?thesis using remove_contents [OF r] r by simp
  next
    case (Cons a q)
    then show ?thesis using remove_contents [OF r] r Suc.IH [of s'] by (cases "drain n s'") simp
  qed
qed simp

text \<open>What is added is taken out in the order it was added, after what was there before.\<close>

lemma drain_added: "fst (drain (length (contents s) + length as) (fold add as s)) = contents s @ as"
  by (simp add: drain_contents add_all_contents)

end

interpretation aq: fifo action_add_queue_tail action_remove_queue_head action_queue_empty action_queue
  by unfold_locales
     (auto simp: action_add_queue_tail_def action_remove_queue_head_def action_queue_empty_def
           split: list.splits)

subsection \<open>What the loops over the actions do\<close>

lemma add_tail_frame [simp]:
  "action_list (action_add_queue_tail a st) = action_list st"
  "service_list (action_add_queue_tail a st) = service_list st"
  "props (action_add_queue_tail a st) = props st"
  "trace (action_add_queue_tail a st) = trace st"
  by (simp_all add: action_add_queue_tail_def)

lemma add_all_frame [simp]:
  "action_list (fold action_add_queue_tail as st) = action_list st"
  by (induction as arbitrary: st) simp_all

lemma fold_select_actions:
  assumes "\<And>i s. body i (action_list s ! i) s = (if p (action_list s ! i) then action_add_queue_tail i s else s)"
  shows "fold (\<lambda>i s. body i (action_list s ! i) s) is st =
         fold action_add_queue_tail (filter (\<lambda>i. p (action_list st ! i)) is) st"
  by (induction "is" arbitrary: st) (simp_all add: assms)

lemma for_each_select:
  "list_for_each_action (\<lambda>i act st. if p act then action_add_queue_tail i st else st) st =
   fold action_add_queue_tail (filter (\<lambda>i. p (action_list st ! i)) [0..<length (action_list st)]) st"
  unfolding list_for_each_action_def by (rule fold_select_actions) simp

definition select_actions :: "(action \<Rightarrow> bool) \<Rightarrow> init_st \<Rightarrow> nat list" where
  "select_actions p st = filter (\<lambda>i. p (action_list st ! i)) [0..<length (action_list st)]"

lemma distinct_select_actions: "distinct (select_actions p st)"
  by (simp add: select_actions_def)

lemma set_select_actions: "i \<in> set (select_actions p st) \<longleftrightarrow> i < length (action_list st) \<and> p (action_list st ! i)"
  by (auto simp: select_actions_def)

lemmas select_simps = for_each_select [folded select_actions_def]

lemma action_for_each_trigger_queue:
  "action_for_each_trigger t action_add_queue_tail st =
   fold action_add_queue_tail (select_actions (\<lambda>act. act_name act = t) st) st"
  by (simp add: action_for_each_trigger_def select_simps)

lemma queue_property_triggers_eq:
  "queue_property_triggers name value st =
   fold action_add_queue_tail (select_actions (property_trigger_matches name value) st) st"
  by (simp add: queue_property_triggers_def select_simps)

text \<open>The ghost flag stays false exactly when nothing is queued twice.\<close>

lemma add_all_corrupt:
  "queue_corrupt (fold action_add_queue_tail as st) \<longleftrightarrow>
   queue_corrupt st \<or> \<not> distinct as \<or> set as \<inter> set (action_queue st) \<noteq> {}"
  by (induction as arbitrary: st) (auto simp: action_add_queue_tail_def)

lemma fold_add_eq:
  "fold action_add_queue_tail as st =
   st\<lparr>action_queue := action_queue st @ as,
      queue_corrupt := queue_corrupt st \<or> \<not> distinct as \<or> set as \<inter> set (action_queue st) \<noteq> {}\<rparr>"
proof (induction as arbitrary: st)
  case (Cons a as)
  show ?case unfolding fold_Cons comp_def Cons.IH
    by (rule init_st.equality) (auto simp: action_add_queue_tail_def)
qed simp

subsection \<open>The queue holds actions\<close>

definition queue_ok :: "init_st \<Rightarrow> bool" where
  "queue_ok st \<longleftrightarrow> (\<forall>a \<in> set (action_queue st). a < length (action_list st)) \<and>
     (queue_corrupt st \<or> distinct (action_queue st))"

lemma queue_ok_add_all:
  "queue_ok st \<Longrightarrow> \<forall>a \<in> set as. a < length (action_list st) \<Longrightarrow>
   queue_ok (fold action_add_queue_tail as st)"
  by (auto simp: queue_ok_def fold_add_eq)

lemma queue_ok_select: "queue_ok st \<Longrightarrow> queue_ok (fold action_add_queue_tail (select_actions p st) st)"
  by (rule queue_ok_add_all) (auto simp: set_select_actions)

lemma queue_ok_builtin: "queue_ok st \<Longrightarrow> queue_ok (queue_builtin_action f n st)"
  by (auto simp: queue_ok_def queue_builtin_action_def action_add_queue_tail_def Let_def)

lemma queue_ok_remove: "queue_ok st \<Longrightarrow> queue_ok (snd (action_remove_queue_head st))"
  by (auto simp: queue_ok_def action_remove_queue_head_def split: list.splits)

subsection \<open>Triggers\<close>

lemma property_trigger_matches_iff:
  "property_trigger_matches name value act \<longleftrightarrow>
   act_name act = ''property:'' @ name @ ''='' @ value \<or> act_name act = ''property:'' @ name @ ''=*''"
    (is "?L \<longleftrightarrow> ?R")
proof
  assume ?L
  then obtain test where n: "act_name act = ''property:'' @ test"
    by (auto simp: property_trigger_matches_def has_prefix_iff)
  with \<open>?L\<close> have t: "take (length name) test = name" "take 1 (drop (length name) test) = ''=''"
    "drop (Suc (length name)) test = value \<or> drop (Suc (length name)) test = ''*''"
    by (simp_all add: property_trigger_matches_def Let_def)
  have "test = take (length name) test @ take 1 (drop (length name) test) @ drop 1 (drop (length name) test)"
    by (simp only: append_take_drop_id)
  with t have "test = name @ ''='' @ drop (Suc (length name)) test" by simp
  with n t(3) show ?R by auto
qed (auto simp: property_trigger_matches_def has_prefix_def Let_def)

end
