(* ===== verification/Properties.thy ===== *)
theory Properties
  imports Environment Action_Queue
begin

text \<open>
  The property area of \<open>property_service.c\<close>: its creation, \<open>property_get\<close>, \<open>property_set\<close>, the
  files that properties are loaded from, the permission tables, and the triggers that a change
  of a property queues.  The socket on which other processes ask for a change is in \<open>Services\<close>,
  since its requests also start and stop services.

  The area is the list \<open>props\<close> of its entries with the table of contents \<open>pa_toc\<close>.  Where the area
  could not be created, a write goes through a null pointer and the process dies, which the
  model records in \<open>exited\<close>.
\<close>

subsection \<open>Who may change what\<close>

definition property_perms :: "platform \<Rightarrow> (string \<times> 32 word \<times> 32 word) list" where
  "property_perms P =
    [(''net.rmnet'', AID_RADIO P, 0),
     (''net.gprs.'', AID_RADIO P, 0),
     (''net.ppp'', AID_RADIO P, 0),
     (''net.qmi'', AID_RADIO P, 0),
     (''net.lte'', AID_RADIO P, 0),
     (''net.cdma'', AID_RADIO P, 0),
     (''ril.'', AID_RADIO P, 0),
     (''gsm.'', AID_RADIO P, 0),
     (''persist.radio'', AID_RADIO P, 0),
     (''net.dns'', AID_RADIO P, 0),
     (''sys.usb.config'', AID_RADIO P, 0),
     (''net.'', AID_SYSTEM P, 0),
     (''dev.'', AID_SYSTEM P, 0),
     (''runtime.'', AID_SYSTEM P, 0),
     (''hw.'', AID_SYSTEM P, 0),
     (''sys.'', AID_SYSTEM P, 0),
     (''service.'', AID_SYSTEM P, 0),
     (''service.'', AID_RADIO P, 0),
     (''wlan.'', AID_SYSTEM P, 0),
     (''dhcp.'', AID_SYSTEM P, 0),
     (''dhcp.'', AID_DHCP P, 0),
     (''debug.'', AID_SYSTEM P, 0),
     (''debug.'', AID_SHELL P, 0),
     (''log.'', AID_SHELL P, 0),
     (''service.adb.root'', AID_SHELL P, 0),
     (''service.adb.tcp.port'', AID_SHELL P, 0),
     (''persist.sys.'', AID_SYSTEM P, 0),
     (''persist.service.'', AID_SYSTEM P, 0),
     (''persist.service.'', AID_RADIO P, 0),
     (''persist.security.'', AID_SYSTEM P, 0),
     (''net.pdp'', AID_RADIO P, AID_RADIO P),
     (''service.bootanim.exit'', AID_GRAPHICS P, 0)]"

definition control_perms :: "platform \<Rightarrow> (string \<times> 32 word \<times> 32 word) list" where
  "control_perms P =
    [(''dumpstate'', AID_SHELL P, AID_LOG P),
     (''ril-daemon'', AID_RADIO P, AID_RADIO P)]"

definition check_control_perms :: "platform \<Rightarrow> string \<Rightarrow> 32 word \<Rightarrow> 32 word \<Rightarrow> bool" where
  "check_control_perms P name uid gid \<longleftrightarrow>
     uid = AID_SYSTEM P \<or> uid = AID_ROOT P \<or>
     list_ex (\<lambda>(service, puid, pgid).
       service = name \<and> ((uid \<noteq> 0 \<and> puid = uid) \<or> (gid \<noteq> 0 \<and> pgid = gid))) (control_perms P)"

definition check_perms :: "platform \<Rightarrow> string \<Rightarrow> 32 word \<Rightarrow> 32 word \<Rightarrow> bool" where
  "check_perms P name uid gid \<longleftrightarrow>
     uid = 0 \<or>
     (let name = (if has_prefix ''ro.'' name then drop 3 name else name) in
      list_ex (\<lambda>(prefix, puid, pgid).
        has_prefix prefix name \<and> ((uid \<noteq> 0 \<and> puid = uid) \<or> (gid \<noteq> 0 \<and> pgid = gid)))
        (property_perms P))"

subsection \<open>The shared area\<close>

definition PA_COUNT_MAX :: nat where "PA_COUNT_MAX = 372"
definition PA_INFO_START :: int where "PA_INFO_START = 1536"
definition PA_SIZE :: int where "PA_SIZE = 49152"

definition init_workspace :: "platform \<Rightarrow> int \<Rightarrow> init_st \<Rightarrow> int \<times> init_st" where
  "init_workspace P sz st =
     (let path = ''/dev/__properties__'';
          (f, st) = sys P (Sys_open path [O_RDWR, O_CREAT] 0x180) st; fd = an_ret f in
      if fd < 0 then (- 1, st)
      else
        let (t, st) = sys P (Sys_ftruncate fd sz) st in
        if an_ret t < 0 then (- 1, perform P (Sys_close fd) st)
        else
          let (m, st) = sys P (Sys_mmap fd sz) st in
          if an_ret m = - 1 then (- 1, perform P (Sys_close fd) st)
          else
            let st = perform P (Sys_close fd) st;
                (g, st) = sys P (Sys_open path [O_RDONLY] 0) st in
            if an_ret g < 0 then (- 1, st)
            else (0, (perform P (Sys_unlink path) st)\<lparr>pa_workspace_fd := an_ret g\<rparr>))"

definition init_property_area :: "platform \<Rightarrow> init_st \<Rightarrow> int \<times> init_st" where
  "init_property_area P st =
     (if pa_mapped st then (- 1, st)
      else
        let (r, st) = init_workspace P PA_SIZE st in
        if r \<noteq> 0 then (- 1, st)
        else (0, (perform P (Sys_fcntl (pa_workspace_fd st) ''F_SETFD FD_CLOEXEC'') st)
                  \<lparr>pa_mapped := True, props := [], pa_toc := [], pa_serial := 0,
                   property_area_inited := True\<rparr>))"

definition update_prop_info :: "prop_info \<Rightarrow> string \<Rightarrow> nat \<Rightarrow> prop_info" where
  "update_prop_info p value len =
     (let serial = pi_serial p OR 1 in
      p\<lparr>pi_value := value,
        pi_serial := push_bit 24 (of_nat len) OR ((serial + 1) AND 0xffffff)\<rparr>)"

definition property_get :: "platform \<Rightarrow> string \<Rightarrow> init_st \<Rightarrow> string option" where
  "property_get P name st =
     (if PROP_NAME_MAX P \<le> length name then None
      else map_option (\<lambda>i. pi_value (props st ! i)) (system_property_find P (props st) name))"

definition PERSISTENT_PROPERTY_DIR :: string where
  "PERSISTENT_PROPERTY_DIR = ''/data/property''"

definition write_persistent_property :: "platform \<Rightarrow> string \<Rightarrow> string \<Rightarrow> init_st \<Rightarrow> init_st" where
  "write_persistent_property P name value st =
     (let tempPath = PERSISTENT_PROPERTY_DIR @ ''/.temp'';
          path = clip (PATH_MAX P) (PERSISTENT_PROPERTY_DIR @ ''/'' @ name);
          (f, st) = sys P (Sys_open tempPath [O_WRONLY, O_CREAT, O_TRUNC] 0x180) st; fd = an_ret f in
      if fd < 0 then st
      else
        let st = perform P (Sys_write fd value) st;
            st = perform P (Sys_close fd) st;
            (r, st) = sys P (Sys_rename tempPath path) st in
        if an_ret r \<noteq> 0 then perform P (Sys_unlink tempPath) st else st)"

definition property_changed :: "string \<Rightarrow> string \<Rightarrow> init_st \<Rightarrow> init_st" where
  "property_changed name value st =
     (if property_triggers_enabled st then queue_property_triggers name value st else st)"

text \<open>
  The first half of \<open>property_set\<close>, up to the wake-up of the readers: \<open>None\<close> when it returns
  \<open>-1\<close>, otherwise the state with the entry updated or added.
\<close>

definition property_store :: "platform \<Rightarrow> string \<Rightarrow> string \<Rightarrow> init_st \<Rightarrow> init_st option" where
  "property_store P name value st =
     (let namelen = length name; valuelen = length value in
      if PROP_NAME_MAX P \<le> namelen then None
      else if PROP_VALUE_MAX P \<le> valuelen then None
      else if namelen < 1 then None
      else
        case system_property_find P (props st) name of
          Some i \<Rightarrow>
            if has_prefix ''ro.'' name then None
            else
              let st = st\<lparr>props := upd_nth i (\<lambda>p. update_prop_info p value valuelen) (props st)\<rparr>;
                  st = perform P Sys_futex_wake st;
                  st = st\<lparr>pa_serial := pa_serial st + 1\<rparr>
              in Some (perform P Sys_futex_wake st)
        | None \<Rightarrow>
            if length (props st) = PA_COUNT_MAX then None
            else if \<not> pa_mapped st then Some (st\<lparr>exited := Some 139\<rparr>)
            else
              let count = length (props st);
                  new = \<lparr>pi_name = name, pi_serial = push_bit 24 (of_nat valuelen), pi_value = value\<rparr>;
                  entry = push_bit 24 (of_nat namelen) OR
                          of_int (PA_INFO_START + SIZEOF_PROP_INFO P * int count);
                  st = st\<lparr>props := props st @ [new], pa_toc := pa_toc st @ [entry],
                          pa_serial := pa_serial st + 1\<rparr>
              in Some (perform P Sys_futex_wake st))"

function property_set :: "platform \<Rightarrow> string \<Rightarrow> string \<Rightarrow> init_st \<Rightarrow> int \<times> init_st" where
  "property_set P name value st =
     (case property_store P name value st of
        None \<Rightarrow> (- 1, st)
      | Some st \<Rightarrow>
          if has_prefix ''net.'' name then
            if name = ''net.change'' then (0, st)
            else (0, property_changed name value (snd (property_set P ''net.change'' name st)))
          else if persistent_properties_loaded st \<and> has_prefix ''persist.'' name then
            (0, property_changed name value (write_persistent_property P name value st))
          else (0, property_changed name value st))"
  by pat_completeness auto
termination
  by (relation "measure (\<lambda>(P, name, value, st). if name = ''net.change'' then 0 else 1)") auto

declare property_set.simps [simp del]

subsection \<open>Properties from files\<close>

definition rtrim :: "string \<Rightarrow> string" where
  "rtrim s = rev (dropWhile isspace (rev s))"

text \<open>
  One line of a property file: the key and the value it sets, \<open>None\<close> for a line without an
  equals sign and for a comment.  The blanks after the key and after the value are cut from the
  end, but never the first character, which is not a blank.
\<close>

definition parse_property_line :: "string \<Rightarrow> (string \<times> string) option" where
  "parse_property_line line =
     (case split_first (CHR ''='') line of
        None \<Rightarrow> None
      | Some (key, value) \<Rightarrow>
          let key = dropWhile isspace key in
          if take 1 key = [HASH] then None
          else Some (rtrim key, rtrim (dropWhile isspace value)))"

function load_properties :: "platform \<Rightarrow> string \<Rightarrow> init_st \<Rightarrow> init_st" where
  "load_properties P sol st =
     (case split_first NL sol of
        None \<Rightarrow> st
      | Some (line, eol) \<Rightarrow>
          load_properties P eol
            (case parse_property_line line of
               None \<Rightarrow> st
             | Some (key, value) \<Rightarrow> snd (property_set P key value st)))"
  by pat_completeness auto
termination
  by (relation "measure (\<lambda>(P, sol, st). length sol)") (auto dest: split_first_shorter)

declare load_properties.simps [simp del]

definition load_properties_from_file :: "platform \<Rightarrow> string \<Rightarrow> init_st \<Rightarrow> init_st" where
  "load_properties_from_file P fn st =
     (case read_file P fn st of
        (None, st) \<Rightarrow> st
      | (Some data, st) \<Rightarrow> load_properties P (cstr_at data 0) st)"

text \<open>
  The loop over the directory of persistent properties, which ends when the kernel reports no
  further entry.
\<close>

definition load_persistent_entry :: "platform \<Rightarrow> string \<Rightarrow> init_st \<Rightarrow> init_st" where
  "load_persistent_entry P d_name st =
     (if \<not> has_prefix ''persist.'' d_name then st
      else
        let path = clip (PATH_MAX P) (PERSISTENT_PROPERTY_DIR @ ''/'' @ d_name);
            (f, st) = sys P (Sys_open path [O_RDONLY] 0) st; fd = an_ret f in
        if fd < 0 then st
        else
          let (r, st) = sys P (Sys_read fd (int (PROP_VALUE_MAX P) - 1)) st;
              st = (if 0 \<le> an_ret r
                    then snd (property_set P d_name (cstr_at (got r @ [NUL]) 0) st) else st)
          in perform P (Sys_close fd) st)"

partial_function (option) readdir_loop :: "platform \<Rightarrow> int \<Rightarrow> init_st \<Rightarrow> init_st option" where
  "readdir_loop P dir st =
     (let (e, st) = sys P (Sys_readdir dir) st in
      if an_ret e = 0 then Some st else readdir_loop P dir (load_persistent_entry P (an_data e) st))"

definition load_persistent_properties :: "platform \<Rightarrow> init_st \<Rightarrow> init_st option" where
  "load_persistent_properties P st =
     (let (d, st) = sys P (Sys_opendir PERSISTENT_PROPERTY_DIR) st in
      map_option (\<lambda>st. st\<lparr>persistent_properties_loaded := True\<rparr>)
        (if an_ret d \<noteq> 0
         then map_option (perform P (Sys_closedir (an_ret d))) (readdir_loop P (an_ret d) st)
         else Some st))"

definition property_init :: "platform \<Rightarrow> init_st \<Rightarrow> init_st" where
  "property_init P st = snd (init_property_area P st)"

definition property_load_boot_defaults :: "platform \<Rightarrow> init_st \<Rightarrow> init_st" where
  "property_load_boot_defaults P st = load_properties_from_file P (PROP_PATH_RAMDISK_DEFAULT P) st"

definition properties_inited :: "init_st \<Rightarrow> bool" where
  "properties_inited st = property_area_inited st"

definition load_persist_props :: "platform \<Rightarrow> init_st \<Rightarrow> init_st option" where
  "load_persist_props P st =
     (let st = (if allow_local_prop_override P
                then load_properties_from_file P (PROP_PATH_LOCAL_OVERRIDE P) st else st)
      in load_persistent_properties P st)"

definition start_property_service :: "platform \<Rightarrow> init_st \<Rightarrow> init_st option" where
  "start_property_service P st =
     (let st = load_properties_from_file P (PROP_PATH_SYSTEM_BUILD P) st;
          st = load_properties_from_file P (PROP_PATH_SYSTEM_DEFAULT P) st;
          st = (if allow_local_prop_override P
                then load_properties_from_file P (PROP_PATH_LOCAL_OVERRIDE P) st else st)
      in do {
        st \<leftarrow> load_persistent_properties P st;
        let (fd, st) = create_socket P (PROP_SERVICE_NAME P) SOCK_STREAM 0x1B6 0 0 st;
        Some (if fd < 0 then st
              else
                let st = perform P (Sys_fcntl fd ''F_SETFD FD_CLOEXEC'') st;
                    st = perform P (Sys_fcntl fd ''F_SETFL O_NONBLOCK'') st;
                    st = perform P (Sys_listen fd 8) st
                in st\<lparr>property_set_fd := fd\<rparr>)
      })"

definition queue_all_property_triggers :: "platform \<Rightarrow> init_st \<Rightarrow> init_st" where
  "queue_all_property_triggers P =
     list_for_each_action (\<lambda>i act st.
       if has_prefix ''property:'' (act_name act) then
         (case split_first (CHR ''='') (drop (length ''property:'') (act_name act)) of
            None \<Rightarrow> st
          | Some (prop_name, test) \<Rightarrow>
              if PROP_NAME_MAX P < length prop_name then st
              else (case property_get P prop_name st of
                      None \<Rightarrow> st
                    | Some value \<Rightarrow>
                        if test = value \<or> test = ''*'' then action_add_queue_tail i st else st))
       else st)"

subsection \<open>What a write leaves alone\<close>

text \<open>
  \<open>prop_frame st st'\<close>: between the two states only the property area, the action queue and the
  trace changed, and the process may have died.
\<close>

definition erase_props :: "init_st \<Rightarrow> init_st" where
  "erase_props st = st\<lparr>props := [], pa_toc := [], pa_serial := 0, action_queue := [],
     queue_corrupt := False, exited := None, trace := []\<rparr>"

definition prop_frame :: "init_st \<Rightarrow> init_st \<Rightarrow> bool" where
  "prop_frame st st' \<longleftrightarrow> erase_props st' = erase_props st"

lemma prop_frame_refl [simp]: "prop_frame st st"
  by (simp add: prop_frame_def)

lemma prop_frame_trans: "prop_frame st st' \<Longrightarrow> prop_frame st' st'' \<Longrightarrow> prop_frame st st''"
  by (simp add: prop_frame_def)

lemma prop_frame_traced: "traced st st' \<Longrightarrow> prop_frame st st'"
  by (auto simp: traced_def prop_frame_def erase_props_def)

lemma erase_props_fields:
  "service_list (erase_props st) = service_list st" "action_list (erase_props st) = action_list st"
  "ENV (erase_props st) = ENV st" "property_set_fd (erase_props st) = property_set_fd st"
  "cur_action (erase_props st) = cur_action st" "cur_command (erase_props st) = cur_command st"
  "persistent_properties_loaded (erase_props st) = persistent_properties_loaded st"
  "property_triggers_enabled (erase_props st) = property_triggers_enabled st"
  "property_area_inited (erase_props st) = property_area_inited st"
  "pa_mapped (erase_props st) = pa_mapped st"
  "children (erase_props st) = children st" "have_console (erase_props st) = have_console st"
  "process_needs_restart (erase_props st) = process_needs_restart st"
  by (simp_all add: erase_props_def)

lemma prop_frame_fields:
  assumes "prop_frame st st'"
  shows "service_list st' = service_list st" "action_list st' = action_list st"
    "ENV st' = ENV st" "property_set_fd st' = property_set_fd st"
    "cur_action st' = cur_action st" "cur_command st' = cur_command st"
    "persistent_properties_loaded st' = persistent_properties_loaded st"
    "property_triggers_enabled st' = property_triggers_enabled st"
    "property_area_inited st' = property_area_inited st" "pa_mapped st' = pa_mapped st"
    "children st' = children st" "have_console st' = have_console st"
    "process_needs_restart st' = process_needs_restart st"
  using assms erase_props_fields unfolding prop_frame_def by metis+

lemma prop_frame_store: "property_store P name value st = Some st' \<Longrightarrow> prop_frame st st'"
  by (auto simp: property_store_def Let_def perform_def sys_def prop_frame_def erase_props_def
           split: if_splits option.splits)

lemma prop_frame_add_all: "prop_frame st (fold action_add_queue_tail as st)"
  by (simp add: fold_add_eq prop_frame_def erase_props_def)

lemma prop_frame_changed: "prop_frame st (property_changed name value st)"
  by (simp add: property_changed_def queue_property_triggers_eq prop_frame_add_all)

lemma traced_write_persistent [traced_intros]: "traced st (write_persistent_property P name value st)"
  by (simp add: write_persistent_property_def run_simps traced_intros)

lemma prop_frame_set: "prop_frame st (snd (property_set P name v st))"
proof (induction P name v st rule: property_set.induct)
  case (1 P name v st)
  show ?case
  proof (cases "property_store P name v st")
    case None
    then show ?thesis by (simp add: property_set.simps [of P name])
  next
    case (Some st1)
    note F = prop_frame_store [OF Some] and IH = 1 [OF Some]
    have C: "prop_frame st (property_changed name v s)" if "prop_frame st1 s" for s
      using prop_frame_trans [OF prop_frame_trans [OF F that] prop_frame_changed] .
    show ?thesis
      using F IH C prop_frame_traced [OF traced_write_persistent]
      by (auto simp: property_set.simps [of P name] Some)
  qed
qed

subsection \<open>The area as a map\<close>

definition pmap :: "init_st \<Rightarrow> string \<rightharpoonup> string" where
  "pmap st = map_of (map (\<lambda>p. (pi_name p, pi_value p)) (props st))"

definition toc_entry :: "platform \<Rightarrow> nat \<Rightarrow> prop_info \<Rightarrow> 32 word" where
  "toc_entry P i p = push_bit 24 (of_nat (length (pi_name p))) OR
     of_int (PA_INFO_START + SIZEOF_PROP_INFO P * int i)"

text \<open>
  An entry is well formed when its texts fit, its serial number is even, as it is while nobody
  writes, and the top byte of the serial number is the length of the value.
\<close>

definition entry_ok :: "platform \<Rightarrow> prop_info \<Rightarrow> bool" where
  "entry_ok P p \<longleftrightarrow> 0 < length (pi_name p) \<and> length (pi_name p) < PROP_NAME_MAX P \<and>
     length (pi_value p) < PROP_VALUE_MAX P \<and>
     even (pi_serial p) \<and> drop_bit 24 (pi_serial p) = of_nat (length (pi_value p))"

definition props_ok :: "platform \<Rightarrow> init_st \<Rightarrow> bool" where
  "props_ok P st \<longleftrightarrow>
     length (props st) \<le> PA_COUNT_MAX \<and> distinct (map pi_name (props st)) \<and>
     (\<forall>p \<in> set (props st). entry_ok P p) \<and>
     pa_toc st = map (\<lambda>i. toc_entry P i (props st ! i)) [0..<length (props st)] \<and>
     (pa_mapped st \<or> props st = [])"

lemma map_of_upd_nth:
  assumes "distinct (map f xs)" "i < length xs" "f (g (xs ! i)) = f (xs ! i)"
  shows "map_of (map (\<lambda>x. (f x, h x)) (upd_nth i g xs)) =
    (map_of (map (\<lambda>x. (f x, h x)) xs)) (f (xs ! i) \<mapsto> h (g (xs ! i)))"
  using assms
proof (induction xs arbitrary: i)
  case (Cons x xs)
  show ?case
  proof (cases i)
    case 0
    then show ?thesis using Cons.prems by (auto simp: upd_nth_def)
  next
    case (Suc j)
    then have "f x \<noteq> f (xs ! j)" using Cons.prems nth_mem [of j xs] by (auto simp: image_iff simp del: nth_mem)
    moreover have "upd_nth i g (x # xs) = x # upd_nth j g xs" using Suc by (simp add: upd_nth_def)
    ultimately show ?thesis using Cons.IH [of j] Cons.prems Suc by (auto simp: fun_eq_iff)
  qed
qed simp

lemma map_of_snoc:
  "k \<notin> fst ` set xs \<Longrightarrow> map_of (xs @ [(k, v)]) = (map_of xs)(k \<mapsto> v)"
  by (induction xs) (auto simp: fun_upd_twist)

lemma serial_word:
  assumes "len < 256"
  shows "drop_bit 24 (push_bit 24 (of_nat len) OR (w AND 0xffffff) :: 32 word) = of_nat len"
    and "drop_bit 24 (push_bit 24 (of_nat len) :: 32 word) = of_nat len"
proof -
  have m: "(0xffffff :: 32 word) = mask 24" by (simp add: mask_eq_exp_minus_1)
  have l: "bit (of_nat len :: 32 word) n \<Longrightarrow> n < 8" for n
  proof (rule ccontr)
    assume b: "bit (of_nat len :: 32 word) n" and "\<not> n < 8"
    then have "bit len n" by (simp add: bit_of_nat_iff)
    moreover have "take_bit 8 len = len" using assms by (simp add: take_bit_nat_eq_self)
    ultimately show False using \<open>\<not> n < 8\<close> by (metis bit_take_bit_iff)
  qed
  show "drop_bit 24 (push_bit 24 (of_nat len) OR (w AND 0xffffff) :: 32 word) = of_nat len"
    unfolding m by (rule bit_word_eqI)
      (auto simp: bit_drop_bit_eq bit_or_iff bit_push_bit_iff bit_and_iff bit_mask_iff dest: l)
  show "drop_bit 24 (push_bit 24 (of_nat len) :: 32 word) = of_nat len"
    by (rule bit_word_eqI) (auto simp: bit_drop_bit_eq bit_push_bit_iff dest: l)
qed

lemma even_push_bit_or:
  "even (push_bit 24 (a :: 32 word) OR b) \<longleftrightarrow> even b"
  by (simp add: even_or_iff even_push_bit_iff)

lemma even_after_update: "even (((s OR 1) + 1) AND 0xffffff :: 32 word)"
  by (simp add: even_and_iff even_or_iff)

text \<open>The two sides of a write: the entry of a property is updated, or a new entry is added.\<close>

lemma entry_ok_update:
  assumes "entry_ok P p" "length v < PROP_VALUE_MAX P" "PROP_VALUE_MAX P \<le> 255"
  shows "entry_ok P (update_prop_info p v (length v))"
  using assms serial_word(1) [of "length v"] even_after_update
  by (simp add: entry_ok_def update_prop_info_def Let_def even_push_bit_or)

lemma entry_ok_new:
  assumes "0 < length n" "length n < PROP_NAME_MAX P" "length v < PROP_VALUE_MAX P" "PROP_VALUE_MAX P \<le> 255"
  shows "entry_ok P \<lparr>pi_name = n, pi_serial = push_bit 24 (of_nat (length v)), pi_value = v\<rparr>"
  using assms serial_word(2) [of "length v"] by (simp add: entry_ok_def even_push_bit_iff)

lemma pmap_trace_irrelevant [simp]:
  "pmap (perform P c st) = pmap st" "props_ok Q (perform P c st) = props_ok Q st"
  "pa_mapped (perform P c st) = pa_mapped st" "props (perform P c st) = props st"
  "pa_toc (perform P c st) = pa_toc st"
  by (simp_all add: pmap_def props_ok_def perform_def sys_def Let_def)

lemma pmap_cong: "props st' = props st \<Longrightarrow> pmap st' = pmap st"
  by (simp add: pmap_def)

lemma props_ok_cong:
  "props st' = props st \<Longrightarrow> pa_toc st' = pa_toc st \<Longrightarrow> pa_mapped st' = pa_mapped st \<Longrightarrow>
   props_ok P st' = props_ok P st"
  by (simp add: props_ok_def)

lemma found_entry:
  assumes "find_ok P" "system_property_find P (props st) name = Some i"
  shows "i < length (props st)" "pi_name (props st ! i) = name"
  using assms find_index_Some [of "\<lambda>p. pi_name p = name" "props st" i] by (simp_all add: find_ok_def)

lemma not_found:
  assumes "find_ok P" "system_property_find P (props st) name = None"
  shows "name \<notin> pi_name ` set (props st)"
  using assms by (auto simp: find_ok_def find_index_None)

lemma update_keeps_name [simp]: "pi_name (update_prop_info p v n) = pi_name p"
  "pi_value (update_prop_info p v n) = v"
  by (simp_all add: update_prop_info_def Let_def)

lemma store_update:
  assumes ok: "find_ok P" "sizes_ok P" "props_ok P st"
    and i: "system_property_find P (props st) name = Some i" and v: "length v < PROP_VALUE_MAX P"
    and st': "props st' = upd_nth i (\<lambda>p. update_prop_info p v (length v)) (props st)"
      "pa_toc st' = pa_toc st" "pa_mapped st' = pa_mapped st"
  shows "props_ok P st' \<and> pmap st' = (pmap st)(name \<mapsto> v)"
proof -
  let ?f = "\<lambda>p. update_prop_info p v (length v)"
  note fi = found_entry [OF ok(1) i]
  have names: "map pi_name (props st') = map pi_name (props st)"
    by (simp add: st'(1) map_upd_nth_same)
  then have "pi_name (props st' ! j) = pi_name (props st ! j)" if "j < length (props st)" for j
    using that by (metis length_map nth_map)
  then have toc: "map (\<lambda>j. toc_entry P j (props st' ! j)) [0..<length (props st')] =
      map (\<lambda>j. toc_entry P j (props st ! j)) [0..<length (props st)]"
    by (simp add: st'(1) toc_entry_def)
  have "\<forall>p \<in> set (props st'). entry_ok P p" unfolding st'(1)
    by (rule upd_nth_all) (use ok v entry_ok_update in \<open>auto simp: props_ok_def sizes_ok_def\<close>)
  moreover have "pmap st' = (pmap st)(name \<mapsto> v)"
    using map_of_upd_nth [of pi_name "props st" i ?f pi_value] ok(3) fi
    by (simp add: pmap_def st'(1) props_ok_def)
  moreover have "length (props st') \<le> PA_COUNT_MAX" using ok(3) by (simp add: props_ok_def st'(1))
  moreover have "distinct (map pi_name (props st'))" unfolding names using ok(3) by (simp add: props_ok_def)
  moreover have "pa_mapped st' \<or> props st' = []" using ok(3) by (auto simp: props_ok_def st' upd_nth_def)
  ultimately show ?thesis unfolding props_ok_def toc using ok(3) by (simp add: props_ok_def st'(2))
qed

lemma store_new:
  assumes ok: "find_ok P" "sizes_ok P" "props_ok P st"
    and i: "system_property_find P (props st) name = None"
    and nv: "0 < length name" "length name < PROP_NAME_MAX P" "length v < PROP_VALUE_MAX P"
    and room: "length (props st) \<noteq> PA_COUNT_MAX" "pa_mapped st"
    and st': "props st' = props st @ [p]" "pa_toc st' = pa_toc st @ [toc_entry P (length (props st)) p]"
      "pa_mapped st' = pa_mapped st"
    and p: "p = \<lparr>pi_name = name, pi_serial = push_bit 24 (of_nat (length v)), pi_value = v\<rparr>"
  shows "props_ok P st' \<and> pmap st' = (pmap st)(name \<mapsto> v)"
proof -
  note nf = not_found [OF ok(1) i]
  have "entry_ok P p" unfolding p
    by (rule entry_ok_new) (use nv ok(2) in \<open>auto simp: sizes_ok_def\<close>)
  moreover have "map (\<lambda>j. toc_entry P j ((props st @ [p]) ! j)) [0..<length (props st)] =
      map (\<lambda>j. toc_entry P j (props st ! j)) [0..<length (props st)]"
    by (simp add: nth_append)
  ultimately have "props_ok P st'"
    using ok(3) nf room by (auto simp: props_ok_def st' p)
  moreover have "pmap st' = (pmap st)(name \<mapsto> v)"
    using map_of_snoc [of name "map (\<lambda>p. (pi_name p, pi_value p)) (props st)" v] nf
    by (simp add: pmap_def st'(1) p image_image del: map_of_append)
  ultimately show ?thesis by simp
qed

lemma store_effect:
  assumes ok: "find_ok P" "sizes_ok P" "props_ok P st" "pa_mapped st"
    and st: "property_store P name v st = Some st'"
  shows "props_ok P st' \<and> pa_mapped st' \<and> pmap st' = (pmap st)(name \<mapsto> v) \<and>
    (has_prefix ''ro.'' name \<longrightarrow> pmap st name = None) \<and>
    0 < length name \<and> length name < PROP_NAME_MAX P \<and> length v < PROP_VALUE_MAX P"
proof -
  have nv: "0 < length name" "length name < PROP_NAME_MAX P" "length v < PROP_VALUE_MAX P"
    using st by (auto simp: property_store_def Let_def split: if_splits)
  show ?thesis
  proof (cases "system_property_find P (props st) name")
    case (Some i)
    have "props st' = upd_nth i (\<lambda>p. update_prop_info p v (length v)) (props st)"
      "pa_toc st' = pa_toc st" "pa_mapped st' = pa_mapped st" "\<not> has_prefix ''ro.'' name"
      using st Some by (auto simp: property_store_def Let_def perform_def sys_def split: if_splits)
    with store_update [OF ok(1-3) Some nv(3)] nv ok(4) show ?thesis by simp
  next
    case None
    let ?p = "\<lparr>pi_name = name, pi_serial = push_bit 24 (of_nat (length v)), pi_value = v\<rparr>"
    have "props st' = props st @ [?p]" "pa_toc st' = pa_toc st @ [toc_entry P (length (props st)) ?p]"
      "pa_mapped st' = pa_mapped st" "length (props st) \<noteq> PA_COUNT_MAX"
      using st None ok(4)
      by (auto simp: property_store_def toc_entry_def Let_def perform_def sys_def split: if_splits)
    moreover have "pmap st name = None"
      using not_found [OF ok(1) None] by (auto simp: pmap_def map_of_eq_None_iff image_image)
    ultimately show ?thesis using store_new [OF ok(1-3) None nv _ ok(4)] nv ok(4) by simp
  qed
qed

subsection \<open>What a write does to the map\<close>

lemma changed_area [simp]:
  "props (property_changed name v st) = props st" "pa_toc (property_changed name v st) = pa_toc st"
  "pa_mapped (property_changed name v st) = pa_mapped st"
  by (simp_all add: property_changed_def queue_property_triggers_eq fold_add_eq)

lemma changed_map [simp]:
  "pmap (property_changed name v st) = pmap st" "props_ok P (property_changed name v st) = props_ok P st"
  by (simp_all add: pmap_def props_ok_def)

lemma persist_map [simp]:
  "pmap (write_persistent_property P name v st) = pmap st"
  "props_ok Q (write_persistent_property P name v st) = props_ok Q st"
  "pa_mapped (write_persistent_property P name v st) = pa_mapped st"
  by (simp_all add: write_persistent_property_def run_simps)

text \<open>
  The contract of \<open>property_set\<close> on the map: a refused write changes nothing; an accepted one
  changes the property, and \<open>net.change\<close> when the name begins with \<open>net.\<close>.
\<close>

lemma property_set_map:
  assumes ok: "find_ok P" "sizes_ok P" "props_ok P st" "pa_mapped st"
    and set: "property_set P name v st = (r, st')"
  shows "props_ok P st' \<and> pa_mapped st' \<and>
    (r = - 1 \<and> st' = st \<or>
     r = 0 \<and> (has_prefix ''ro.'' name \<longrightarrow> pmap st name = None) \<and>
     (pmap st' = (pmap st)(name \<mapsto> v) \<or>
      has_prefix ''net.'' name \<and> name \<noteq> ''net.change'' \<and>
      pmap st' = (pmap st)(name \<mapsto> v, ''net.change'' \<mapsto> name)))"
proof (cases "property_store P name v st")
  case None
  then show ?thesis using set ok by (simp add: property_set.simps [of P name])
next
  case (Some st1)
  note e1 = store_effect [OF ok Some]
  show ?thesis
  proof (cases "has_prefix ''net.'' name \<and> name \<noteq> ''net.change''")
    case False
    with set Some e1 show ?thesis by (auto simp: property_set.simps [of P name] split: if_splits)
  next
    case True
    show ?thesis
    proof (cases "property_store P ''net.change'' name st1")
      case None
      with set Some True e1 show ?thesis
        by (auto simp: property_set.simps [of P name] property_set.simps [of P "''net.change''"])
    next
      case (Some st2)
      from e1 have "props_ok P st1" "pa_mapped st1" by simp_all
      note e2 = store_effect [OF ok(1,2) this Some]
      show ?thesis using set \<open>property_store P name v st = Some st1\<close> Some True e1 e2
        by (auto simp: property_set.simps [of P name] property_set.simps [of P "''net.change''"] has_prefix_def)
    qed
  qed
qed

lemma find_index_map_of:
  "map_option (\<lambda>i. h (xs ! i)) (find_index (\<lambda>x. f x = k) xs) = map_of (map (\<lambda>x. (f x, h x)) xs) k"
  by (induction xs) (auto simp: option.map_comp comp_def)

lemma pmap_bounds: "props_ok P st \<Longrightarrow> pmap st name = Some v \<Longrightarrow>
    0 < length name \<and> length name < PROP_NAME_MAX P \<and> length v < PROP_VALUE_MAX P"
  by (fastforce simp: pmap_def props_ok_def entry_ok_def dest!: map_of_SomeD)

lemma property_get_map:
  assumes "find_ok P" "props_ok P st"
  shows "property_get P name st = pmap st name"
proof (cases "PROP_NAME_MAX P \<le> length name")
  case True
  then have "pmap st name = None" using pmap_bounds [OF assms(2), of name] by (cases "pmap st name") auto
  with True show ?thesis by (simp add: property_get_def)
next
  case False
  with assms(1) show ?thesis
    by (simp add: property_get_def find_ok_def pmap_def find_index_map_of)
qed

subsection \<open>What every routine keeps of the area\<close>

text \<open>
  \<open>area_step P st st'\<close>: the area stays well formed, no property disappears, and a property whose
  name begins with \<open>ro.\<close> keeps its value.
\<close>

definition area_step :: "platform \<Rightarrow> init_st \<Rightarrow> init_st \<Rightarrow> bool" where
  "area_step P st st' \<longleftrightarrow>
     (props_ok P st \<and> pa_mapped st \<longrightarrow> props_ok P st' \<and> pa_mapped st' \<and> dom (pmap st) \<subseteq> dom (pmap st') \<and>
        (\<forall>name v. has_prefix ''ro.'' name \<longrightarrow> pmap st name = Some v \<longrightarrow> pmap st' name = Some v))"

named_theorems area_intros "routines that keep the property area"

lemma area_step_refl [simp, area_intros]: "area_step P st st"
  by (simp add: area_step_def)

lemma area_step_trans: "area_step P st st' \<Longrightarrow> area_step P st' st'' \<Longrightarrow> area_step P st st''"
  unfolding area_step_def by (meson order_trans)

lemma area_step_same:
  "props st' = props st \<Longrightarrow> pa_toc st' = pa_toc st \<Longrightarrow> pa_mapped st' = pa_mapped st \<Longrightarrow> area_step P st st'"
  by (simp add: area_step_def props_ok_def pmap_def)

lemma area_step_traced [area_intros]: "traced st st' \<Longrightarrow> area_step P st st'"
  by (rule area_step_same) (simp_all add: traced_frame)

lemma area_step_perform [simp, area_intros]: "area_step P st (perform Q c st)"
  by (rule area_step_traced) simp

lemma area_step_set [area_intros]:
  assumes "find_ok P" "sizes_ok P"
  shows "area_step P st (snd (property_set P name v st))"
proof -
  obtain r st' where set: "property_set P name v st = (r, st')" by force
  show ?thesis
    using property_set_map [OF assms _ _ set] set
    by (fastforce simp: area_step_def has_prefix_def)
qed

subsection \<open>Properties of the area\<close>

definition prop_put :: "platform \<Rightarrow> string \<Rightarrow> string \<Rightarrow> init_st \<Rightarrow> init_st option" where
  "prop_put P name v st = (case property_set P name v st of (r, st') \<Rightarrow> if r = 0 then Some st' else None)"

definition area_inv :: "platform \<Rightarrow> init_st \<Rightarrow> bool" where
  "area_inv P st \<longleftrightarrow> find_ok P \<and> sizes_ok P \<and> props_ok P st \<and> pa_mapped st"

lemma prop_put_map:
  assumes "area_inv P st" "prop_put P name v st = Some st'"
  shows "area_inv P st' \<and> (\<forall>k. k \<noteq> ''net.change'' \<or> k = name \<longrightarrow>
    property_get P k st' = (if k = name then Some v else property_get P k st))"
proof -
  have ok: "find_ok P" "sizes_ok P" "props_ok P st" "pa_mapped st" using assms(1) by (simp_all add: area_inv_def)
  from assms(2) have "property_set P name v st = (0, st')"
    by (auto simp: prop_put_def split: prod.splits if_splits)
  from property_set_map [OF ok this] ok show ?thesis
    by (auto simp: area_inv_def property_get_map)
qed

interpretation parea: kv_store "prop_put P" "property_get P" "area_inv P" "\<lambda>k. k \<noteq> ''net.change''" "\<lambda>_. True"
  for P :: platform
  by unfold_locales (use prop_put_map in auto)

text \<open>
  C2.  The property service is a map: after any sequence of accepted \<open>property_set\<close> calls,
  \<open>property_get\<close> returns for every name but \<open>net.change\<close> the value of the last call for it, and
  for a name that was not set the value it had before.
\<close>

theorem property_area_is_map:
  assumes "area_inv P st" "\<forall>(k, v) \<in> set kvs. k \<noteq> ''net.change''"
    and "put_all (prop_put P) kvs st = Some st'" "name \<noteq> ''net.change''"
  shows "property_get P name st' =
    (case map_of (rev kvs) name of Some v \<Rightarrow> Some v | None \<Rightarrow> property_get P name st)"
  using parea.get_put_all [OF assms(1) _ assms(3,4)] assms(2) by auto

text \<open>The area that init creates on the example platform.\<close>

definition example_area :: init_st where
  "example_area = property_init example_platform init_st0"

lemma example_area_inv: "area_inv example_platform example_area"
proof -
  have "props example_area = []" "pa_toc example_area = []" "pa_mapped example_area" by code_simp+
  then show ?thesis
    by (simp add: area_inv_def example_find_ok example_sizes_ok props_ok_def)
qed

theorem property_area_is_map_witness:
  "\<exists>st'. put_all (prop_put example_platform)
       [(''sys.a'', ''1''), (''net.b'', ''2''), (''sys.a'', ''3'')] example_area = Some st' \<and>
     property_get example_platform ''sys.a'' st' = Some ''3''"
proof -
  let ?kvs = "[(''sys.a'', ''1''), (''net.b'', ''2''), (''sys.a'', ''3'')]"
  have "put_all (prop_put example_platform) ?kvs example_area \<noteq> None" by code_simp
  then obtain st' where st': "put_all (prop_put example_platform) ?kvs example_area = Some st'" by blast
  have "property_get example_platform ''sys.a'' st' = Some ''3''"
    using property_area_is_map [OF example_area_inv _ st', of "''sys.a''"] by simp
  with st' show ?thesis by blast
qed

text \<open>
  C13.  A property whose name begins with \<open>ro.\<close> is never modified once it is set, whatever is set
  afterwards.
\<close>

theorem ro_property_never_modified:
  assumes "area_inv P st" "has_prefix ''ro.'' name" "property_get P name st = Some v"
  shows "property_get P name (snd (property_set P name' v' st)) = Some v"
proof -
  have ok: "find_ok P" "sizes_ok P" "props_ok P st" "pa_mapped st" using assms(1) by (simp_all add: area_inv_def)
  have "area_step P st (snd (property_set P name' v' st))" by (rule area_step_set [OF ok(1,2)])
  with ok assms(2,3) show ?thesis by (simp add: area_step_def property_get_map)
qed

theorem ro_property_never_modified_witness:
  "\<exists>st. area_inv example_platform st \<and> property_get example_platform ''ro.serialno'' st = Some ''42'' \<and>
     property_get example_platform ''ro.serialno''
       (snd (property_set example_platform ''ro.serialno'' ''43'' st)) = Some ''42''"
proof -
  let ?st = "snd (property_set example_platform ''ro.serialno'' ''42'' example_area)"
  have p: "prop_put example_platform ''ro.serialno'' ''42'' example_area = Some ?st" by code_simp
  have inv: "area_inv example_platform ?st" using prop_put_map [OF example_area_inv p] by simp
  have "property_get example_platform ''ro.serialno'' ?st = Some ''42''" by code_simp
  with ro_property_never_modified [OF inv _ this] inv show ?thesis by (force simp: has_prefix_def)
qed

text \<open>
  C20.  When \<open>property_set\<close> fails: exactly for an empty or too long name, a too long value, a set
  \<open>ro.\<close> property, and a new property when all 372 entries are taken.  A failed call changes
  nothing, and makes no system call.
\<close>

theorem property_set_fails_iff:
  assumes "area_inv P st"
  shows "(fst (property_set P name v st) \<noteq> 0 \<longleftrightarrow>
      name = [] \<or> PROP_NAME_MAX P \<le> length name \<or> PROP_VALUE_MAX P \<le> length v \<or>
      has_prefix ''ro.'' name \<and> property_get P name st \<noteq> None \<or>
      property_get P name st = None \<and> length (props st) = PA_COUNT_MAX) \<and>
    (fst (property_set P name v st) \<noteq> 0 \<longrightarrow> property_set P name v st = (- 1, st))"
proof -
  have f: "fst (property_set P name v st) \<noteq> 0 \<longleftrightarrow> property_store P name v st = None"
    by (auto simp: property_set.simps [of P name] split: option.splits)
  have g: "length name < PROP_NAME_MAX P \<Longrightarrow>
      property_get P name st = None \<longleftrightarrow> system_property_find P (props st) name = None"
    by (simp add: property_get_def)
  have "property_store P name v st = None \<longleftrightarrow>
      name = [] \<or> PROP_NAME_MAX P \<le> length name \<or> PROP_VALUE_MAX P \<le> length v \<or>
      has_prefix ''ro.'' name \<and> property_get P name st \<noteq> None \<or>
      property_get P name st = None \<and> length (props st) = PA_COUNT_MAX"
    using g by (auto simp: property_store_def Let_def not_le less_Suc_eq split: option.splits if_splits)
  moreover have "property_store P name v st = None \<Longrightarrow> property_set P name v st = (- 1, st)"
    by (simp add: property_set.simps [of P name])
  ultimately show ?thesis unfolding f by blast
qed

theorem property_set_fails_iff_witness:
  "area_inv example_platform example_area \<and>
   fst (property_set example_platform (replicate 32 CHR ''x'') ''1'' example_area) \<noteq> 0 \<and>
   property_set example_platform (replicate 32 CHR ''x'') ''1'' example_area = (- 1, example_area)"
proof -
  have "fst (property_set example_platform (replicate 32 CHR ''x'') ''1'' example_area) \<noteq> 0"
    by code_simp
  with property_set_fails_iff [OF example_area_inv, of "replicate 32 CHR ''x''" "''1''"]
  show ?thesis by (simp add: example_area_inv)
qed

lemma take_low: "take_bit 24 (push_bit 24 a OR (w AND 0xffffff) :: 32 word) = take_bit 24 w"
proof -
  have m: "(0xffffff :: 32 word) = mask 24" by (simp add: mask_eq_exp_minus_1)
  show ?thesis unfolding m by (rule bit_word_eqI) (auto simp: bit_simps)
qed

text \<open>
  The protocol with the readers of an entry: an update leaves the serial number even, changes
  it, and puts the length of the new value into its top byte.
\<close>

lemma update_prop_info_serial:
  assumes "even (pi_serial p)" "length v < 256"
  shows "pi_value (update_prop_info p v (length v)) = v \<and>
    even (pi_serial (update_prop_info p v (length v))) \<and>
    pi_serial (update_prop_info p v (length v)) \<noteq> pi_serial p \<and>
    drop_bit 24 (pi_serial (update_prop_info p v (length v))) = of_nat (length v)"
proof -
  let ?s = "pi_serial p" and ?n = "pi_serial (update_prop_info p v (length v))"
  have or1: "?s OR 1 = ?s + 1" using assms(1) by (simp add: or_one_eq)
  have low: "take_bit 24 ?n = take_bit 24 (?s + 2)"
    using take_low [of "of_nat (length v)" "?s + 2"]
    by (simp add: update_prop_info_def Let_def or1 add.assoc)
  have "?n \<noteq> ?s"
  proof
    assume "?n = ?s"
    then have "take_bit 24 (?s + 2) = take_bit 24 ?s" using low by simp
    then have "take_bit 24 (uint (?s + 2)) = take_bit 24 (uint ?s)"
      by (simp only: flip: unsigned_take_bit_eq)
    moreover have "uint (?s + 2) = take_bit 32 (uint ?s + 2)"
      by (simp add: uint_word_ariths take_bit_eq_mod)
    ultimately have "take_bit 24 (uint ?s + 2) = take_bit 24 (uint ?s)" by simp
    then show False by (simp add: take_bit_eq_mod mod_eq_dvd_iff)
  qed
  then show ?thesis
    using serial_word(1) [OF assms(2)] even_after_update
    by (simp add: update_prop_info_def Let_def even_push_bit_or)
qed

lemma update_prop_info_serial_witness:
  "let p = \<lparr>pi_name = ''a'', pi_serial = 0, pi_value = []\<rparr> in
   even (pi_serial p) \<and> pi_serial (update_prop_info p ''on'' (length ''on'')) \<noteq> pi_serial p"
  using update_prop_info_serial [of "\<lparr>pi_name = ''a'', pi_serial = 0, pi_value = []\<rparr>" "''on''"]
  by simp

lemma toc_word:
  assumes "a < 256" "0 \<le> x" "x < 2 ^ 24"
  shows "(push_bit 24 (of_nat a) OR of_int x :: 32 word) AND 0xffffff = of_int x"
    and "drop_bit 24 (push_bit 24 (of_nat a) OR of_int x :: 32 word) = of_nat a"
proof -
  have m: "(0xffffff :: 32 word) = mask 24" by (simp add: mask_eq_exp_minus_1)
  have x: "(of_int x :: 32 word) = of_int x AND 0xffffff"
    using assms(2,3) unfolding m by (simp add: take_bit_of_int take_bit_int_eq_self flip: take_bit_eq_mask)
  show "(push_bit 24 (of_nat a) OR of_int x :: 32 word) AND 0xffffff = of_int x"
    by (subst (2) x, rule bit_word_eqI) (auto simp: bit_simps m)
  show "drop_bit 24 (push_bit 24 (of_nat a) OR of_int x :: 32 word) = of_nat a"
    by (subst x, rule serial_word(1) [OF assms(1)])
qed

text \<open>
  The shared memory is laid out as its readers expect: the table of contents gives for each
  property the length of its name and the offset of its entry, the entries do not overlap, and
  the last one ends within the 49152 bytes of the area.
\<close>

lemma property_area_layout:
  assumes "area_inv P st" "i < length (props st)"
  shows "uint (pa_toc st ! i AND 0xffffff) = PA_INFO_START + SIZEOF_PROP_INFO P * int i \<and>
    PA_INFO_START + SIZEOF_PROP_INFO P * int i + SIZEOF_PROP_INFO P \<le> PA_SIZE \<and>
    drop_bit 24 (pa_toc st ! i) = of_nat (length (pi_name (props st ! i)))"
proof -
  let ?x = "PA_INFO_START + SIZEOF_PROP_INFO P * int i"
  have s: "SIZEOF_PROP_INFO P = 128" using assms(1) by (simp add: area_inv_def sizes_ok_def)
  have i: "i < 372" using assms by (simp add: area_inv_def props_ok_def PA_COUNT_MAX_def)
  have "entry_ok P (props st ! i)" using assms by (simp add: area_inv_def props_ok_def)
  then have n: "length (pi_name (props st ! i)) < 256"
    using assms(1) by (simp add: entry_ok_def area_inv_def sizes_ok_def)
  have x: "0 \<le> ?x" "?x < 2 ^ 24" using s i by (simp_all add: PA_INFO_START_def)
  have t: "pa_toc st ! i = push_bit 24 (of_nat (length (pi_name (props st ! i)))) OR of_int ?x"
    using assms by (simp add: area_inv_def props_ok_def toc_entry_def)
  have "uint (of_int y :: 32 word) = y" if "0 \<le> y" "y < 2 ^ 24" for y
    using that by (simp add: unsigned_of_int take_bit_int_eq_self)
  from this [OF x] have "uint (of_int ?x :: 32 word) = ?x" .
  then show ?thesis
    unfolding t toc_word [OF n x] using s i by (simp add: PA_INFO_START_def PA_SIZE_def)
qed

lemma property_area_layout_witness:
  "\<exists>st. area_inv example_platform st \<and> length (props st) = 1 \<and>
     uint (pa_toc st ! 0 AND 0xffffff) = 1536"
proof -
  let ?st = "snd (property_set example_platform ''sys.a'' ''1'' example_area)"
  have p: "prop_put example_platform ''sys.a'' ''1'' example_area = Some ?st" by code_simp
  have inv: "area_inv example_platform ?st" using prop_put_map [OF example_area_inv p] by simp
  have l: "length (props ?st) = 1" by code_simp
  with property_area_layout [OF inv, of 0] inv show ?thesis
    by (intro exI [of _ ?st]) (simp add: PA_INFO_START_def)
qed

subsection \<open>Triggers\<close>

lemma store_queue: "property_store P name v st = Some st' \<Longrightarrow>
    action_queue st' = action_queue st \<and> action_list st' = action_list st \<and>
    property_triggers_enabled st' = property_triggers_enabled st"
  by (auto simp: property_store_def Let_def perform_def sys_def split: if_splits option.splits)

lemma changed_queue:
  "action_queue (property_changed name v st) = action_queue st @
     (if property_triggers_enabled st then select_actions (property_trigger_matches name v) st else [])"
  by (simp add: property_changed_def queue_property_triggers_eq fold_add_eq)

lemma set_net_change_queue:
  "action_queue (snd (property_set P ''net.change'' v st)) = action_queue st \<and>
   action_list (snd (property_set P ''net.change'' v st)) = action_list st \<and>
   property_triggers_enabled (snd (property_set P ''net.change'' v st)) = property_triggers_enabled st"
  by (auto simp: property_set.simps [of P "''net.change''"] has_prefix_def dest: store_queue split: option.splits)

lemma traced_select: "traced st st' \<Longrightarrow> select_actions p st' = select_actions p st"
  by (simp add: select_actions_def traced_frame)

lemma select_cong: "action_list st' = action_list st \<Longrightarrow> select_actions p st' = select_actions p st"
  by (simp add: select_actions_def)

text \<open>
  Which actions a write queues: once the triggers are enabled, a successful \<open>property_set\<close>
  queues the actions named \<open>property:\<close>, the name, an equals sign, and the value or a star, in the
  order of their definition, and nothing else.  A write of \<open>net.change\<close> queues nothing.
\<close>

lemma property_set_queues:
  "action_queue (snd (property_set P name v st)) = action_queue st @
     (if fst (property_set P name v st) = 0 \<and> name \<noteq> ''net.change'' \<and> property_triggers_enabled st
      then filter (\<lambda>i. act_name (action_list st ! i) \<in>
                {''property:'' @ name @ ''='' @ v, ''property:'' @ name @ ''=*''})
             [0..<length (action_list st)]
      else [])"
proof (cases "property_store P name v st")
  case None
  then show ?thesis by (simp add: property_set.simps [of P name])
next
  case (Some st1)
  note q1 = store_queue [OF Some]
  have f: "fst (property_set P name v st) = 0"
    using Some by (simp add: property_set.simps [of P name])
  have sel: "select_actions (property_trigger_matches name v) s =
      filter (\<lambda>i. act_name (action_list st ! i) \<in>
                {''property:'' @ name @ ''='' @ v, ''property:'' @ name @ ''=*''})
             [0..<length (action_list st)]" if "action_list s = action_list st" for s
    using that by (simp add: select_actions_def property_trigger_matches_iff)
  show ?thesis
  proof (cases "name = ''net.change''")
    case True
    then show ?thesis using set_net_change_queue [of P v st] by simp
  next
    case False
    note w = traced_frame [OF traced_write_persistent, of P name v st1]
    show ?thesis
      using False f q1 Some set_net_change_queue [of P name st1] w
      by (simp add: property_set.simps [of P name] changed_queue sel)
  qed
qed

text \<open>
  The check at boot: every property trigger whose property already has the value it names.
\<close>

definition holds_now :: "platform \<Rightarrow> init_st \<Rightarrow> action \<Rightarrow> bool" where
  "holds_now P st act \<longleftrightarrow> (\<exists>name v. act_name act = ''property:'' @ name @ ''='' @ v \<and>
     CHR ''='' \<notin> set name \<and> (\<exists>cur. property_get P name st = Some cur \<and> (v = cur \<or> v = ''*'')))"

definition trigger_holds :: "platform \<Rightarrow> init_st \<Rightarrow> action \<Rightarrow> bool" where
  "trigger_holds P st act \<longleftrightarrow>
     has_prefix ''property:'' (act_name act) \<and>
     (case split_first (CHR ''='') (drop (length ''property:'') (act_name act)) of
        None \<Rightarrow> False
      | Some (prop_name, test) \<Rightarrow> length prop_name \<le> PROP_NAME_MAX P \<and>
          (case property_get P prop_name st of None \<Rightarrow> False | Some cur \<Rightarrow> test = cur \<or> test = ''*''))"

lemma trigger_holds_iff: "trigger_holds P st act \<longleftrightarrow> holds_now P st act"
proof
  assume "trigger_holds P st act"
  then show "holds_now P st act"
    by (fastforce simp: trigger_holds_def holds_now_def has_prefix_iff split: option.splits prod.splits
             dest!: split_first_SomeD)
next
  assume "holds_now P st act"
  then obtain name v cur where n: "act_name act = ''property:'' @ name @ ''='' @ v" "CHR ''='' \<notin> set name"
    "property_get P name st = Some cur" "v = cur \<or> v = ''*''" by (auto simp: holds_now_def)
  then have "length name \<le> PROP_NAME_MAX P" by (auto simp: property_get_def split: if_splits)
  with n show "trigger_holds P st act" by (auto simp: trigger_holds_def has_prefix_def split_first_append)
qed

lemma queue_all_eq:
  "queue_all_property_triggers P st = fold action_add_queue_tail (select_actions (holds_now P st) st) st"
proof -
  let ?body = "\<lambda>i act s. if trigger_holds P s act then action_add_queue_tail i s else s"
  have g: "trigger_holds P s act = holds_now P st act" if "props s = props st" for s act
    using that by (simp add: trigger_holds_iff holds_now_def property_get_def)
  have "queue_all_property_triggers P st = list_for_each_action ?body st"
    unfolding queue_all_property_triggers_def
    by (rule arg_cong2 [of _ _ _ _ list_for_each_action])
       (auto simp: fun_eq_iff trigger_holds_def not_le split: option.splits)
  moreover have "fold (\<lambda>i s. ?body i (action_list s ! i) s) is s =
      fold action_add_queue_tail (filter (\<lambda>i. holds_now P st (action_list st ! i)) is) s"
    if "props s = props st" "action_list s = action_list st" for "is" s
    using that by (induction "is" arbitrary: s) (auto simp: g)
  ultimately show ?thesis by (simp add: list_for_each_action_def select_actions_def)
qed

subsection \<open>Loading properties\<close>

definition print_property :: "string \<times> string \<Rightarrow> string" where
  "print_property = (\<lambda>(key, v). key @ ''='' @ v @ [NL])"

definition trimmed :: "string \<Rightarrow> bool" where
  "trimmed s \<longleftrightarrow> s = [] \<or> \<not> isspace (hd s) \<and> \<not> isspace (last s)"

definition plain_property :: "string \<times> string \<Rightarrow> bool" where
  "plain_property = (\<lambda>(key, v). trimmed key \<and> trimmed v \<and> NL \<notin> set key \<and> NL \<notin> set v \<and>
     CHR ''='' \<notin> set key \<and> take 1 key \<noteq> [HASH])"

lemma trim_trimmed:
  assumes "trimmed s"
  shows "dropWhile isspace s = s" "rtrim s = s"
proof -
  show "dropWhile isspace s = s" using assms by (cases s) (auto simp: trimmed_def)
  show "rtrim s = s"
    using assms by (cases s rule: rev_cases) (auto simp: trimmed_def rtrim_def)
qed

lemma parse_property_print:
  "plain_property (key, v) \<Longrightarrow> parse_property_line (key @ ''='' @ v) = Some (key, v)"
  by (simp add: plain_property_def parse_property_line_def split_first_append trim_trimmed)

text \<open>
  A property file written line by line as key, equals sign, value, is loaded as the
  corresponding sequence of \<open>property_set\<close> calls.
\<close>

lemma load_properties_roundtrip:
  assumes "\<forall>kv \<in> set kvs. plain_property kv"
  shows "load_properties P (concat (map print_property kvs)) st =
    fold (\<lambda>(key, v) st. snd (property_set P key v st)) kvs st"
  using assms
proof (induction kvs arbitrary: st)
  case Nil
  show ?case by (simp add: load_properties.simps [of P "[]"])
next
  case (Cons kv kvs)
  obtain key v where kv: "kv = (key, v)" by force
  with Cons.prems have p: "plain_property (key, v)" by simp
  have "split_first NL (concat (map print_property (kv # kvs))) =
      Some (key @ ''='' @ v, concat (map print_property kvs))"
    using p split_first_append [of NL "key @ ''='' @ v" "concat (map print_property kvs)"]
    by (simp add: kv print_property_def plain_property_def)
  with Cons kv parse_property_print [OF p] show ?case
    by (subst load_properties.simps) simp
qed

lemma load_properties_roundtrip_witness:
  "plain_property (''ro.a'', ''1'') \<and> plain_property (''sys.b'', ''x y'') \<and>
   load_properties example_platform (concat (map print_property [(''ro.a'', ''1''), (''sys.b'', ''x y'')])) example_area =
   fold (\<lambda>(key, v) st. snd (property_set example_platform key v st))
     [(''ro.a'', ''1''), (''sys.b'', ''x y'')] example_area"
proof -
  have all: "\<forall>kv \<in> set [(''ro.a'', ''1''), (''sys.b'', ''x y'')]. plain_property kv" by code_simp
  then have "plain_property (''ro.a'', ''1'') \<and> plain_property (''sys.b'', ''x y'')" by simp
  with load_properties_roundtrip [OF all] show ?thesis by blast
qed

subsection \<open>What the loaders keep\<close>

text \<open>
  The routines that load properties and start the service only make system calls, set properties
  and set two variables.  A predicate on states that these keep is kept by all of them.
\<close>

locale property_client =
  fixes P :: platform and R :: "init_st \<Rightarrow> bool"
  assumes after_traced: "R s \<Longrightarrow> traced s s' \<Longrightarrow> R s'"
    and after_set: "R s \<Longrightarrow> R (snd (property_set P name v s))"
    and after_loaded: "R s \<Longrightarrow> R (s\<lparr>persistent_properties_loaded := b\<rparr>)"
    and after_set_fd: "R s \<Longrightarrow> R (s\<lparr>property_set_fd := fd\<rparr>)"
begin

lemma after_perform: "R s \<Longrightarrow> R (perform P c s)"
  by (erule after_traced) (rule traced_perform)

lemma after_load_properties: "R s \<Longrightarrow> R (load_properties P sol s)"
proof (induction sol arbitrary: s rule: length_induct)
  case (1 sol)
  show ?case
  proof (cases "split_first NL sol")
    case None
    then show ?thesis using 1(2) by (simp add: load_properties.simps [of P sol])
  next
    case (Some p)
    obtain line eol where p: "p = (line, eol)" by force
    have "R (load_properties P eol s')" if "R s'" for s'
      using 1(1) Some p that by (auto dest: split_first_shorter)
    then show ?thesis
      using after_set [OF 1(2)] 1(2) by (simp add: load_properties.simps [of P sol] Some p split: option.splits)
  qed
qed

lemma after_load_from_file: "R s \<Longrightarrow> R (load_properties_from_file P fn s)"
  using after_traced [OF _ traced_read_file [of s P fn]] after_load_properties
  by (auto simp: load_properties_from_file_def split: prod.splits option.splits)

lemma after_load_entry: "R s \<Longrightarrow> R (load_persistent_entry P d s)"
  by (simp add: load_persistent_entry_def run_simps after_perform after_set)

lemma after_readdir_loop:
  assumes "readdir_loop P dir s = Some s'"
  shows "R s \<Longrightarrow> R s'"
proof -
  have "fst ((P, dir), s) = (P, dir) \<longrightarrow> R (snd ((P, dir), s)) \<longrightarrow> R s'"
  proof (rule readdir_loop.raw_induct [where Pa = "\<lambda>x y. fst x = (P, dir) \<longrightarrow> R (snd x) \<longrightarrow> R y", OF _ assms], goal_cases)
    case (1 loop Q d s s')
    then show ?case
      using 1(1) [of Q d "load_persistent_entry Q (an_data (os Q (trace s) (Sys_readdir d))) (perform Q (Sys_readdir d) s)" s']
      by (auto simp: run_simps after_perform after_load_entry split: if_splits)
  qed
  then show "R s \<Longrightarrow> R s'" by simp
qed

lemma after_load_persistent: "load_persistent_properties P s = Some s' \<Longrightarrow> R s \<Longrightarrow> R s'"
  by (auto simp: load_persistent_properties_def run_simps split: if_splits
           intro!: after_loaded after_perform dest!: after_readdir_loop)

lemma after_load_persist_props: "load_persist_props P s = Some s' \<Longrightarrow> R s \<Longrightarrow> R s'"
  by (auto simp: load_persist_props_def Let_def split: if_splits
           intro: after_load_from_file dest!: after_load_persistent)

lemma after_start_property_service:
  assumes "start_property_service P s = Some s'" "R s"
  shows "R s'"
proof -
  define s1 where "s1 = load_properties_from_file P (PROP_PATH_SYSTEM_DEFAULT P)
    (load_properties_from_file P (PROP_PATH_SYSTEM_BUILD P) s)"
  define s2 where "s2 = (if allow_local_prop_override P
    then load_properties_from_file P (PROP_PATH_LOCAL_OVERRIDE P) s1 else s1)"
  have "R s2" using assms(2) by (simp add: s1_def s2_def after_load_from_file)
  note e = assms(1) [unfolded start_property_service_def Let_def, folded s1_def, folded s2_def]
  obtain s3 where s3: "load_persistent_properties P s2 = Some s3" using e by (auto simp: bind_eq_Some_conv)
  obtain fd s4 where s4: "create_socket P (PROP_SERVICE_NAME P) SOCK_STREAM 0x1B6 0 0 s3 = (fd, s4)" by force
  have "R s4" using after_traced [OF after_load_persistent [OF s3 \<open>R s2\<close>] traced_create_socket] s4 by (metis snd_conv)
  moreover have "s' = (if fd < 0 then s4
      else (perform P (Sys_listen fd 8) (perform P (Sys_fcntl fd ''F_SETFL O_NONBLOCK'')
        (perform P (Sys_fcntl fd ''F_SETFD FD_CLOEXEC'') s4)))\<lparr>property_set_fd := fd\<rparr>)"
    using e s3 s4 by simp
  ultimately show ?thesis by (simp add: after_set_fd after_perform)
qed

end

end
