(* ===== verification/Expand.thy ===== *)
theory Expand
  imports Properties
begin

text \<open>
  \<open>push_chars\<close> and \<open>expand_props\<close> of \<open>init_parser.c\<close>: the expansion of property references in
  the arguments of commands and imports, into a buffer of fixed size.  The buffer is a list of
  characters; a write outside it makes the result \<open>None\<close>.
\<close>

subsection \<open>The routine\<close>

definition memcpy_at :: "char list \<Rightarrow> nat \<Rightarrow> string \<Rightarrow> char list option" where
  "memcpy_at buf d s =
     (if d + length s \<le> length buf then Some (take d buf @ s @ drop (d + length s) buf) else None)"

text \<open>The destination pointer is an offset into the buffer; \<open>left\<close> is the room that remains.\<close>

definition push_chars :: "char list \<Rightarrow> nat \<Rightarrow> int \<Rightarrow> string \<Rightarrow> (int \<times> char list \<times> nat \<times> int) option" where
  "push_chars buf d left chars =
     (if left < int (length chars) then Some (- 1, buf, d, left)
      else map_option (\<lambda>buf. (0, buf, d + length chars, left - int (length chars)))
             (memcpy_at buf d chars))"

text \<open>
  The name of the reference after a dollar sign, and the text behind it: in braces, or up to the
  end.  \<open>None\<close> is the jump to \<open>err\<close>.
\<close>

definition prop_ref :: "platform \<Rightarrow> string \<Rightarrow> (string \<times> string) option" where
  "prop_ref P c =
     (if take 1 c = ''{'' then
        let r = drop 1 c;
            prop = take (PROP_NAME_MAX P) (takeWhile (\<lambda>x. x \<noteq> CHR ''}'') r);
            rest = drop (length prop) r
        in if take 1 rest \<noteq> ''}'' then None
           else if prop = [] then None
           else Some (prop, drop 1 rest)
      else
        let prop = take (PROP_NAME_MAX P) c; rest = drop (length prop) c
        in if rest \<noteq> [] then None
           else if prop = [] then None
           else Some (prop, rest))"

lemma prop_ref_shorter: "prop_ref P c = Some (prop, rest) \<Longrightarrow> length rest \<le> length c"
  by (auto simp: prop_ref_def Let_def split: if_splits)

function expand_loop ::
  "platform \<Rightarrow> init_st \<Rightarrow> char list \<Rightarrow> nat \<Rightarrow> int \<Rightarrow> string \<Rightarrow> (int \<times> char list) option" where
  "expand_loop P st buf d left src =
     (if src = [] \<or> left \<le> 0 then map_option (Pair 0) (put_at buf d NUL)
      else
        case split_first DOLLAR src of
          None \<Rightarrow>
            do {
              let tail = take (nat left) src;
              buf \<leftarrow> memcpy_at buf d tail;
              map_option (Pair 0) (put_at buf (d + length tail) NUL)
            }
        | Some (pre, c) \<Rightarrow>
            (case push_chars buf d left pre of
               None \<Rightarrow> None
             | Some (ret, buf, d, left) \<Rightarrow>
                 if ret < 0 then Some (- 1, buf)
                 else if take 1 c = [DOLLAR] then
                   (case put_at buf d DOLLAR of
                      None \<Rightarrow> None
                    | Some buf \<Rightarrow> expand_loop P st buf (d + 1) (left - 1) (drop 1 c))
                 else if c = [] then map_option (Pair 0) (put_at buf d NUL)
                 else
                   case prop_ref P c of
                     None \<Rightarrow> Some (- 1, buf)
                   | Some (prop, rest) \<Rightarrow>
                       (case property_get P prop st of
                          None \<Rightarrow> Some (- 1, buf)
                        | Some prop_val \<Rightarrow>
                            (case push_chars buf d left prop_val of
                               None \<Rightarrow> None
                             | Some (ret, buf, d, left) \<Rightarrow>
                                 if ret < 0 then Some (- 1, buf)
                                 else expand_loop P st buf d left rest))))"
  by pat_completeness auto
termination
proof (relation "measure (\<lambda>(P, st, buf, d, left, src). length src)", goal_cases)
  case 1
  show ?case by simp
next
  case (2 P st buf d left src p pre c)
  then show ?case by (auto dest: split_first_shorter)
next
  case (3 P st buf d left src p pre c)
  then show ?case by (auto dest!: split_first_shorter prop_ref_shorter)
qed

declare expand_loop.simps [simp del]

definition expand_props :: "platform \<Rightarrow> init_st \<Rightarrow> char list \<Rightarrow> string \<Rightarrow> (int \<times> char list) option" where
  "expand_props P st dst src =
     (if length dst = 0 then Some (- 1, dst)
      else expand_loop P st dst 0 (int (length dst) - 1) src)"

subsection \<open>What the expansion of a text is\<close>

function spec_expand :: "platform \<Rightarrow> init_st \<Rightarrow> string \<Rightarrow> string option" where
  "spec_expand P st src =
     (case split_first DOLLAR src of
        None \<Rightarrow> Some src
      | Some (pre, c) \<Rightarrow>
          if take 1 c = [DOLLAR] then map_option (\<lambda>e. pre @ [DOLLAR] @ e) (spec_expand P st (drop 1 c))
          else if c = [] then Some pre
          else
            case prop_ref P c of
              None \<Rightarrow> None
            | Some (prop, rest) \<Rightarrow>
                (case property_get P prop st of
                   None \<Rightarrow> None
                 | Some prop_val \<Rightarrow> map_option (\<lambda>e. pre @ prop_val @ e) (spec_expand P st rest)))"
  by pat_completeness auto
termination
proof (relation "measure (\<lambda>(P, st, src). length src)", goal_cases)
  case 1
  show ?case by simp
next
  case (2 P st src p pre c)
  then show ?case by (auto dest: split_first_shorter)
next
  case (3 P st src p pre c)
  then show ?case by (auto dest!: split_first_shorter prop_ref_shorter)
qed

declare spec_expand.simps [simp del]

text \<open>\<open>put_text buf d s\<close>: the buffer with the text \<open>s\<close> written from \<open>d\<close> on.\<close>

definition put_text :: "char list \<Rightarrow> nat \<Rightarrow> string \<Rightarrow> char list" where
  "put_text buf d s = take d buf @ s @ drop (d + length s) buf"

lemma length_put_text [simp]: "d + length s \<le> length buf \<Longrightarrow> length (put_text buf d s) = length buf"
  by (simp add: put_text_def)

lemma memcpy_put_text: "d + length s \<le> length buf \<Longrightarrow> memcpy_at buf d s = Some (put_text buf d s)"
  by (simp add: memcpy_at_def put_text_def)

lemma put_put_text: "d < length buf \<Longrightarrow> put_at buf d c = Some (put_text buf d [c])"
  by (simp add: put_at_def put_text_def upd_conv_take_nth_drop)

lemma put_text_put_text:
  "d + length s + length t \<le> length buf \<Longrightarrow> put_text (put_text buf d s) (d + length s) t = put_text buf d (s @ t)"
  by (simp add: put_text_def add.commute add.left_commute)

lemma push_put_text:
  "d + length s \<le> length buf \<Longrightarrow> int (length s) \<le> left \<Longrightarrow>
   push_chars buf d left s = Some (0, put_text buf d s, d + length s, left - int (length s))"
  by (simp add: push_chars_def memcpy_put_text)

lemma spec_expand_empty [simp]: "spec_expand P st [] = Some []"
  by (simp add: spec_expand.simps [of P st "[]"])

lemma expand_loop_correct:
  assumes "spec_expand P st src = Some full" "d + length full < length buf"
    and "left = int (length buf) - 1 - int d"
  shows "expand_loop P st buf d left src = Some (0, put_text buf d (full @ [NUL]))"
  using assms
proof (induction src arbitrary: buf d left full rule: length_induct)
  case (1 src)
  note IH = 1(1) and spec = 1(2) and room = 1(3) and left = 1(4)
  have step: "expand_loop P st (put_text buf d s) (d + length s) (left - int (length s)) src' =
      Some (0, put_text buf d (s @ e @ [NUL]))"
    if "length src' < length src" "spec_expand P st src' = Some e" "d + length s + length e < length buf" for s src' e
  proof -
    have "expand_loop P st (put_text buf d s) (d + length s) (left - int (length s)) src' =
        Some (0, put_text (put_text buf d s) (d + length s) (e @ [NUL]))"
      by (rule IH [rule_format]) (use that left in auto)
    also have "put_text (put_text buf d s) (d + length s) (e @ [NUL]) = put_text buf d (s @ e @ [NUL])"
      using that(3) by (simp add: put_text_put_text)
    finally show ?thesis .
  qed
  show ?case
  proof (cases "src = [] \<or> left \<le> 0")
    case True
    have "full = []"
    proof (cases "src = []")
      case False
      with True left room have "length full = 0" by linarith
      then show ?thesis by simp
    qed (use spec in simp)
    with True room show ?thesis by (subst expand_loop.simps) (auto simp: put_put_text)
  next
    case False
    show ?thesis
    proof (cases "split_first DOLLAR src")
      case None
      then have full: "full = src" using spec by (simp add: spec_expand.simps [of P st src])
      then have "take (nat left) src = src" using room left by simp
      with None False full room show ?thesis
        by (subst expand_loop.simps) (simp add: memcpy_put_text put_put_text put_text_put_text)
    next
      case (Some p)
      obtain pre c where p: "p = (pre, c)" by force
      have sh: "length c < length src" using Some p by (auto dest: split_first_shorter)
      note unf = expand_loop.simps [of P st buf d left src] spec_expand.simps [of P st src]
      show ?thesis
      proof (cases "take 1 c = [DOLLAR] \<or> c = []")
        case True
        then show ?thesis
        proof (cases "c = []")
          case True
          then have full: "full = pre" using spec Some p by (simp add: unf)
          then have "int (length pre) \<le> left" using room left by simp
          with True Some p False room full show ?thesis
            by (simp add: unf push_put_text put_put_text put_text_put_text)
        next
          case ne: False
          with True have d1: "take 1 c = [DOLLAR]" by simp
          obtain e where e: "spec_expand P st (drop 1 c) = Some e" "full = pre @ [DOLLAR] @ e"
            using spec Some p d1 by (auto simp: unf)
          have "length (drop 1 c) < length src" using sh by simp
          from step [OF this e(1), of "pre @ [DOLLAR]"] e(2) room
          moreover have "int (length pre) + 1 \<le> left" using room left e(2) by simp
          ultimately show ?thesis using Some p False d1 room e(2)
            by (simp add: unf push_put_text put_put_text put_text_put_text algebra_simps)
        qed
      next
        case ref: False
        obtain nm rest where r: "prop_ref P c = Some (nm, rest)"
          using spec Some p ref by (auto simp: unf split: option.splits)
        obtain pv where v: "property_get P nm st = Some pv"
          using spec Some p ref r by (auto simp: unf split: option.splits)
        obtain e where e: "spec_expand P st rest = Some e" "full = pre @ pv @ e"
          using spec Some p ref r v by (auto simp: unf)
        have "length rest < length src" using sh prop_ref_shorter [OF r] by simp
        from step [OF this e(1), of "pre @ pv"] e(2) room
        moreover have "int (length pre) + int (length pv) \<le> left" using room left e(2) by simp
        ultimately show ?thesis using Some p False ref r v room e(2)
          by (simp add: unf push_put_text put_text_put_text algebra_simps)
      qed
    qed
  qed
qed

text \<open>
  C21.  When the expansion of a text is defined and fits the buffer with its terminating NUL,
  \<open>expand_props\<close> succeeds, stays within the buffer, and leaves exactly the expansion in it.
\<close>

theorem expand_props_correct:
  assumes "spec_expand P st src = Some full" "length full < length dst" "NUL \<notin> set full"
  shows "\<exists>buf. expand_props P st dst src = Some (0, buf) \<and> length buf = length dst \<and> cstr_at buf 0 = full"
proof -
  have "expand_loop P st dst 0 (int (length dst) - 1) src = Some (0, put_text dst 0 (full @ [NUL]))"
    by (rule expand_loop_correct) (use assms in auto)
  moreover have "takeWhile (\<lambda>c. c \<noteq> NUL) (full @ NUL # drop (length full + 1) dst) = full"
    using assms(3) by (intro takeWhile_stop) auto
  ultimately show ?thesis
    using assms(2) by (auto simp: expand_props_def cstr_at_def put_text_def)
qed

theorem expand_props_correct_witness:
  "\<exists>buf. expand_props example_platform
       (snd (property_set example_platform ''ro.hardware'' ''goldfish'' example_area))
       (replicate 92 NUL) ''/init.${ro.hardware}.rc'' = Some (0, buf) \<and>
     cstr_at buf 0 = ''/init.goldfish.rc''"
proof -
  let ?st = "snd (property_set example_platform ''ro.hardware'' ''goldfish'' example_area)"
  have "spec_expand example_platform ?st ''/init.${ro.hardware}.rc'' = Some ''/init.goldfish.rc''"
    by code_simp
  from expand_props_correct [OF this, of "replicate 92 NUL"] show ?thesis by auto
qed

subsection \<open>Where the routine leaves its buffer\<close>



fun double_dollar :: "string \<Rightarrow> bool" where
  "double_dollar (a # b # s) \<longleftrightarrow> a = DOLLAR \<and> b = DOLLAR \<or> double_dollar (b # s)"
| "double_dollar _ \<longleftrightarrow> False"

lemma double_dollar_Cons: "double_dollar s \<Longrightarrow> double_dollar (a # s)"
  by (cases s) auto

lemma double_dollar_drop: "double_dollar (drop k s) \<Longrightarrow> double_dollar s"
  by (induction s arbitrary: k) (auto simp: drop_Cons split: nat.splits intro: double_dollar_Cons)

lemma double_dollar_append: "double_dollar s \<Longrightarrow> double_dollar (a @ s)"
  by (induction a) (auto intro: double_dollar_Cons)

lemma prop_ref_suffix: "prop_ref P c = Some (prop, rest) \<Longrightarrow> \<exists>k. rest = drop k c"
  by (auto simp: prop_ref_def Let_def split: if_splits)

lemma expand_loop_safe:
  assumes "left = int (length buf) - 1 - int d" "d < length buf" "\<not> double_dollar src"
  shows "\<exists>r b. expand_loop P st buf d left src = Some (r, b) \<and> length b = length buf"
  using assms
proof (induction src arbitrary: buf d left rule: length_induct)
  case (1 src)
  note left = 1(2) and d = 1(3) and dd = 1(4)
  note unf = expand_loop.simps [of P st buf d left src]
  show ?case
  proof (cases "split_first DOLLAR src")
    case None
    let ?t = "take (nat left) src"
    have "length ?t \<le> nat left" by simp
    then have "d + length ?t < length buf" using left d by linarith
    then show ?thesis using None d by (auto simp: unf memcpy_put_text put_put_text)
  next
    case (Some p)
    obtain pre c where p: "p = (pre, c)" by force
    have src: "src = pre @ DOLLAR # c" using Some p by (auto dest: split_first_SomeD)
    have nd: "take 1 c \<noteq> [DOLLAR]"
    proof
      assume "take 1 c = [DOLLAR]"
      then have "double_dollar (DOLLAR # c)" by (cases c) auto
      with dd src show False using double_dollar_append by blast
    qed
    show ?thesis
    proof (cases "left < int (length pre) \<or> src = [] \<or> left \<le> 0")
      case True
      then show ?thesis using Some p d by (auto simp: unf push_chars_def put_put_text)
    next
      case pre: False
      then have ps: "push_chars buf d left pre = Some (0, put_text buf d pre, d + length pre, left - int (length pre))"
        and dp: "d + length pre < length buf" using left by (auto intro!: push_put_text)
      show ?thesis
      proof (cases "\<exists>prop rest pv. prop_ref P c = Some (prop, rest) \<and> property_get P prop st = Some pv \<and>
            c \<noteq> [] \<and> int (length pv) \<le> left - int (length pre)")
        case False
        then show ?thesis using Some p ps nd pre dp
          by (auto simp: unf put_put_text push_chars_def split: option.splits)
      next
        case True
        then obtain nm rest pv where r: "prop_ref P c = Some (nm, rest)" "property_get P nm st = Some pv"
          "c \<noteq> []" "int (length pv) \<le> left - int (length pre)" by blast
        obtain k where k: "rest = drop k c" using prop_ref_suffix [OF r(1)] by blast
        have nd2: "\<not> double_dollar rest"
          using dd src k double_dollar_drop [of k c] double_dollar_append [of "DOLLAR # c" pre] double_dollar_Cons [of c] by auto
        have sh: "length rest < length src" using k src by simp
        have l: "d + length pre + length pv < length buf" using r(4) left dp by linarith
        have pv: "push_chars (put_text buf d pre) (d + length pre) (left - int (length pre)) pv =
            Some (0, put_text buf d (pre @ pv), d + length pre + length pv, left - int (length pre) - int (length pv))"
          using push_put_text [of "d + length pre" pv "put_text buf d pre"] r(4) l
          by (simp add: put_text_put_text)
        have "\<exists>r b. expand_loop P st (put_text buf d (pre @ pv)) (d + length pre + length pv)
            (left - int (length pre) - int (length pv)) rest = Some (r, b) \<and> length b = length (put_text buf d (pre @ pv))"
          by (rule 1(1) [rule_format]) (use nd2 sh l left in auto)
        then have "\<exists>r b. expand_loop P st (put_text buf d (pre @ pv)) (d + length pre + length pv)
            (left - int (length pre) - int (length pv)) rest = Some (r, b) \<and> length b = length buf"
          using l by simp
        with Some p ps nd pre r pv show ?thesis by (auto simp: unf)
      qed
    qed
  qed
qed

text \<open>
  Apart from that defect the routine stays within its buffer: a text without \<open>$$\<close> is
  expanded, cut off or rejected without a write outside, whatever the properties hold.
\<close>

lemma expand_props_safe:
  assumes "\<not> double_dollar src"
  shows "\<exists>ret buf. expand_props P st dst src = Some (ret, buf) \<and> length buf = length dst"
  using expand_loop_safe [of _ dst 0 src P st] assms by (cases dst) (auto simp: expand_props_def)

lemma expand_props_safe_witness:
  "\<not> double_dollar ''${a}$b'' \<and>
   (\<exists>ret buf. expand_props example_platform init_st0 (replicate 4 NUL) ''${a}$b'' = Some (ret, buf) \<and>
     length buf = length (replicate 4 NUL))"
  using expand_props_safe [of "''${a}$b''" example_platform init_st0 "replicate 4 NUL"] by simp

end
