(* ===== verification/Init_Parser.thy ===== *)
theory Init_Parser
  imports Expand
begin

text \<open>
  The configuration parser of \<open>init_parser.c\<close>: the sections \<open>service\<close>, \<open>on\<close> and \<open>import\<close>, the
  options of a service and the commands of an action, the loop over the lines of a file, and the
  files it imports.

  An argument array has the 64 entries of \<open>args\<close> in \<open>parse_config\<close>; an entry that no line has
  filled yet is \<open>None\<close>, and reading it makes the result \<open>None\<close>.  Syntax errors are only logged, so
  they appear here as lines without effect.
\<close>

subsection \<open>Services\<close>

definition valid_name :: "string \<Rightarrow> bool" where
  "valid_name name \<longleftrightarrow> length name \<le> 16 \<and>
     (\<forall>c \<in> set name. isalnum c \<or> c = CHR ''_'' \<or> c = CHR ''-'')"

definition service_find_by_name :: "string \<Rightarrow> init_st \<Rightarrow> nat option" where
  "service_find_by_name name st = find_index (\<lambda>svc. svc_name svc = name) (service_list st)"

definition service_find_by_pid :: "int \<Rightarrow> init_st \<Rightarrow> nat option" where
  "service_find_by_pid pid st = find_index (\<lambda>svc. svc_pid svc = pid) (service_list st)"

definition service_find_by_keychord :: "int \<Rightarrow> init_st \<Rightarrow> nat option" where
  "service_find_by_keychord keychord_id st =
     find_index (\<lambda>svc. svc_keychord_id svc = keychord_id) (service_list st)"

definition list_for_each_service :: "(service \<Rightarrow> bool) \<Rightarrow> (nat \<Rightarrow> init_st \<Rightarrow> init_st) \<Rightarrow> init_st \<Rightarrow> init_st" where
  "list_for_each_service test func st =
     fold (\<lambda>i s. if test (service_list s ! i) then func i s else s) [0..<length (service_list st)] st"

definition service_for_each :: "(nat \<Rightarrow> init_st \<Rightarrow> init_st) \<Rightarrow> init_st \<Rightarrow> init_st" where
  "service_for_each func = list_for_each_service (\<lambda>svc. True) func"

definition service_for_each_class :: "string \<Rightarrow> (nat \<Rightarrow> init_st \<Rightarrow> init_st) \<Rightarrow> init_st \<Rightarrow> init_st" where
  "service_for_each_class classname func =
     list_for_each_service (\<lambda>svc. svc_classname svc = classname) func"

definition service_for_each_flags :: "32 word \<Rightarrow> (nat \<Rightarrow> init_st \<Rightarrow> init_st) \<Rightarrow> init_st \<Rightarrow> init_st" where
  "service_for_each_flags matchflags func =
     list_for_each_service (\<lambda>svc. has (svc_flags svc) matchflags) func"

definition upd_svc :: "nat \<Rightarrow> (service \<Rightarrow> service) \<Rightarrow> init_st \<Rightarrow> init_st" where
  "upd_svc i f st = st\<lparr>service_list := upd_nth i f (service_list st)\<rparr>"

subsection \<open>Sections\<close>

datatype line_ctx = Ctx_none | Ctx_service nat | Ctx_action nat

definition arg :: "arg_array \<Rightarrow> nat \<Rightarrow> string option" where
  "arg args i = (if i < length args then args ! i else None)"

text \<open>The arguments from position \<open>i\<close> up to \<open>n\<close>.\<close>

definition arg_range :: "arg_array \<Rightarrow> nat \<Rightarrow> nat \<Rightarrow> string list option" where
  "arg_range args i n = those (map (arg args) [i..<n])"

definition new_service :: "string \<Rightarrow> string list \<Rightarrow> service" where
  "new_service name args = \<lparr>svc_name = name, svc_classname = ''default'', svc_flags = 0, svc_pid = 0,
     svc_time_started = 0, svc_time_crashed = 0, svc_nr_crashed = 0, svc_uid = 0, svc_gid = 0,
     svc_supp_gids = [], svc_sockets = [], svc_envvars = [], svc_onrestart = [],
     svc_keycodes = None, svc_keychord_id = 0, svc_ioprio_class = IoSchedClass_NONE,
     svc_ioprio_pri = 0, svc_args = args\<rparr>"

definition parse_service :: "nat \<Rightarrow> arg_array \<Rightarrow> init_st \<Rightarrow> (nat option \<times> init_st) option" where
  "parse_service nargs args st =
     (if nargs < 3 then Some (None, st)
      else do {
        name \<leftarrow> arg args 1;
        if \<not> valid_name name then Some (None, st)
        else if service_find_by_name name st \<noteq> None then Some (None, st)
        else do {
          svc_argv \<leftarrow> arg_range args 2 nargs;
          Some (Some (length (service_list st)),
                st\<lparr>service_list := service_list st @ [new_service name svc_argv]\<rparr>)
        }
      })"

definition parse_action :: "nat \<Rightarrow> arg_array \<Rightarrow> init_st \<Rightarrow> (nat option \<times> init_st) option" where
  "parse_action nargs args st =
     (if nargs < 2 then Some (None, st)
      else if 2 < nargs then Some (None, st)
      else do {
        name \<leftarrow> arg args 1;
        Some (Some (length (action_list st)),
              st\<lparr>action_list := action_list st @ [\<lparr>act_name = name, act_commands = []\<rparr>]\<rparr>)
      })"

definition parse_import :: "platform \<Rightarrow> nat \<Rightarrow> arg_array \<Rightarrow> init_st \<Rightarrow> string list \<Rightarrow> string list option" where
  "parse_import P nargs args st imports =
     (if nargs \<noteq> 2 then Some imports
      else do {
        a \<leftarrow> arg args 1;
        (ret, conf_file) \<leftarrow> expand_props P st (fresh_buf P (PATH_MAX P)) a;
        Some (if ret \<noteq> 0 then imports else imports @ [cstr_at conf_file 0])
      })"

subsection \<open>The lines of a section\<close>

definition make_command :: "keyword \<Rightarrow> string list \<Rightarrow> command" where
  "make_command kw args =
     \<lparr>cmd_func = the (kw_func kw), cmd_nargs = length args, cmd_args = args\<rparr>"

definition parse_line_action :: "nat \<Rightarrow> nat \<Rightarrow> arg_array \<Rightarrow> init_st \<Rightarrow> init_st option" where
  "parse_line_action act nargs args st =
     (if nargs = 0 then Some st
      else do {
        a0 \<leftarrow> arg args 0;
        let kw = lookup_keyword a0;
        if \<not> kw_is kw COMMAND then Some st
        else if nargs < kw_nargs kw then Some st
        else do {
          cargs \<leftarrow> arg_range args 0 nargs;
          Some (st\<lparr>action_list := upd_nth act
                 (\<lambda>a. a\<lparr>act_commands := act_commands a @ [make_command kw cargs]\<rparr>) (action_list st)\<rparr>)
        }
      })"

text \<open>
  What an option line does to its service, one routine for each option with arguments: a function
  of the service, \<open>None\<close> when the line reads an argument that was never set.
\<close>

type_synonym svc_update = "service \<Rightarrow> service"

definition add_flags :: "32 word \<Rightarrow> svc_update" where
  "add_flags m svc = svc\<lparr>svc_flags := svc_flags svc OR m\<rparr>"

definition option_class :: "nat \<Rightarrow> arg_array \<Rightarrow> svc_update option" where
  "option_class nargs args =
     (if nargs \<noteq> 2 then Some id
      else do { a1 \<leftarrow> arg args 1; Some (\<lambda>svc. svc\<lparr>svc_classname := a1\<rparr>) })"

definition option_ioprio :: "platform \<Rightarrow> nat \<Rightarrow> arg_array \<Rightarrow> svc_update option" where
  "option_ioprio P nargs args =
     (if nargs \<noteq> 3 then Some id
      else do {
        a1 \<leftarrow> arg args 1;
        a2 \<leftarrow> arg args 2;
        let pri = sint (fst (strtoul (strtoul_einval P) 8 a2));
        Some (\<lambda>svc.
          let svc = svc\<lparr>svc_ioprio_pri := pri\<rparr> in
          if pri < 0 \<or> 7 < pri then svc
          else if a1 = ''rt'' then svc\<lparr>svc_ioprio_class := IoSchedClass_RT\<rparr>
          else if a1 = ''be'' then svc\<lparr>svc_ioprio_class := IoSchedClass_BE\<rparr>
          else if a1 = ''idle'' then svc\<lparr>svc_ioprio_class := IoSchedClass_IDLE\<rparr>
          else svc)
      })"

definition option_group :: "platform \<Rightarrow> nat \<Rightarrow> arg_array \<Rightarrow> svc_update option" where
  "option_group P nargs args =
     (if nargs < 2 then Some id
      else if NR_SVC_SUPP_GIDS + 2 < nargs then Some id
      else do {
        a1 \<leftarrow> arg args 1;
        supp \<leftarrow> arg_range args 2 nargs;
        Some (\<lambda>svc. svc\<lparr>svc_gid := decode_uid P a1, svc_supp_gids := map (decode_uid P) supp\<rparr>)
      })"

definition option_keycodes :: "nat \<Rightarrow> arg_array \<Rightarrow> svc_update option" where
  "option_keycodes nargs args =
     (if nargs < 2 then Some id
      else do {
        codes \<leftarrow> arg_range args 1 nargs;
        Some (\<lambda>svc. svc\<lparr>svc_keycodes := Some (map atoi codes)\<rparr>)
      })"

text \<open>The command of \<open>onrestart\<close> is the line without its first word.\<close>

definition option_onrestart :: "nat \<Rightarrow> arg_array \<Rightarrow> svc_update option" where
  "option_onrestart nargs args =
     do {
       a1 \<leftarrow> arg args 1;
       let kw = lookup_keyword a1;
       if \<not> kw_is kw COMMAND then Some id
       else if nargs - 1 < kw_nargs kw then Some id
       else do {
         cargs \<leftarrow> arg_range args 1 nargs;
         Some (\<lambda>svc. svc\<lparr>svc_onrestart := svc_onrestart svc @ [make_command kw cargs]\<rparr>)
       }
     }"

text \<open>\<open>setenv\<close> reads its second argument even when the line has only one.\<close>

definition option_setenv :: "nat \<Rightarrow> arg_array \<Rightarrow> svc_update option" where
  "option_setenv nargs args =
     (if nargs < 2 then Some id
      else do {
        a1 \<leftarrow> arg args 1;
        a2 \<leftarrow> arg args 2;
        Some (\<lambda>svc. svc\<lparr>svc_envvars := \<lparr>ei_name = a1, ei_value = a2\<rparr> # svc_envvars svc\<rparr>)
      })"

definition option_socket :: "platform \<Rightarrow> nat \<Rightarrow> arg_array \<Rightarrow> svc_update option" where
  "option_socket P nargs args =
     (if nargs < 4 then Some id
      else do {
        a1 \<leftarrow> arg args 1;
        a2 \<leftarrow> arg args 2;
        a3 \<leftarrow> arg args 3;
        if a2 \<noteq> ''dgram'' \<and> a2 \<noteq> ''stream'' \<and> a2 \<noteq> ''seqpacket'' then Some id
        else do {
          uid \<leftarrow> (if 4 < nargs then map_option (decode_uid P) (arg args 4) else Some 0);
          gid \<leftarrow> (if 5 < nargs then map_option (decode_uid P) (arg args 5) else Some 0);
          let si = \<lparr>si_name = a1, si_type = a2, si_uid = uid, si_gid = gid,
                    si_perm = fst (strtoul (strtoul_einval P) 8 a3)\<rparr>;
          Some (\<lambda>svc. svc\<lparr>svc_sockets := si # svc_sockets svc\<rparr>)
        }
      })"

definition option_user :: "platform \<Rightarrow> nat \<Rightarrow> arg_array \<Rightarrow> svc_update option" where
  "option_user P nargs args =
     (if nargs \<noteq> 2 then Some id
      else do { a1 \<leftarrow> arg args 1; Some (\<lambda>svc. svc\<lparr>svc_uid := decode_uid P a1\<rparr>) })"

definition option_effect :: "platform \<Rightarrow> nat \<Rightarrow> arg_array \<Rightarrow> svc_update option" where
  "option_effect P nargs args =
     do {
       a0 \<leftarrow> arg args 0;
       (case lookup_keyword a0 of
          K_capability \<Rightarrow> Some id
        | K_class \<Rightarrow> option_class nargs args
        | K_console \<Rightarrow> Some (add_flags SVC_CONSOLE)
        | K_disabled \<Rightarrow> Some (add_flags SVC_RC_DISABLED \<circ> add_flags SVC_DISABLED)
        | K_ioprio \<Rightarrow> option_ioprio P nargs args
        | K_group \<Rightarrow> option_group P nargs args
        | K_keycodes \<Rightarrow> option_keycodes nargs args
        | K_oneshot \<Rightarrow> Some (add_flags SVC_ONESHOT)
        | K_onrestart \<Rightarrow> option_onrestart nargs args
        | K_critical \<Rightarrow> Some (add_flags SVC_CRITICAL)
        | K_setenv \<Rightarrow> option_setenv nargs args
        | K_socket \<Rightarrow> option_socket P nargs args
        | K_user \<Rightarrow> option_user P nargs args
        | K_seclabel \<Rightarrow> Some id
        | _ \<Rightarrow> Some id)
     }"

definition parse_line_service :: "platform \<Rightarrow> nat \<Rightarrow> nat \<Rightarrow> arg_array \<Rightarrow> init_st \<Rightarrow> init_st option" where
  "parse_line_service P svc nargs args st =
     (if nargs = 0 then Some st
      else do {
        f \<leftarrow> option_effect P nargs args;
        Some (upd_svc svc (\<lambda>s. f (s\<lparr>svc_ioprio_class := IoSchedClass_NONE\<rparr>)) st)
      })"

subsection \<open>The file\<close>

type_synonym parser = "line_ctx \<times> string list \<times> init_st"

definition parse_new_section :: "platform \<Rightarrow> keyword \<Rightarrow> nat \<Rightarrow> arg_array \<Rightarrow> parser \<Rightarrow> parser option" where
  "parse_new_section P kw nargs args = (\<lambda>(ctx, imports, st).
     if kw = K_service then do {
       (svc, st) \<leftarrow> parse_service nargs args st;
       Some (case svc of Some i \<Rightarrow> Ctx_service i | None \<Rightarrow> Ctx_none, imports, st)
     }
     else if kw = K_on then do {
       (act, st) \<leftarrow> parse_action nargs args st;
       Some (case act of Some i \<Rightarrow> Ctx_action i | None \<Rightarrow> Ctx_none, imports, st)
     }
     else if kw = K_import then do {
       imports \<leftarrow> parse_import P nargs args st imports;
       Some (Ctx_none, imports, st)
     }
     else Some (Ctx_none, imports, st))"

definition parse_line :: "platform \<Rightarrow> nat \<Rightarrow> arg_array \<Rightarrow> parser \<Rightarrow> parser option" where
  "parse_line P nargs args = (\<lambda>(ctx, imports, st).
     map_option (\<lambda>st. (ctx, imports, st))
       (case ctx of
          Ctx_none \<Rightarrow> Some st
        | Ctx_service i \<Rightarrow> parse_line_service P i nargs args st
        | Ctx_action i \<Rightarrow> parse_line_action i nargs args st))"

definition config_line :: "platform \<Rightarrow> nat \<Rightarrow> nat \<Rightarrow> arg_array \<Rightarrow> parser \<Rightarrow> parser option" where
  "config_line P line nargs args h =
     do {
       a0 \<leftarrow> arg args 0;
       let kw = lookup_keyword a0;
       if kw_is kw SECTION then do {
         h \<leftarrow> parse_line P 0 [] h;
         parse_new_section P kw nargs args h
       }
       else parse_line P nargs args h
     }"

partial_function (option) config_loop ::
  "platform \<Rightarrow> parse_state \<Rightarrow> arg_array \<Rightarrow> nat \<Rightarrow> parser \<Rightarrow> parser option" where
  "config_loop P ps args nargs h =
     (case next_token ps of
        None \<Rightarrow> None
      | Some (tok, ps) \<Rightarrow>
          (case tok of
             T_EOF \<Rightarrow> parse_line P 0 [] h
           | T_NEWLINE \<Rightarrow>
               (let ps = ps\<lparr>ps_line := Suc (ps_line ps)\<rparr> in
                if nargs \<noteq> 0 then
                  (case config_line P (ps_line ps) nargs args h of
                     None \<Rightarrow> None
                   | Some h \<Rightarrow> config_loop P ps args 0 h)
                else config_loop P ps args 0 h)
           | T_TEXT \<Rightarrow>
               (let a = store_arg INIT_PARSER_MAXARGS (cstr_at (ps_buf ps) (ps_text ps)) (args, nargs)
                in config_loop P ps (fst a) (snd a) h)))"

text \<open>
  A file and the files it imports: an import is parsed after the whole file, before what follows
  the import of the file itself, so the names of the files to parse form a stack.
\<close>

definition parse_config :: "platform \<Rightarrow> char list \<Rightarrow> init_st \<Rightarrow> (string list \<times> init_st) option" where
  "parse_config P data st =
     map_option snd
       (config_loop P (file_state data) (replicate INIT_PARSER_MAXARGS None) 0 (Ctx_none, [], st))"

partial_function (option) parse_imports :: "platform \<Rightarrow> string list \<Rightarrow> init_st \<Rightarrow> init_st option" where
  "parse_imports P files st =
     (case files of
        [] \<Rightarrow> Some st
      | fn # files \<Rightarrow>
          (case read_file P fn st of
             (None, st) \<Rightarrow> parse_imports P files st
           | (Some data, st) \<Rightarrow>
               (case parse_config P data st of
                  None \<Rightarrow> None
                | Some (imports, st) \<Rightarrow> parse_imports P (imports @ files) st)))"

definition init_parse_config_file :: "platform \<Rightarrow> string \<Rightarrow> init_st \<Rightarrow> (int \<times> init_st) option" where
  "init_parse_config_file P fn st =
     (case read_file P fn st of
        (None, st) \<Rightarrow> Some (- 1, st)
      | (Some data, st) \<Rightarrow>
          do {
            (imports, st) \<leftarrow> parse_config P data st;
            st \<leftarrow> parse_imports P imports st;
            Some (0, st)
          })"

subsection \<open>The parser as a fold over the lines\<close>

lemma parse_line_0: "parse_line P 0 args h = Some h"
  by (cases h) (simp add: parse_line_def parse_line_service_def parse_line_action_def split: line_ctx.splits)

interpretation rc: line_parser "config_line P" "config_loop P" Suc INIT_PARSER_MAXARGS
  for P :: platform
proof unfold_locales
  fix ps args nargs h
  show "config_loop P ps args nargs h =
       (case next_token ps of
          None \<Rightarrow> None
        | Some (tok, ps1) \<Rightarrow>
          (case tok of
             T_EOF \<Rightarrow> Some h
           | T_NEWLINE \<Rightarrow>
               (let ps2 = ps1\<lparr>ps_line := Suc (ps_line ps1)\<rparr> in
                if nargs \<noteq> 0 then
                  (case config_line P (ps_line ps2) nargs args h of
                     None \<Rightarrow> None
                   | Some h' \<Rightarrow> config_loop P ps2 args 0 h')
                else config_loop P ps2 args 0 h)
           | T_TEXT \<Rightarrow>
               (let a = store_arg INIT_PARSER_MAXARGS (cstr_at (ps_buf ps1) (ps_text ps1)) (args, nargs)
                in config_loop P ps1 (fst a) (snd a) h)))"
    by (subst config_loop.simps) (simp add: parse_line_0 split: option.split token.split)
qed

definition rc_lines :: "string \<Rightarrow> arg_line list" where
  "rc_lines inp = spec_lines Suc INIT_PARSER_MAXARGS 0 (replicate INIT_PARSER_MAXARGS None, 0) False inp"

lemma parse_config_eq:
  assumes "NUL \<in> set data"
  shows "parse_config P data st =
    map_option snd (fold_lines (config_line P) (rc_lines (cstr_at data 0)) (Ctx_none, [], st))"
proof -
  obtain post where "remaining data 0 (cstr_at data 0) post" using remaining_file [OF assms] by blast
  then show ?thesis
    using rc.loop_spec [of "file_state data" "cstr_at data 0" post P "replicate INIT_PARSER_MAXARGS None" 0]
    by (simp add: parse_config_def rc_lines_def file_state_def)
qed

subsection \<open>What the parser guarantees\<close>

text \<open>A command as the parser builds it has as many arguments as the keyword table asks for.\<close>

definition cmd_ok :: "command \<Rightarrow> bool" where
  "cmd_ok c \<longleftrightarrow> cmd_nargs c = length (cmd_args c) \<and> cmd_nargs c \<le> INIT_PARSER_MAXARGS \<and>
     (\<exists>kw. kw_func kw = Some (cmd_func c) \<and> kw_nargs kw \<le> cmd_nargs c)"

definition svc_static_ok :: "service \<Rightarrow> bool" where
  "svc_static_ok svc \<longleftrightarrow> valid_name (svc_name svc) \<and> svc_args svc \<noteq> [] \<and>
     length (svc_args svc) \<le> INIT_PARSER_MAXARGS - 2 \<and>
     length (svc_supp_gids svc) \<le> NR_SVC_SUPP_GIDS \<and> list_all cmd_ok (svc_onrestart svc)"

text \<open>A service that init has not touched since it was parsed.\<close>

definition svc_fresh :: "service \<Rightarrow> bool" where
  "svc_fresh svc \<longleftrightarrow> svc_pid svc = 0 \<and>
     \<not> has (svc_flags svc) (SVC_RUNNING OR SVC_RESTARTING OR SVC_RESET OR SVC_RESTART)"

definition conf_ok :: "init_st \<Rightarrow> bool" where
  "conf_ok st \<longleftrightarrow> distinct (map svc_name (service_list st)) \<and>
     list_all svc_static_ok (service_list st) \<and> list_all svc_fresh (service_list st) \<and>
     list_all (\<lambda>a. list_all cmd_ok (act_commands a)) (action_list st)"

lemma fresh_flags:
  "\<not> has SVC_CONSOLE (SVC_RUNNING OR SVC_RESTARTING OR SVC_RESET OR SVC_RESTART)"
  "\<not> has SVC_DISABLED (SVC_RUNNING OR SVC_RESTARTING OR SVC_RESET OR SVC_RESTART)"
  "\<not> has SVC_RC_DISABLED (SVC_RUNNING OR SVC_RESTARTING OR SVC_RESET OR SVC_RESTART)"
  "\<not> has SVC_ONESHOT (SVC_RUNNING OR SVC_RESTARTING OR SVC_RESET OR SVC_RESTART)"
  "\<not> has SVC_CRITICAL (SVC_RUNNING OR SVC_RESTARTING OR SVC_RESET OR SVC_RESTART)"
  by (simp_all add: has_def SVC_CONSOLE_def SVC_DISABLED_def SVC_RC_DISABLED_def SVC_ONESHOT_def
        SVC_CRITICAL_def SVC_RUNNING_def SVC_RESTARTING_def SVC_RESET_def SVC_RESTART_def)

lemma those_length: "those xs = Some ys \<Longrightarrow> length ys = length xs"
  by (induction xs arbitrary: ys) (auto split: option.splits)

lemma length_arg_range: "arg_range args i n = Some as \<Longrightarrow> length as = n - i"
  by (simp add: arg_range_def those_length)

lemma make_command_ok:
  assumes "kw_is kw COMMAND" "kw_nargs kw \<le> length args" "length args \<le> INIT_PARSER_MAXARGS"
  shows "cmd_ok (make_command kw args)"
  using assms kw_command_func [of kw] by (auto simp: cmd_ok_def make_command_def)

text \<open>An option line keeps a service well formed and fresh, and its name.\<close>

definition svc_keeps :: "(service \<Rightarrow> service) \<Rightarrow> bool" where
  "svc_keeps f \<longleftrightarrow> (\<forall>svc. svc_name (f svc) = svc_name svc \<and>
     (svc_static_ok svc \<longrightarrow> svc_static_ok (f svc)) \<and> (svc_fresh svc \<longrightarrow> svc_fresh (f svc)))"

named_theorems keeps "option lines keep a service well formed"

lemma svc_keeps_id [keeps]: "svc_keeps id"
  by (simp add: svc_keeps_def)

lemma svc_keeps_comp [keeps]: "svc_keeps f \<Longrightarrow> svc_keeps g \<Longrightarrow> svc_keeps (f \<circ> g)"
  by (simp add: svc_keeps_def)

lemma svc_keeps_flags [keeps]:
  "\<not> has m (SVC_RUNNING OR SVC_RESTARTING OR SVC_RESET OR SVC_RESTART) \<Longrightarrow> svc_keeps (add_flags m)"
  by (simp add: svc_keeps_def add_flags_def svc_static_ok_def svc_fresh_def has_or_left)

lemma svc_keeps_disabled [keeps]: "svc_keeps (add_flags SVC_RC_DISABLED \<circ> add_flags SVC_DISABLED)"
  by (intro svc_keeps_comp svc_keeps_flags fresh_flags)

lemmas keeps_defs = svc_keeps_def svc_static_ok_def svc_fresh_def Let_def bind_eq_Some_conv

lemma option_class_keeps [keeps]: "option_class nargs args = Some f \<Longrightarrow> svc_keeps f"
  by (auto simp: option_class_def keeps_defs split: if_splits)

lemma option_ioprio_keeps [keeps]: "option_ioprio P nargs args = Some f \<Longrightarrow> svc_keeps f"
  by (auto simp: option_ioprio_def keeps_defs split: if_splits)

lemma option_group_keeps [keeps]: "option_group P nargs args = Some f \<Longrightarrow> svc_keeps f"
  by (auto simp: option_group_def keeps_defs split: if_splits dest!: length_arg_range)

lemma option_keycodes_keeps [keeps]: "option_keycodes nargs args = Some f \<Longrightarrow> svc_keeps f"
  by (auto simp: option_keycodes_def keeps_defs split: if_splits)

lemma option_setenv_keeps [keeps]: "option_setenv nargs args = Some f \<Longrightarrow> svc_keeps f"
  by (auto simp: option_setenv_def keeps_defs split: if_splits)

lemma option_socket_keeps [keeps]: "option_socket P nargs args = Some f \<Longrightarrow> svc_keeps f"
  by (auto simp: option_socket_def keeps_defs split: if_splits)

lemma option_user_keeps [keeps]: "option_user P nargs args = Some f \<Longrightarrow> svc_keeps f"
  by (auto simp: option_user_def keeps_defs split: if_splits)

lemma option_onrestart_keeps [keeps]:
  assumes "option_onrestart nargs args = Some f" "nargs \<le> INIT_PARSER_MAXARGS"
  shows "svc_keeps f"
proof -
  have "cmd_ok (make_command kw cargs)"
    if "kw_is kw COMMAND" "\<not> nargs - 1 < kw_nargs kw" "arg_range args 1 nargs = Some cargs" for kw cargs
    by (rule make_command_ok) (use that assms(2) in \<open>auto dest: length_arg_range\<close>)
  with assms(1) show ?thesis by (auto simp: option_onrestart_def keeps_defs split: if_splits)
qed

lemma option_effect_keeps:
  assumes "option_effect P nargs args = Some f" "nargs \<le> INIT_PARSER_MAXARGS"
  shows "svc_keeps f"
proof -
  obtain a0 where a0: "arg args 0 = Some a0" using assms(1) by (auto simp: option_effect_def bind_eq_Some_conv)
  show ?thesis
    using assms by (cases "lookup_keyword a0") (auto simp: option_effect_def a0 fresh_flags intro: keeps)
qed

definition parser_ok :: "parser \<Rightarrow> bool" where
  "parser_ok = (\<lambda>(ctx, imps, st). conf_ok st)"

lemma list_all_upd_nth:
  "list_all Q xs \<Longrightarrow> (\<And>x. Q x \<Longrightarrow> Q (f x)) \<Longrightarrow> list_all Q (upd_nth i f xs)"
  using upd_nth_all [of xs Q f i] by (simp add: list_all_iff)

lemma conf_ok_upd_svc: "conf_ok st \<Longrightarrow> svc_keeps f \<Longrightarrow> conf_ok (upd_svc i f st)"
  by (simp add: conf_ok_def upd_svc_def svc_keeps_def map_upd_nth_same list_all_upd_nth)

lemma parse_line_service_ok:
  assumes "conf_ok st" "parse_line_service P i nargs args st = Some st'" "nargs \<le> INIT_PARSER_MAXARGS"
  shows "conf_ok st'"
proof (cases "nargs = 0")
  case False
  then obtain f where f: "option_effect P nargs args = Some f"
    "st' = upd_svc i (\<lambda>s. f (s\<lparr>svc_ioprio_class := IoSchedClass_NONE\<rparr>)) st"
    using assms(2) by (auto simp: parse_line_service_def bind_eq_Some_conv)
  have "svc_keeps (\<lambda>s. f (s\<lparr>svc_ioprio_class := IoSchedClass_NONE\<rparr>))"
    using option_effect_keeps [OF f(1) assms(3)] by (simp add: svc_keeps_def svc_static_ok_def svc_fresh_def)
  with assms(1) f(2) show ?thesis by (simp add: conf_ok_upd_svc)
qed (use assms in \<open>simp add: parse_line_service_def\<close>)

lemma conf_ok_add_command:
  "conf_ok st \<Longrightarrow> cmd_ok c \<Longrightarrow>
   conf_ok (st\<lparr>action_list := upd_nth i (\<lambda>a. a\<lparr>act_commands := act_commands a @ [c]\<rparr>) (action_list st)\<rparr>)"
  by (simp add: conf_ok_def list_all_upd_nth)

lemma parse_line_action_ok:
  assumes "conf_ok st" "parse_line_action i nargs args st = Some st'" "nargs \<le> INIT_PARSER_MAXARGS"
  shows "conf_ok st'"
  using assms
  by (auto simp: parse_line_action_def bind_eq_Some_conv Let_def not_less dest!: length_arg_range
           intro!: conf_ok_add_command make_command_ok split: if_splits)

lemma parse_service_ok:
  assumes "conf_ok st" "parse_service nargs args st = Some (r, st')" "nargs \<le> INIT_PARSER_MAXARGS"
  shows "conf_ok st'"
proof -
  consider "st' = st" | name argv where "valid_name name" "service_find_by_name name st = None"
      "length argv = nargs - 2" "3 \<le> nargs" "st' = st\<lparr>service_list := service_list st @ [new_service name argv]\<rparr>"
    using assms(2) by (auto simp: parse_service_def bind_eq_Some_conv not_less split: if_splits dest!: length_arg_range)
  then show ?thesis
  proof cases
    case 2
    then have "argv \<noteq> []" by auto
    with 2 assms(1,3) show ?thesis
      by (auto simp: conf_ok_def service_find_by_name_def find_index_None svc_static_ok_def svc_fresh_def
            new_service_def has_zero NR_SVC_SUPP_GIDS_def)
  qed (use assms(1) in simp)
qed

lemma config_line_ok:
  assumes "parser_ok h" "config_line P line nargs args h = Some h'" "nargs \<le> INIT_PARSER_MAXARGS"
  shows "parser_ok h'"
proof -
  obtain ctx imps st where h: "h = (ctx, imps, st)" by (cases h)
  have ok: "conf_ok st" using assms(1) by (simp add: parser_ok_def h)
  have act: "conf_ok (st\<lparr>action_list := action_list st @ [\<lparr>act_name = n, act_commands = []\<rparr>]\<rparr>)" for n
    using ok by (simp add: conf_ok_def)
  obtain kw where "parse_line P nargs args h = Some h' \<or> parse_new_section P kw nargs args h = Some h'"
    using assms(2) by (auto simp: config_line_def bind_eq_Some_conv Let_def parse_line_0 split: if_splits)
  then show ?thesis
  proof
    assume "parse_line P nargs args h = Some h'"
    then show ?thesis using ok parse_line_service_ok [OF ok _ assms(3)] parse_line_action_ok [OF ok _ assms(3)]
      by (auto simp: parse_line_def h parser_ok_def split: line_ctx.splits)
  next
    assume "parse_new_section P kw nargs args h = Some h'"
    then show ?thesis using ok act parse_service_ok [OF ok _ assms(3)]
      by (auto simp: parse_new_section_def h parser_ok_def parse_action_def bind_eq_Some_conv split: if_splits)
  qed
qed

lemma spec_lines_nargs:
  "(l, n, a) \<in> set (spec_lines bump maxargs line x pending inp) \<Longrightarrow> snd x \<le> maxargs \<Longrightarrow> n \<le> maxargs"
proof (induction bump maxargs line x pending inp rule: spec_lines.induct)
  case (1 bump maxargs line x inp)
  then show ?case by (auto split: if_splits)
next
  case (2 bump maxargs line x inp)
  obtain tok t rest k nl where sp: "spec_token inp = (tok, t, rest, k, nl)" by (metis prod_cases5)
  have "snd (store_arg maxargs t x) \<le> maxargs" using "2.prems"(2) by (auto simp: store_arg_def split: prod.splits)
  with 2 sp show ?case by (cases tok) (auto simp: spec_lines.simps(2))
qed

lemma read_file_NUL: "read_file P fn st = (Some data, st') \<Longrightarrow> NUL \<in> set data \<and> traced st st'"
  using traced_read_file [of st P fn] by (auto simp: read_file_def run_simps split: if_splits)

text \<open>
  What holds before a file is read and is kept by every line holds after the file and all its
  imports.
\<close>

locale parser_client =
  fixes P :: platform and R :: "init_st \<Rightarrow> bool"
  assumes keeps_traced: "R s \<Longrightarrow> traced s s' \<Longrightarrow> R s'"
    and keeps_line: "config_line P line nargs args (ctx, imps, s) = Some (ctx', imps', s') \<Longrightarrow>
      nargs \<le> INIT_PARSER_MAXARGS \<Longrightarrow> R s \<Longrightarrow> R s'"
begin

lemma keeps_fold:
  assumes "\<forall>(l, n, a) \<in> set ls. n \<le> INIT_PARSER_MAXARGS" "fold_lines (config_line P) ls h = Some h'" "R (snd (snd h))"
  shows "R (snd (snd h'))"
  using assms
proof (induction ls arbitrary: h)
  case (Cons x ls)
  obtain l n a where x: "x = (l, n, a)" by (cases x)
  with Cons.prems obtain h1 where h1: "config_line P l n a h = Some h1" "fold_lines (config_line P) ls h1 = Some h'"
    by (auto split: option.splits)
  have "R (snd (snd h1))" using keeps_line [of l n a "fst h" "fst (snd h)" "snd (snd h)"] h1(1) Cons.prems(1,3) x by (cases h1) auto
  with Cons h1(2) show ?case by simp
qed simp

lemma keeps_config:
  assumes "NUL \<in> set data" "parse_config P data st = Some (imps, st')" "R st"
  shows "R st'"
proof -
  obtain ctx where "fold_lines (config_line P) (rc_lines (cstr_at data 0)) (Ctx_none, [], st) = Some (ctx, imps, st')"
    using assms(2) by (auto simp: parse_config_eq [OF assms(1)])
  moreover have "\<forall>(l, n, a) \<in> set (rc_lines (cstr_at data 0)). n \<le> INIT_PARSER_MAXARGS"
    by (auto simp: rc_lines_def dest!: spec_lines_nargs)
  ultimately show ?thesis
    using keeps_fold [of "rc_lines (cstr_at data 0)" "(Ctx_none, [], st)"] assms(3) by auto
qed

lemma keeps_imports:
  assumes "parse_imports P files st = Some st'" "R st"
  shows "R st'"
proof -
  have "R st \<longrightarrow> R st'"
  proof (rule parse_imports.raw_induct [where Pa = "\<lambda>x y. fst (fst x) = P \<longrightarrow> R (snd x) \<longrightarrow> R y",
        OF _ assms(1), unfolded fst_conv snd_conv, THEN mp, OF _ refl], goal_cases)
    case (1 loop Q files st st')
    show ?case
    proof (intro impI)
      assume Q: "Q = P" and R: "R st"
      show "R st'"
      proof (cases files)
        case Nil
        then show ?thesis using 1(2) R by simp
      next
        case (Cons fn fs)
        obtain r s1 where r: "read_file P fn st = (r, s1)" by force
        have s1: "R s1" using keeps_traced [OF R] traced_read_file [of st P fn] r by simp
        show ?thesis
        proof (cases r)
          case None
          then have "loop Q fs s1 = Some st'" using 1(2) Cons r Q by simp
          from 1(1) [OF this] s1 Q show ?thesis by blast
        next
          case (Some data)
          then obtain imps s2 where p: "parse_config P data s1 = Some (imps, s2)" "loop Q (imps @ fs) s2 = Some st'"
            using 1(2) Cons r Q by (auto split: option.splits)
          have "NUL \<in> set data" using read_file_NUL r Some by blast
          from keeps_config [OF this p(1) s1] 1(1) [OF p(2)] Q show ?thesis by blast
        qed
      qed
    qed
  qed
  with assms(2) show ?thesis by simp
qed

lemma keeps_file:
  assumes "init_parse_config_file P fn st = Some (ret, st')" "R st"
  shows "R st'"
proof -
  obtain r s1 where r: "read_file P fn st = (r, s1)" by force
  have s1: "R s1" using keeps_traced [OF assms(2)] traced_read_file [of st P fn] r by simp
  show ?thesis
  proof (cases r)
    case None
    then show ?thesis using assms(1) r s1 by (simp add: init_parse_config_file_def)
  next
    case (Some data)
    then obtain imps s2 where p: "parse_config P data s1 = Some (imps, s2)" "parse_imports P imps s2 = Some st'"
      using assms(1) r by (auto simp: init_parse_config_file_def bind_eq_Some_conv)
    have "NUL \<in> set data" using read_file_NUL r Some by blast
    from keeps_imports [OF p(2) keeps_config [OF this p(1) s1]] show ?thesis .
  qed
qed

end

lemma conf_ok_traced: "traced st st' \<Longrightarrow> conf_ok st \<Longrightarrow> conf_ok st'"
  by (simp add: conf_ok_def traced_frame)

interpretation conf: parser_client P conf_ok for P
proof
  show "conf_ok s \<Longrightarrow> traced s s' \<Longrightarrow> conf_ok s'" for s s' by (rule conf_ok_traced)
  show "config_line P line nargs args (ctx, imps, s) = Some (ctx', imps', s') \<Longrightarrow> nargs \<le> INIT_PARSER_MAXARGS \<Longrightarrow>
      conf_ok s \<Longrightarrow> conf_ok s'" for line nargs args ctx imps s ctx' imps' s'
    using config_line_ok [of "(ctx, imps, s)" P line nargs args "(ctx', imps', s')"] by (simp add: parser_ok_def)
qed

text \<open>
  C14.  Whatever the files hold, the parser only builds services and actions the rest of init can
  work with: service names are valid and pairwise different, a service has a program and at most
  62 arguments and 12 supplementary groups, and every command, of an action or of an \<open>onrestart\<close>
  line, has a function and at least as many arguments as the keyword table asks for.
\<close>

theorem parsed_configuration_ok:
  assumes "conf_ok st" "init_parse_config_file P fn st = Some (ret, st')"
  shows "conf_ok st'"
  using conf.keeps_file [OF assms(2,1)] .

subsection \<open>Reading back a printed configuration\<close>

text \<open>Lines that read no argument they do not have.\<close>

definition complete_line :: "string list \<Rightarrow> bool" where
  "complete_line ws \<longleftrightarrow> ws \<noteq> [] \<and> length ws \<le> INIT_PARSER_MAXARGS \<and>
     (\<forall>w \<in> set ws. DQ \<notin> set w \<and> NUL \<notin> set w) \<and>
     \<not> (hd ws = ''setenv'' \<and> length ws = 2) \<and> \<not> (hd ws = ''onrestart'' \<and> length ws = 1)"

definition word_line :: "platform \<Rightarrow> string list \<Rightarrow> parser \<Rightarrow> parser option" where
  "word_line P ws h = config_line P 0 (length ws) (map Some ws) h"

lemma arg_words [simp]: "i < length ws \<Longrightarrow> arg (map Some ws @ stale) i = Some (ws ! i)"
  by (simp add: arg_def nth_append)

lemma arg_words' [simp]: "i < length ws \<Longrightarrow> arg (map Some ws) i = Some (ws ! i)"
  by (simp add: arg_def)

lemma those_Some [simp]: "those (map Some xs) = Some xs"
  by (induction xs) auto

lemma arg_range_words:
  "n \<le> length ws \<Longrightarrow> arg_range (map Some ws @ stale) i n = Some (take (n - i) (drop i ws))"
proof -
  assume n: "n \<le> length ws"
  have "map (arg (map Some ws @ stale)) [i..<n] = map Some (map ((!) ws) [i..<n])" using n by simp
  moreover have "map ((!) ws) [i..<n] = take (n - i) (drop i ws)"
    using n by (intro nth_equalityI) auto
  ultimately show ?thesis by (simp only: arg_range_def those_Some)
qed

lemma arg_range_words': "n \<le> length ws \<Longrightarrow> arg_range (map Some ws) i n = Some (take (n - i) (drop i ws))"
  using arg_range_words [of n ws "[]"] by simp

lemma lookup_setenv: "lookup_keyword w = K_setenv \<Longrightarrow> w = ''setenv''"
  using names_lookup_keyword [of w] by (simp add: names_def kw_name_def)

lemma lookup_onrestart: "lookup_keyword w = K_onrestart \<Longrightarrow> w = ''onrestart''"
  using names_lookup_keyword [of w] by (simp add: names_def kw_name_def)

lemmas words_simps = arg_words arg_words' arg_range_words arg_range_words'

lemma option_effect_words:
  assumes "complete_line ws"
  shows "option_effect P (length ws) (map Some ws @ stale) = option_effect P (length ws) (map Some ws)"
proof -
  have ne: "0 < length ws" "hd ws = ws ! 0" using assms by (auto simp: complete_line_def hd_conv_nth)
  have "lookup_keyword (ws ! 0) = K_setenv \<Longrightarrow> length ws \<noteq> 2"
    "lookup_keyword (ws ! 0) = K_onrestart \<Longrightarrow> length ws \<noteq> 1"
    using assms ne lookup_setenv [of "ws ! 0"] lookup_onrestart [of "ws ! 0"] by (auto simp: complete_line_def)
  then have se: "lookup_keyword (ws ! 0) = K_setenv \<Longrightarrow> 2 \<le> length ws \<Longrightarrow> 3 \<le> length ws"
    "lookup_keyword (ws ! 0) = K_onrestart \<Longrightarrow> 2 \<le> length ws"
    using ne(1) by linarith+
  show ?thesis
    using se ne
    by (cases "lookup_keyword (ws ! 0)")
       (auto simp: option_effect_def option_class_def option_ioprio_def option_group_def option_keycodes_def
          option_onrestart_def option_setenv_def option_socket_def option_user_def words_simps Let_def)
qed

lemma config_line_words:
  assumes "complete_line ws"
  shows "config_line P line (length ws) (map Some ws @ stale) h = word_line P ws h"
proof -
  obtain ctx imps st where h: "h = (ctx, imps, st)" by (cases h)
  have ne: "0 < length ws" using assms by (auto simp: complete_line_def)
  have pl: "parse_line P (length ws) (map Some ws @ stale) h = parse_line P (length ws) (map Some ws) h"
    using ne by (auto simp: parse_line_def h parse_line_service_def parse_line_action_def words_simps
        option_effect_words [OF assms] Let_def split: line_ctx.splits)
  have "parse_new_section P kw (length ws) (map Some ws @ stale) h = parse_new_section P kw (length ws) (map Some ws) h" for kw
    by (auto simp: parse_new_section_def h parse_service_def parse_action_def parse_import_def words_simps)
  with pl ne show ?thesis by (simp add: config_line_def word_line_def Let_def parse_line_0)
qed

definition run_words :: "platform \<Rightarrow> string list list \<Rightarrow> parser \<Rightarrow> parser option" where
  "run_words P ls h = fold_lines (config_line P) (map (\<lambda>ws. (0, length ws, map Some ws)) ls) h"

lemma run_words_simps [simp]:
  "run_words P [] h = Some h"
  "run_words P (ws # ls) h = Option.bind (word_line P ws h) (run_words P ls)"
  by (simp_all add: run_words_def word_line_def split: option.split Option.bind_split)


lemma fold_lines_print:
  assumes "\<forall>ws \<in> set ls. complete_line ws" "length args = INIT_PARSER_MAXARGS"
  shows "fold_lines (config_line P)
      (spec_lines Suc INIT_PARSER_MAXARGS line (args, 0) False (concat (map print_line ls) @ [NL])) h =
    run_words P ls h"
  using assms
proof (induction ls arbitrary: args line h)
  case Nil
  show ?case by (simp add: spec_lines_newline spec_lines.simps(2) [of _ _ _ _ "[]"])
next
  case (Cons ws ls)
  let ?args = "map Some ws @ drop (length ws) args"
  have c: "complete_line ws" "length ws \<le> length args" "ws \<noteq> []" "\<forall>w \<in> set ws. DQ \<notin> set w"
    using Cons.prems by (auto simp: complete_line_def)
  have len: "length ?args = INIT_PARSER_MAXARGS" using Cons.prems(2) c(2) by simp
  have "spec_lines Suc INIT_PARSER_MAXARGS line (args, 0) False (print_line ws @ concat (map print_line ls) @ [NL]) =
     (Suc line, length ws, ?args) #
     spec_lines Suc INIT_PARSER_MAXARGS (Suc line) (?args, 0) False (concat (map print_line ls) @ [NL])"
    using spec_lines_print_line [OF c(4,3,2), of Suc line] by (simp add: Cons.prems(2))
  with Cons.IH [OF _ len, of "Suc line"] Cons.prems(1) show ?case
    by (simp add: config_line_words [OF c(1)] split: option.split Option.bind_split)
qed

lemma parse_config_words:
  assumes "\<forall>ws \<in> set ls. complete_line ws"
  shows "parse_config P (concat (map print_line ls) @ [NL, NUL]) st =
    map_option snd (run_words P ls (Ctx_none, [], st))"
proof -
  have "\<forall>ws \<in> set ls. \<forall>w \<in> set ws. NUL \<notin> set w" using assms by (simp add: complete_line_def)
  then have "NUL \<notin> set (concat (map print_line ls))" by (rule print_no_NUL)
  then have "cstr_at (concat (map print_line ls) @ [NL, NUL]) 0 = concat (map print_line ls) @ [NL]"
    using takeWhile_stop [of "concat (map print_line ls) @ [NL]" "\<lambda>c. c \<noteq> NUL" NUL "[]"]
    by (force simp: cstr_at_def)
  then show ?thesis
    using fold_lines_print [OF assms, of "replicate INIT_PARSER_MAXARGS None"]
    by (simp add: parse_config_eq rc_lines_def)
qed

text \<open>
  A configuration file, written with every word in double quotes, is parsed line by line:
  the parser sees exactly the words of each line, however blanks, hashes, backslashes or line
  ends occur in them, and never an argument left over from an earlier line.
\<close>

lemma parse_config_print:
  assumes "\<forall>ws \<in> set ls. complete_line ws"
  shows "parse_config P (concat (map print_line ls) @ [NL, NUL]) st =
    map_option snd (run_words P ls (Ctx_none, [], st))"
  using assms by (rule parse_config_words)

lemma parse_config_print_witness:
  "complete_line [''on'', ''boot''] \<and> complete_line [''setprop'', ''a'', ''x # y''] \<and>
   parse_config example_platform
     (concat (map print_line [[''on'', ''boot''], [''setprop'', ''a'', ''x # y'']]) @ [NL, NUL]) init_st0 =
   map_option snd (run_words example_platform [[''on'', ''boot''], [''setprop'', ''a'', ''x # y'']] (Ctx_none, [], init_st0))"
proof -
  have all: "\<forall>ws \<in> set [[''on'', ''boot''], [''setprop'', ''a'', ''x # y'']]. complete_line ws" by code_simp
  then have "complete_line [''on'', ''boot''] \<and> complete_line [''setprop'', ''a'', ''x # y'']" by simp
  with parse_config_print [OF all] show ?thesis by blast
qed

subsection \<open>Reading back a service\<close>








lemma lookup_option_names:
  "lookup_keyword ''class'' = K_class" "lookup_keyword ''user'' = K_user" "lookup_keyword ''group'' = K_group"
  "lookup_keyword ''console'' = K_console" "lookup_keyword ''disabled'' = K_disabled"
  "lookup_keyword ''oneshot'' = K_oneshot" "lookup_keyword ''critical'' = K_critical"
  "lookup_keyword ''setenv'' = K_setenv" "lookup_keyword ''service'' = K_service"
  by (simp_all add: lookup_keyword_def)

lemma not_section_names:
  "\<not> kw_is K_class SECTION" "\<not> kw_is K_user SECTION" "\<not> kw_is K_group SECTION" "\<not> kw_is K_console SECTION"
  "\<not> kw_is K_disabled SECTION" "\<not> kw_is K_oneshot SECTION" "\<not> kw_is K_critical SECTION"
  "\<not> kw_is K_setenv SECTION" "kw_is K_service SECTION"
  by (simp_all add: kw_section)












definition example_service :: service where
  "example_service = (new_service ''adbd'' [''/sbin/adbd''])\<lparr>svc_classname := ''core'',
     svc_uid := 2000, svc_gid := 2000, svc_supp_gids := [1004, 3003],
     svc_flags := SVC_DISABLED OR SVC_RC_DISABLED, svc_envvars := [\<lparr>ei_name = ''A'', ei_value = ''b c''\<rparr>]\<rparr>"


lemma conf_ok_start: "conf_ok init_st0"
  by (simp add: conf_ok_def init_st0_def)

theorem parsed_configuration_ok_witness:
  "\<exists>st'. init_parse_config_file example_platform ''/init.rc'' init_st0 = Some (0, st') \<and> conf_ok st'"
proof -
  obtain st1 where r: "read_file example_platform ''/init.rc'' init_st0 = (Some [NL, NUL], st1)"
  proof -
    have "fst (read_file example_platform ''/init.rc'' init_st0) = Some [NL, NUL]" by code_simp
    then show thesis using that by (metis prod.collapse)
  qed
  have "parse_config example_platform [NL, NUL] st1 = Some ([], st1)"
    using parse_config_words [of "[]" example_platform st1] by simp
  then have i: "init_parse_config_file example_platform ''/init.rc'' init_st0 = Some (0, st1)"
    by (simp add: init_parse_config_file_def r parse_imports.simps [of _ "[]"])
  with parsed_configuration_ok [OF conf_ok_start i] show ?thesis by blast
qed

subsection \<open>Two surprises of the option lines\<close>

text \<open>
  An I/O priority lasts only until the next option line: every option line of a service,
  other than \<open>ioprio\<close> itself, sets its scheduling class back to none.
\<close>

lemma ioprio_reset_by_next_option:
  assumes "parse_line_service P i nargs args st = Some st'" "nargs \<noteq> 0" "i < length (service_list st)"
    and "arg args 0 = Some a0" "lookup_keyword a0 \<noteq> K_ioprio"
  shows "svc_ioprio_class (service_list st' ! i) = IoSchedClass_NONE"
proof -
  obtain f where f: "option_effect P nargs args = Some f"
    "st' = upd_svc i (\<lambda>s. f (s\<lparr>svc_ioprio_class := IoSchedClass_NONE\<rparr>)) st"
    using assms(1,2) by (auto simp: parse_line_service_def bind_eq_Some_conv)
  have "svc_ioprio_class (f s) = svc_ioprio_class s" for s
    using f(1) assms(4,5)
    by (cases "lookup_keyword a0")
       (auto simp: option_effect_def option_class_def option_group_def option_keycodes_def add_flags_def
          option_onrestart_def option_setenv_def option_socket_def option_user_def bind_eq_Some_conv Let_def
          split: if_splits)
  then show ?thesis using f(2) assms(3) by (simp add: upd_svc_def upd_nth_def)
qed

lemma ioprio_reset_by_next_option_witness:
  "\<exists>st'. parse_line_service example_platform 0 1 [Some ''oneshot'']
       (init_st0\<lparr>service_list := [example_service\<lparr>svc_ioprio_class := IoSchedClass_RT\<rparr>]\<rparr>) = Some st' \<and>
     svc_ioprio_class (service_list st' ! 0) = IoSchedClass_NONE"
proof -
  let ?st = "init_st0\<lparr>service_list := [example_service\<lparr>svc_ioprio_class := IoSchedClass_RT\<rparr>]\<rparr>"
  have "parse_line_service example_platform 0 1 [Some ''oneshot''] ?st \<noteq> None" by code_simp
  then obtain st' where st': "parse_line_service example_platform 0 1 [Some ''oneshot''] ?st = Some st'" by blast
  have k: "lookup_keyword ''oneshot'' \<noteq> K_ioprio" by code_simp
  show ?thesis using st' ioprio_reset_by_next_option [OF st' _ _ _ k] by (simp add: arg_def)
qed

text \<open>
  An option \<open>setenv\<close> without a value takes the third word of an earlier line for its value:
  after \<open>service a /bin/p\<close>, the line \<open>setenv X\<close> sets \<open>X\<close> to the program of the service.
\<close>

lemma setenv_takes_stale_argument:
  "parse_config P (''service a /bin/p'' @ [NL] @ ''setenv X'' @ [NL, NUL]) init_st0 =
     Some ([], init_st0\<lparr>service_list :=
       [(new_service ''a'' [''/bin/p''])\<lparr>svc_envvars := [\<lparr>ei_name = ''X'', ei_value = ''/bin/p''\<rparr>]\<rparr>]\<rparr>)"
proof -
  have l: "rc_lines (cstr_at (''service a /bin/p'' @ [NL] @ ''setenv X'' @ [NL, NUL]) 0) =
      [(1, 3, [Some ''service'', Some ''a'', Some ''/bin/p''] @ replicate 61 None),
       (2, 2, [Some ''setenv'', Some ''X'', Some ''/bin/p''] @ replicate 61 None)]"
    by code_simp
  have v: "valid_name ''a''" by code_simp
  have r: "arg_range ([Some ''service'', Some ''a'', Some ''/bin/p''] @ replicate 61 None) 2 3 = Some [''/bin/p'']"
    by (simp add: arg_range_def arg_def upt_rec)
  have i: "service_list init_st0 = []" by (simp add: init_st0_def)
  have e: "parse_config P (''service a /bin/p'' @ [NL] @ ''setenv X'' @ [NL, NUL]) init_st0 =
      map_option snd (fold_lines (config_line P)
        (rc_lines (cstr_at (''service a /bin/p'' @ [NL] @ ''setenv X'' @ [NL, NUL]) 0)) (Ctx_none, [], init_st0))"
    by (rule parse_config_eq) simp
  show ?thesis
    unfolding e l using v r
    by (simp add: config_line_def arg_def lookup_option_names not_section_names parse_line_0
        parse_new_section_def parse_service_def service_find_by_name_def i parse_line_def
        parse_line_service_def option_effect_def option_setenv_def upd_svc_def upd_nth_def new_service_def)
qed

end
