(* ===== verification/Invariant.thy ===== *)
theory Invariant
  imports Init_Parser
begin

text \<open>
  The invariant of the running init and the relation \<open>step_ok\<close> that every routine of the later
  theories is shown to satisfy.

  \<open>svc_run_ok\<close> relates the flags of a service to its process id; \<open>init_inv\<close> adds the property
  area, the configuration and the action queue.  \<open>step_ok P st st'\<close> says that \<open>st'\<close> satisfies the
  invariant if \<open>st\<close> does, and that the transition respects what init promises never to change: the
  configuration of the services and of the actions, and the value of a read-only property.  The rules
  in \<open>step_intros\<close> have the form \<open>step_ok P st s \<Longrightarrow> step_ok P st (f s)\<close> and are applied from the
  last call of a routine back to its first.
\<close>

subsection \<open>The flags are different bits\<close>

lemmas SVC_defs = SVC_DISABLED_def SVC_ONESHOT_def SVC_RUNNING_def SVC_RESTARTING_def
  SVC_CONSOLE_def SVC_CRITICAL_def SVC_RESET_def SVC_RC_DISABLED_def SVC_RESTART_def

lemma single_flags [simp]:
  "single SVC_DISABLED" "single SVC_ONESHOT" "single SVC_RUNNING" "single SVC_RESTARTING"
  "single SVC_CONSOLE" "single SVC_CRITICAL" "single SVC_RESET" "single SVC_RC_DISABLED"
  "single SVC_RESTART"
proof -
  have s: "single (2 ^ k)" if "k < 32" for k using that by (auto simp: single_def)
  show "single SVC_DISABLED" "single SVC_ONESHOT" "single SVC_RUNNING" "single SVC_RESTARTING"
    "single SVC_CONSOLE" "single SVC_CRITICAL" "single SVC_RESET" "single SVC_RC_DISABLED"
    "single SVC_RESTART"
    using s [of 0] s [of 1] s [of 2] s [of 3] s [of 4] s [of 5] s [of 6] s [of 7] s [of 8]
    by (simp_all add: SVC_defs)
qed

lemma flag_self [flag_simps]:
  "has SVC_DISABLED SVC_DISABLED" "has SVC_ONESHOT SVC_ONESHOT" "has SVC_RUNNING SVC_RUNNING" "has SVC_RESTARTING SVC_RESTARTING" "has SVC_CONSOLE SVC_CONSOLE"
  "has SVC_CRITICAL SVC_CRITICAL" "has SVC_RESET SVC_RESET" "has SVC_RC_DISABLED SVC_RC_DISABLED" "has SVC_RESTART SVC_RESTART"
  by (simp_all add: has_def SVC_defs)

lemma flag_other [flag_simps]:
  "\<not> has SVC_DISABLED SVC_ONESHOT" "\<not> has SVC_DISABLED SVC_RUNNING"
  "\<not> has SVC_DISABLED SVC_RESTARTING" "\<not> has SVC_DISABLED SVC_CONSOLE"
  "\<not> has SVC_DISABLED SVC_CRITICAL" "\<not> has SVC_DISABLED SVC_RESET"
  "\<not> has SVC_DISABLED SVC_RC_DISABLED" "\<not> has SVC_DISABLED SVC_RESTART"
  "\<not> has SVC_ONESHOT SVC_DISABLED" "\<not> has SVC_ONESHOT SVC_RUNNING"
  "\<not> has SVC_ONESHOT SVC_RESTARTING" "\<not> has SVC_ONESHOT SVC_CONSOLE"
  "\<not> has SVC_ONESHOT SVC_CRITICAL" "\<not> has SVC_ONESHOT SVC_RESET"
  "\<not> has SVC_ONESHOT SVC_RC_DISABLED" "\<not> has SVC_ONESHOT SVC_RESTART"
  "\<not> has SVC_RUNNING SVC_DISABLED" "\<not> has SVC_RUNNING SVC_ONESHOT"
  "\<not> has SVC_RUNNING SVC_RESTARTING" "\<not> has SVC_RUNNING SVC_CONSOLE"
  "\<not> has SVC_RUNNING SVC_CRITICAL" "\<not> has SVC_RUNNING SVC_RESET"
  "\<not> has SVC_RUNNING SVC_RC_DISABLED" "\<not> has SVC_RUNNING SVC_RESTART"
  "\<not> has SVC_RESTARTING SVC_DISABLED" "\<not> has SVC_RESTARTING SVC_ONESHOT"
  "\<not> has SVC_RESTARTING SVC_RUNNING" "\<not> has SVC_RESTARTING SVC_CONSOLE"
  "\<not> has SVC_RESTARTING SVC_CRITICAL" "\<not> has SVC_RESTARTING SVC_RESET"
  "\<not> has SVC_RESTARTING SVC_RC_DISABLED" "\<not> has SVC_RESTARTING SVC_RESTART"
  "\<not> has SVC_CONSOLE SVC_DISABLED" "\<not> has SVC_CONSOLE SVC_ONESHOT"
  "\<not> has SVC_CONSOLE SVC_RUNNING" "\<not> has SVC_CONSOLE SVC_RESTARTING"
  "\<not> has SVC_CONSOLE SVC_CRITICAL" "\<not> has SVC_CONSOLE SVC_RESET"
  "\<not> has SVC_CONSOLE SVC_RC_DISABLED" "\<not> has SVC_CONSOLE SVC_RESTART"
  "\<not> has SVC_CRITICAL SVC_DISABLED" "\<not> has SVC_CRITICAL SVC_ONESHOT"
  "\<not> has SVC_CRITICAL SVC_RUNNING" "\<not> has SVC_CRITICAL SVC_RESTARTING"
  "\<not> has SVC_CRITICAL SVC_CONSOLE" "\<not> has SVC_CRITICAL SVC_RESET"
  "\<not> has SVC_CRITICAL SVC_RC_DISABLED" "\<not> has SVC_CRITICAL SVC_RESTART"
  "\<not> has SVC_RESET SVC_DISABLED" "\<not> has SVC_RESET SVC_ONESHOT" "\<not> has SVC_RESET SVC_RUNNING"
  "\<not> has SVC_RESET SVC_RESTARTING" "\<not> has SVC_RESET SVC_CONSOLE" "\<not> has SVC_RESET SVC_CRITICAL"
  "\<not> has SVC_RESET SVC_RC_DISABLED" "\<not> has SVC_RESET SVC_RESTART"
  "\<not> has SVC_RC_DISABLED SVC_DISABLED" "\<not> has SVC_RC_DISABLED SVC_ONESHOT"
  "\<not> has SVC_RC_DISABLED SVC_RUNNING" "\<not> has SVC_RC_DISABLED SVC_RESTARTING"
  "\<not> has SVC_RC_DISABLED SVC_CONSOLE" "\<not> has SVC_RC_DISABLED SVC_CRITICAL"
  "\<not> has SVC_RC_DISABLED SVC_RESET" "\<not> has SVC_RC_DISABLED SVC_RESTART"
  "\<not> has SVC_RESTART SVC_DISABLED" "\<not> has SVC_RESTART SVC_ONESHOT"
  "\<not> has SVC_RESTART SVC_RUNNING" "\<not> has SVC_RESTART SVC_RESTARTING"
  "\<not> has SVC_RESTART SVC_CONSOLE" "\<not> has SVC_RESTART SVC_CRITICAL" "\<not> has SVC_RESTART SVC_RESET"
  "\<not> has SVC_RESTART SVC_RC_DISABLED"
  by (simp_all add: has_def SVC_defs)

subsection \<open>The state of a service\<close>

text \<open>
  A service is marked running exactly while it has a process, and a service that waits to be
  restarted has no process, and was neither stopped nor reset.
\<close>

definition svc_run_ok :: "service \<Rightarrow> bool" where
  "svc_run_ok svc \<longleftrightarrow> (has (svc_flags svc) SVC_RUNNING \<longleftrightarrow> svc_pid svc \<noteq> 0) \<and>
     (has (svc_flags svc) SVC_RESTARTING \<longrightarrow> \<not> has (svc_flags svc) SVC_RUNNING \<and>
        \<not> has (svc_flags svc) SVC_DISABLED \<and> \<not> has (svc_flags svc) SVC_RESET \<and>
        \<not> has (svc_flags svc) SVC_RESTART)"

text \<open>
  What a command is apart from the texts of its arguments, which \<open>do_exec\<close> overwrites with their
  expansion, and what a service and an action are apart from their state: all that their
  declaration says.
\<close>

definition cmd_static :: "command \<Rightarrow> command" where
  "cmd_static c = c\<lparr>cmd_args := map (\<lambda>_. []) (cmd_args c)\<rparr>"

definition act_static :: "action \<Rightarrow> action" where
  "act_static a = a\<lparr>act_commands := map cmd_static (act_commands a)\<rparr>"

definition svc_static :: "service \<Rightarrow> service" where
  "svc_static svc = svc\<lparr>svc_onrestart := map cmd_static (svc_onrestart svc),
     svc_flags := svc_flags svc AND (SVC_ONESHOT OR SVC_CONSOLE OR SVC_CRITICAL OR SVC_RC_DISABLED),
     svc_pid := 0, svc_time_started := 0, svc_time_crashed := 0, svc_nr_crashed := 0, svc_keychord_id := 0\<rparr>"

lemma cmd_static_fields:
  assumes "cmd_static c = cmd_static c'"
  shows "cmd_func c = cmd_func c'" "cmd_nargs c = cmd_nargs c'" "length (cmd_args c) = length (cmd_args c')"
proof -
  have "cmd_func (cmd_static x) = cmd_func x" "cmd_nargs (cmd_static x) = cmd_nargs x"
    "length (cmd_args (cmd_static x)) = length (cmd_args x)" for x by (simp_all add: cmd_static_def)
  with assms show "cmd_func c = cmd_func c'" "cmd_nargs c = cmd_nargs c'"
    "length (cmd_args c) = length (cmd_args c')" by metis+
qed

lemma cmd_static_ok: "cmd_static c = cmd_static c' \<Longrightarrow> cmd_ok c = cmd_ok c'"
  by (simp only: cmd_ok_def cmd_static_fields [of c c'])

lemma list_all_static:
  assumes "\<And>x y. f x = f y \<Longrightarrow> Q x = Q y"
  shows "map f xs = map f ys \<Longrightarrow> list_all Q xs = list_all Q ys"
proof (induction xs arbitrary: ys)
  case (Cons x xs)
  then obtain y ys' where y: "ys = y # ys'" "f x = f y" "map f xs = map f ys'" by (cases ys) auto
  then show ?case using assms [OF y(2)] Cons.IH [OF y(3)] by simp
qed simp

lemma cmds_static_ok:
  "map cmd_static cs = map cmd_static cs' \<Longrightarrow> list_all cmd_ok cs = list_all cmd_ok cs'"
  by (rule list_all_static [OF cmd_static_ok])

lemma svc_static_fields:
  assumes "svc_static svc = svc_static svc'"
  shows "svc_name svc = svc_name svc'" "svc_classname svc = svc_classname svc'" "svc_uid svc = svc_uid svc'"
    "svc_gid svc = svc_gid svc'" "svc_supp_gids svc = svc_supp_gids svc'" "svc_args svc = svc_args svc'"
    "svc_sockets svc = svc_sockets svc'" "svc_envvars svc = svc_envvars svc'"
    "map cmd_static (svc_onrestart svc) = map cmd_static (svc_onrestart svc')"
    "svc_static_ok svc = svc_static_ok svc'"
proof -
  have "svc_name (svc_static x) = svc_name x" "svc_classname (svc_static x) = svc_classname x"
    "svc_uid (svc_static x) = svc_uid x" "svc_gid (svc_static x) = svc_gid x"
    "svc_supp_gids (svc_static x) = svc_supp_gids x" "svc_args (svc_static x) = svc_args x"
    "svc_sockets (svc_static x) = svc_sockets x" "svc_envvars (svc_static x) = svc_envvars x"
    "svc_onrestart (svc_static x) = map cmd_static (svc_onrestart x)" for x by (simp_all add: svc_static_def)
  with assms show f: "svc_name svc = svc_name svc'" "svc_classname svc = svc_classname svc'" "svc_uid svc = svc_uid svc'"
    "svc_gid svc = svc_gid svc'" "svc_supp_gids svc = svc_supp_gids svc'" "svc_args svc = svc_args svc'"
    "svc_sockets svc = svc_sockets svc'" "svc_envvars svc = svc_envvars svc'"
    "map cmd_static (svc_onrestart svc) = map cmd_static (svc_onrestart svc')" by metis+
  show "svc_static_ok svc = svc_static_ok svc'"
    unfolding svc_static_ok_def f(1,5,6) cmds_static_ok [OF f(9)] ..
qed

lemma svc_fresh_run: "svc_fresh svc \<Longrightarrow> svc_run_ok svc"
  by (simp add: svc_fresh_def svc_run_ok_def flag_simps)

subsection \<open>The invariant\<close>

text \<open>A command of an action: from the configuration, or one of the actions \<open>main\<close> queues.\<close>

definition is_init_action :: "builtin \<Rightarrow> bool" where
  "is_init_action f \<longleftrightarrow> f \<in> {F_wait_for_coldboot_done_action, F_keychord_init_action,
     F_console_init_action, F_property_service_init_action, F_signal_init_action,
     F_check_startup_action, F_queue_property_triggers_action}"

definition act_ok :: "action \<Rightarrow> bool" where
  "act_ok a \<longleftrightarrow> list_all (\<lambda>c. cmd_ok c \<or> is_init_action (cmd_func c)) (act_commands a)"

definition cur_ok :: "init_st \<Rightarrow> bool" where
  "cur_ok st \<longleftrightarrow> (case cur_action st of
     None \<Rightarrow> True
   | Some a \<Rightarrow> a < length (action_list st) \<and>
       (case cur_command st of None \<Rightarrow> True | Some c \<Rightarrow> c < length (act_commands (action_list st ! a))))"

definition init_inv :: "platform \<Rightarrow> init_st \<Rightarrow> bool" where
  "init_inv P st \<longleftrightarrow> area_inv P st \<and>
     distinct (map svc_name (service_list st)) \<and>
     list_all svc_static_ok (service_list st) \<and> list_all svc_run_ok (service_list st) \<and>
     list_all act_ok (action_list st) \<and> queue_ok st \<and> cur_ok st"

definition ro_kept :: "init_st \<Rightarrow> init_st \<Rightarrow> bool" where
  "ro_kept st st' \<longleftrightarrow> (\<forall>name v. has_prefix ''ro.'' name \<longrightarrow> pmap st name = Some v \<longrightarrow> pmap st' name = Some v)"

definition step_ok :: "platform \<Rightarrow> init_st \<Rightarrow> init_st \<Rightarrow> bool" where
  "step_ok P st st' \<longleftrightarrow> (init_inv P st \<longrightarrow> init_inv P st' \<and> ro_kept st st' \<and>
     map svc_static (service_list st') = map svc_static (service_list st) \<and>
     map act_static (action_list st') = map act_static (action_list st))"

named_theorems step_intros "routines that keep the invariant"

lemma step_ok_refl [simp, step_intros]: "step_ok P st st"
  by (simp add: step_ok_def ro_kept_def)

lemma step_if [step_intros]:
  "(b \<Longrightarrow> step_ok P st x) \<Longrightarrow> (\<not> b \<Longrightarrow> step_ok P st y) \<Longrightarrow> step_ok P st (if b then x else y)"
  by simp

lemma step_ok_trans: "step_ok P st st' \<Longrightarrow> step_ok P st' st'' \<Longrightarrow> step_ok P st st''"
  by (simp add: step_ok_def ro_kept_def)

text \<open>Transitions that leave the services, the actions and the property area alone.\<close>

lemma area_inv_same:
  "props s' = props s \<Longrightarrow> pa_toc s' = pa_toc s \<Longrightarrow> pa_mapped s' = pa_mapped s \<Longrightarrow> area_inv P s' = area_inv P s"
  by (simp add: area_inv_def props_ok_def)

lemma queue_ok_same:
  "action_queue s' = action_queue s \<Longrightarrow> queue_corrupt s' = queue_corrupt s \<Longrightarrow>
   action_list s' = action_list s \<Longrightarrow> queue_ok s' = queue_ok s"
  by (simp add: queue_ok_def)

lemma cur_ok_same:
  "cur_action s' = cur_action s \<Longrightarrow> cur_command s' = cur_command s \<Longrightarrow>
   action_list s' = action_list s \<Longrightarrow> cur_ok s' = cur_ok s"
  by (simp add: cur_ok_def split: option.split)

lemma step_same:
  assumes "step_ok P st s" "service_list s' = service_list s" "action_list s' = action_list s"
    "action_queue s' = action_queue s" "queue_corrupt s' = queue_corrupt s"
    "props s' = props s" "pa_toc s' = pa_toc s" "pa_mapped s' = pa_mapped s"
    "cur_action s' = cur_action s" "cur_command s' = cur_command s"
  shows "step_ok P st s'"
proof -
  have "pmap s' = pmap s" using assms(6) by (simp add: pmap_def)
  moreover note area_inv_same [OF assms(6-8)] queue_ok_same [OF assms(4,5,3)] cur_ok_same [OF assms(9,10,3)]
  ultimately show ?thesis using assms(1-3) by (simp add: step_ok_def init_inv_def ro_kept_def)
qed

lemma step_traced: "step_ok P st s \<Longrightarrow> traced s s' \<Longrightarrow> step_ok P st s'"
  by (erule step_same) (simp_all add: traced_frame)

lemma step_perform [step_intros]: "step_ok P st s \<Longrightarrow> step_ok P st (perform Q c s)"
  by (rule step_traced [OF _ traced_perform])

lemma step_exited [step_intros]: "step_ok P st s \<Longrightarrow> step_ok P st (s\<lparr>exited := x\<rparr>)"
  by (erule step_same) simp_all

text \<open>A write of a property, which may queue actions.\<close>

lemma queue_ok_changed: "queue_ok st \<Longrightarrow> queue_ok (property_changed name v st)"
  by (simp add: property_changed_def queue_property_triggers_eq queue_ok_select)

lemma queue_ok_store:
  assumes "property_store P name v st = Some st'" "queue_ok st"
  shows "queue_ok st'"
  using assms
  by (auto simp: property_store_def Let_def perform_def sys_def queue_ok_def split: if_splits option.splits)

lemma queue_ok_persist: "queue_ok st \<Longrightarrow> queue_ok (write_persistent_property P name v st)"
  using traced_write_persistent [of st P name v] by (simp add: queue_ok_def traced_frame)

lemma queue_ok_set: "queue_ok st \<Longrightarrow> queue_ok (snd (property_set P name v st))"
proof (induction P name v st rule: property_set.induct)
  case (1 P name v st)
  show ?case
  proof (cases "property_store P name v st")
    case None
    then show ?thesis using 1 by (simp add: property_set.simps [of P name])
  next
    case (Some st1)
    then show ?thesis using 1(1) [OF Some] queue_ok_store [OF Some 1(2)]
      by (simp add: property_set.simps [of P name] queue_ok_changed queue_ok_persist)
  qed
qed

lemma step_set [step_intros]:
  assumes "step_ok P st s"
  shows "step_ok P st (snd (property_set P name v s))"
proof (rule step_ok_trans [OF assms])
  let ?s' = "snd (property_set P name v s)"
  note F = prop_frame_fields [OF prop_frame_set [of s P name v]]
  have "area_inv P ?s' \<and> ro_kept s ?s'" if "area_inv P s"
    using that area_step_set [of P s name v] by (auto simp: area_inv_def area_step_def ro_kept_def)
  then show "step_ok P s ?s'"
    using cur_ok_same [OF F(5,6,2)] by (simp add: step_ok_def init_inv_def F queue_ok_set)
qed

text \<open>
  A change of one service: the configuration stays, and the flags agree with the process id
  afterwards.
\<close>

lemma upd_svc_frame [simp]:
  "action_list (upd_svc i f st) = action_list st" "action_queue (upd_svc i f st) = action_queue st"
  "queue_corrupt (upd_svc i f st) = queue_corrupt st" "props (upd_svc i f st) = props st"
  "pa_toc (upd_svc i f st) = pa_toc st" "pa_mapped (upd_svc i f st) = pa_mapped st"
  "cur_action (upd_svc i f st) = cur_action st" "cur_command (upd_svc i f st) = cur_command st"
  "have_console (upd_svc i f st) = have_console st" "trace (upd_svc i f st) = trace st"
  "property_area_inited (upd_svc i f st) = property_area_inited st"
  "service_list (upd_svc i f st) = upd_nth i f (service_list st)"
  by (simp_all add: upd_svc_def)

lemma step_upd:
  assumes "step_ok P st s" "i < length (service_list s)"
    and "svc_static (f (service_list s ! i)) = svc_static (service_list s ! i)"
    and "svc_run_ok (service_list s ! i) \<Longrightarrow> svc_run_ok (f (service_list s ! i))"
  shows "step_ok P st (upd_svc i f s)"
proof (rule step_ok_trans [OF assms(1)])
  let ?x = "service_list s ! i" and ?s' = "upd_svc i f s"
  have l: "service_list ?s' = (service_list s)[i := f ?x]" using assms(2) by (simp add: upd_nth_def)
  have m: "map g (service_list ?s') = map g (service_list s)" if "g (f ?x) = g ?x" for g :: "service \<Rightarrow> 'z"
    using that assms(2) unfolding l by (metis list_update_id map_update nth_map)
  have "list_all svc_static_ok (service_list ?s')" if "list_all svc_static_ok (service_list s)"
    using that assms(2) svc_static_fields(10) [OF assms(3)] unfolding l
    by (auto simp: list_all_iff dest!: set_update_subset_insert [THEN subsetD])
  moreover have "list_all svc_run_ok (service_list ?s')" if "list_all svc_run_ok (service_list s)"
    using that assms(2,4) unfolding l
    by (auto simp: list_all_iff dest!: set_update_subset_insert [THEN subsetD])
  moreover have "area_inv P ?s' = area_inv P s" "queue_ok ?s' = queue_ok s" "cur_ok ?s' = cur_ok s"
    by (rule area_inv_same queue_ok_same cur_ok_same; simp)+
  moreover have "pmap ?s' = pmap s" by (simp add: pmap_def)
  ultimately show "step_ok P s ?s'"
    unfolding step_ok_def init_inv_def ro_kept_def
    using m [of svc_static, OF assms(3)] m [of svc_name, OF svc_static_fields(1) [OF assms(3)]] by simp
qed

lemmas perform_frame [simp] = traced_frame [OF traced_perform]

lemma step_init: "init_inv P st \<Longrightarrow> step_ok P st st' \<Longrightarrow> init_inv P st'"
  by (simp add: step_ok_def)

interpretation load: property_client P "step_ok P st" for P st
proof
  show "step_ok P st s \<Longrightarrow> traced s s' \<Longrightarrow> step_ok P st s'" for s s' by (rule step_traced)
  show "step_ok P st s \<Longrightarrow> step_ok P st (snd (property_set P name v s))" for s name v by (rule step_set)
  show "step_ok P st s \<Longrightarrow> step_ok P st (s\<lparr>persistent_properties_loaded := b\<rparr>)" for s b
    by (erule step_same) simp_all
  show "step_ok P st s \<Longrightarrow> step_ok P st (s\<lparr>property_set_fd := fd\<rparr>)" for s fd
    by (erule step_same) simp_all
qed

end
