(* ===== verification/Services.thy ===== *)
theory Services
  imports Invariant
begin

text \<open>
  The services of \<open>init.c\<close>: starting a service in a child process, stopping, resetting and
  restarting it, the restart of services that died, and the control messages.

  A fork has two continuations.  The parent's is the rest of \<open>service_start\<close>.  The child's is
  \<open>service_child\<close>, which works on a copy of the state; when the parent sees a positive process
  id, the calls the child makes are recorded in \<open>children\<close>.
\<close>

subsection \<open>Notification\<close>

definition notify_service_state :: "platform \<Rightarrow> string \<Rightarrow> string \<Rightarrow> init_st \<Rightarrow> init_st" where
  "notify_service_state P name state st =
     (if PROP_NAME_MAX P < length name + 10 then st
      else snd (property_set P (clip (PROP_NAME_MAX P) (''init.svc.'' @ name)) state st))"

subsection \<open>The child\<close>

definition zap_stdio :: "platform \<Rightarrow> init_st \<Rightarrow> init_st" where
  "zap_stdio P st =
     (let (f, st) = sys P (Sys_open ''/dev/null'' [O_RDWR] 0) st; fd = an_ret f;
          st = perform P (Sys_dup2 fd 0) st;
          st = perform P (Sys_dup2 fd 1) st;
          st = perform P (Sys_dup2 fd 2) st
      in perform P (Sys_close fd) st)"

definition open_console :: "platform \<Rightarrow> init_st \<Rightarrow> init_st" where
  "open_console P st =
     (let (f, st) = sys P (Sys_open (console_name st) [O_RDWR] 0) st;
          (g, st) = (if an_ret f < 0 then sys P (Sys_open ''/dev/null'' [O_RDWR] 0) st else (f, st));
          fd = an_ret g;
          st = perform P (Sys_ioctl fd ''TIOCSCTTY'' []) st;
          st = perform P (Sys_dup2 fd 0) st;
          st = perform P (Sys_dup2 fd 1) st;
          st = perform P (Sys_dup2 fd 2) st
      in perform P (Sys_close fd) st)"

definition socket_type :: "string \<Rightarrow> sock_type" where
  "socket_type type =
     (if type = ''stream'' then SOCK_STREAM else if type = ''dgram'' then SOCK_DGRAM else SOCK_SEQPACKET)"

definition child_socket :: "platform \<Rightarrow> socketinfo \<Rightarrow> init_st \<Rightarrow> init_st" where
  "child_socket P si st =
     (let (s, st) = create_socket P (si_name si) (socket_type (si_type si)) (si_perm si) (si_uid si) (si_gid si) st
      in if 0 \<le> s then publish_socket P (si_name si) s st else st)"

text \<open>The descriptor and the size of the property area; both are zero before it is initialised.\<close>

definition get_property_workspace :: "init_st \<Rightarrow> int \<times> int" where
  "get_property_workspace st = (pa_workspace_fd st, if property_area_inited st then PA_SIZE else 0)"

text \<open>The child up to the change of its ids: environment, sockets, priority, standard files.\<close>

definition child_setup :: "platform \<Rightarrow> service \<Rightarrow> init_st \<Rightarrow> init_st" where
  "child_setup P svc st =
     (let st = perform P (Sys_umask 0x3F) st;
          st = (if properties_inited st then
                  (let (fd, sz) = get_property_workspace st;
                       (d, st) = sys P (Sys_dup fd) st
                   in snd (add_environment ''ANDROID_PROPERTY_WORKSPACE''
                        (show_int (an_ret d) @ '','' @ show_int sz) st))
                else st);
          st = fold (\<lambda>ei st. snd (add_environment (ei_name ei) (ei_value ei) st)) (svc_envvars svc) st;
          st = fold (child_socket P) (svc_sockets svc) st;
          st = (if svc_ioprio_class svc \<noteq> IoSchedClass_NONE
                then perform P (Sys_set_ioprio (svc_ioprio_class svc) (svc_ioprio_pri svc)) st else st);
          st = (if has (svc_flags svc) SVC_CONSOLE
                then open_console P (perform P Sys_setsid st) else zap_stdio P st)
      in perform P Sys_setpgid st)"

text \<open>The ids, in this order; a failed call makes the child exit.\<close>

definition child_ids :: "platform \<Rightarrow> service \<Rightarrow> init_st \<Rightarrow> bool \<times> init_st" where
  "child_ids P svc st =
     (let (a, st) = (if svc_gid svc \<noteq> 0
                     then (let (r, st) = sys P (Sys_setgid (svc_gid svc)) st in (an_ret r = 0, st))
                     else (True, st)) in
      if \<not> a then (False, st)
      else
        let (b, st) = (if svc_supp_gids svc \<noteq> []
                       then (let (r, st) = sys P (Sys_setgroups (svc_supp_gids svc)) st in (an_ret r = 0, st))
                       else (True, st)) in
        if \<not> b then (False, st)
        else
          if svc_uid svc \<noteq> 0
          then (let (r, st) = sys P (Sys_setuid (svc_uid svc)) st in (an_ret r = 0, st))
          else (True, st))"

function strsep_words :: "string \<Rightarrow> string list" where
  "strsep_words s = (case split_first SP s of None \<Rightarrow> [s] | Some (w, r) \<Rightarrow> w # strsep_words r)"
  by pat_completeness auto
termination
  by (relation "measure length") (auto dest: split_first_shorter)

declare strsep_words.simps [simp del]

text \<open>
  The argument vector: with dynamic arguments, the array of 65 pointers takes the static ones and
  then words until 64 entries are used.
\<close>

definition child_argv :: "service \<Rightarrow> string option \<Rightarrow> string list" where
  "child_argv svc dynamic_args =
     (case dynamic_args of
        None \<Rightarrow> svc_args svc
      | Some dyn \<Rightarrow>
          svc_args svc @ take (INIT_PARSER_MAXARGS - length (svc_args svc)) (strsep_words dyn))"

definition service_child :: "platform \<Rightarrow> service \<Rightarrow> string option \<Rightarrow> init_st \<Rightarrow> init_st" where
  "service_child P svc dynamic_args st =
     (let (ok, st) = child_ids P svc (child_setup P svc st) in
      if \<not> ok then perform P (Sys_exit 127) st
      else
        let (e, st) = sys P (Sys_execve (hd (svc_args svc)) (child_argv svc dynamic_args) (env_list st)) st
        in if an_ret e < 0 then perform P (Sys_exit 127) st else st)"

subsection \<open>Starting\<close>

definition set_flags :: "32 word \<Rightarrow> service \<Rightarrow> service" where
  "set_flags m svc = svc\<lparr>svc_flags := svc_flags svc OR m\<rparr>"

definition clear_flags :: "32 word \<Rightarrow> service \<Rightarrow> service" where
  "clear_flags m svc = svc\<lparr>svc_flags := clear (svc_flags svc) m\<rparr>"

definition service_start :: "platform \<Rightarrow> nat \<Rightarrow> string option \<Rightarrow> init_st \<Rightarrow> init_st" where
  "service_start P i dynamic_args st =
     (let st = upd_svc i (\<lambda>s. (clear_flags (SVC_DISABLED OR SVC_RESTARTING OR SVC_RESET OR SVC_RESTART) s)
                             \<lparr>svc_time_started := 0\<rparr>) st;
          svc = service_list st ! i in
      if has (svc_flags svc) SVC_RUNNING then st
      else if has (svc_flags svc) SVC_CONSOLE \<and> \<not> have_console st then upd_svc i (set_flags SVC_DISABLED) st
      else
        let (s, st) = sys P (Sys_stat (hd (svc_args svc))) st in
        if an_ret s \<noteq> 0 then upd_svc i (set_flags SVC_DISABLED) st
        else if \<not> has (svc_flags svc) SVC_ONESHOT \<and> dynamic_args \<noteq> None
        then upd_svc i (set_flags SVC_DISABLED) st
        else
          let (f, st) = sys P Sys_fork st; pid = an_ret f in
          if pid = 0 then (service_child P svc dynamic_args st)\<lparr>exited := Some 127\<rparr>
          else if pid < 0 then upd_svc i (\<lambda>s. s\<lparr>svc_pid := 0\<rparr>) st
          else
            let st = st\<lparr>children := (pid, trace (service_child P svc dynamic_args (perform P Sys_child st))) # children st\<rparr>;
                (now, st) = gettime P st;
                st = upd_svc i (\<lambda>s. set_flags SVC_RUNNING (s\<lparr>svc_time_started := now, svc_pid := pid\<rparr>)) st
            in if properties_inited st then notify_service_state P (svc_name svc) ''running'' st else st)"

subsection \<open>Stopping and restarting\<close>

definition service_stop_or_reset :: "platform \<Rightarrow> nat \<Rightarrow> 32 word \<Rightarrow> init_st \<Rightarrow> init_st" where
  "service_stop_or_reset P i how st =
     (let st = upd_svc i (clear_flags SVC_RESTARTING) st;
          how = (if how \<noteq> SVC_DISABLED \<and> how \<noteq> SVC_RESET \<and> how \<noteq> SVC_RESTART then SVC_DISABLED else how);
          st = (if how = SVC_RESET
                then upd_svc i (\<lambda>s. set_flags (if has (svc_flags s) SVC_RC_DISABLED then SVC_DISABLED else SVC_RESET) s) st
                else upd_svc i (set_flags how) st);
          svc = service_list st ! i
      in if svc_pid svc \<noteq> 0
         then notify_service_state P (svc_name svc) ''stopping'' (perform P (Sys_kill (- svc_pid svc)) st)
         else notify_service_state P (svc_name svc) ''stopped'' st)"

definition service_reset :: "platform \<Rightarrow> nat \<Rightarrow> init_st \<Rightarrow> init_st" where
  "service_reset P i st = service_stop_or_reset P i SVC_RESET st"

definition service_stop :: "platform \<Rightarrow> nat \<Rightarrow> init_st \<Rightarrow> init_st" where
  "service_stop P i st = service_stop_or_reset P i SVC_DISABLED st"

definition service_restart :: "platform \<Rightarrow> nat \<Rightarrow> init_st \<Rightarrow> init_st" where
  "service_restart P i st =
     (let svc = service_list st ! i in
      if has (svc_flags svc) SVC_RUNNING then service_stop_or_reset P i SVC_RESTART st
      else if \<not> has (svc_flags svc) SVC_RESTARTING then service_start P i None st
      else st)"

definition restart_service_if_needed :: "platform \<Rightarrow> nat \<Rightarrow> init_st \<Rightarrow> init_st" where
  "restart_service_if_needed P i st =
     (let next_start_time = svc_time_started (service_list st ! i) + 5;
          (now, st) = gettime P st in
      if next_start_time \<le> now
      then service_start P i None (upd_svc i (clear_flags SVC_RESTARTING) st)
      else if next_start_time < process_needs_restart st \<or> process_needs_restart st = 0
      then st\<lparr>process_needs_restart := next_start_time\<rparr>
      else st)"

definition restart_processes :: "platform \<Rightarrow> init_st \<Rightarrow> init_st" where
  "restart_processes P st =
     service_for_each_flags SVC_RESTARTING (restart_service_if_needed P) (st\<lparr>process_needs_restart := 0\<rparr>)"

subsection \<open>Control messages\<close>

definition msg_start :: "platform \<Rightarrow> string \<Rightarrow> init_st \<Rightarrow> init_st" where
  "msg_start P name st =
     (let (sname, args) = (case split_first (CHR '':'') name of
                             None \<Rightarrow> (name, None) | Some (tmp, args) \<Rightarrow> (tmp, Some args))
      in (case service_find_by_name sname st of
            Some i \<Rightarrow> service_start P i args st
          | None \<Rightarrow> st))"

definition msg_stop :: "platform \<Rightarrow> string \<Rightarrow> init_st \<Rightarrow> init_st" where
  "msg_stop P name st =
     (case service_find_by_name name st of Some i \<Rightarrow> service_stop P i st | None \<Rightarrow> st)"

definition msg_restart :: "platform \<Rightarrow> string \<Rightarrow> init_st \<Rightarrow> init_st" where
  "msg_restart P name st =
     (case service_find_by_name name st of Some i \<Rightarrow> service_restart P i st | None \<Rightarrow> st)"

definition handle_control_message :: "platform \<Rightarrow> string \<Rightarrow> string \<Rightarrow> init_st \<Rightarrow> init_st" where
  "handle_control_message P msg service_arg st =
     (if msg = ''start'' then msg_start P service_arg st
      else if msg = ''stop'' then msg_stop P service_arg st
      else if msg = ''restart'' then msg_restart P service_arg st
      else st)"

subsection \<open>Requests on the property socket\<close>

text \<open>\<open>TEMP_FAILURE_RETRY\<close> repeats a call that a signal interrupted.\<close>

partial_function (option) recv_retry :: "platform \<Rightarrow> int \<Rightarrow> init_st \<Rightarrow> (answer \<times> init_st) option" where
  "recv_retry P s st =
     (let (r, st) = sys P (Sys_recv s) st in
      if an_ret r = - 1 \<and> an_errno r = EINTR then recv_retry P s st else Some (r, st))"

declare recv_retry.simps [code]

text \<open>The switch on the command of a message, received on the socket \<open>s\<close> from \<open>cr\<close>.\<close>

definition handle_message :: "platform \<Rightarrow> int \<Rightarrow> answer \<Rightarrow> string \<Rightarrow> init_st \<Rightarrow> init_st" where
  "handle_message P s cr msg st =
     (if prop_msg_cmd P msg \<noteq> PROP_MSG_SETPROP P then perform P (Sys_close s) st
      else
        let name = cstr_at (take (PROP_NAME_MAX P - 1) (prop_msg_name P msg)) 0;
            value = cstr_at (take (PROP_VALUE_MAX P - 1) (prop_msg_value P msg)) 0 in
        if has_prefix ''ctl.'' name then
          let st = perform P (Sys_close s) st in
          if check_control_perms P value (an_uid cr) (an_gid cr)
          then handle_control_message P (drop 4 name) value st else st
        else
          let st = (if check_perms P name (an_uid cr) (an_gid cr)
                    then snd (property_set P name value st) else st)
          in perform P (Sys_close s) st)"

definition handle_property_set_fd :: "platform \<Rightarrow> init_st \<Rightarrow> init_st option" where
  "handle_property_set_fd P st =
     (let (a, st) = sys P (Sys_accept (property_set_fd st)) st; s = an_ret a in
      if s < 0 then Some st
      else
        let (cr, st) = sys P (Sys_getpeercred s) st in
        if an_ret cr < 0 then Some (perform P (Sys_close s) st)
        else
          do {
            (r, st) \<leftarrow> recv_retry P s st;
            if an_ret r \<noteq> PROP_MSG_SIZE P then Some (perform P (Sys_close s) st)
            else Some (handle_message P s cr (an_data r) st)
          })"

subsection \<open>The services keep the invariant\<close>

lemma svc_static_mask:
  assumes "m AND (SVC_ONESHOT OR SVC_CONSOLE OR SVC_CRITICAL OR SVC_RC_DISABLED) = 0"
  shows "svc_static (set_flags m svc) = svc_static svc" "svc_static (clear_flags m svc) = svc_static svc"
proof -
  have "clear w m AND k = w AND k" if "m AND k = 0" for w k :: "32 word"
  proof (rule bit_word_eqI)
    fix n assume n: "n < LENGTH(32)"
    have "\<not> bit (m AND k) n" using that by simp
    with n show "bit (clear w m AND k) n = bit (w AND k) n" by (auto simp: clear_def bit_simps)
  qed
  with assms show "svc_static (set_flags m svc) = svc_static svc" "svc_static (clear_flags m svc) = svc_static svc"
    by (simp_all add: svc_static_def set_flags_def clear_flags_def bit.conj_disj_distrib2)
qed

lemma svc_static_flags [simp]:
  "svc_static (set_flags SVC_RUNNING svc) = svc_static svc" "svc_static (set_flags SVC_DISABLED svc) = svc_static svc"
  "svc_static (set_flags SVC_RESET svc) = svc_static svc" "svc_static (set_flags SVC_RESTART svc) = svc_static svc"
  "svc_static (set_flags SVC_RESTARTING svc) = svc_static svc"
  "svc_static (clear_flags SVC_RUNNING svc) = svc_static svc"
  "svc_static (clear_flags SVC_RESTARTING svc) = svc_static svc"
  "svc_static (clear_flags SVC_RESTART svc) = svc_static svc"
  "svc_static (clear_flags (SVC_DISABLED OR SVC_RESTARTING OR SVC_RESET OR SVC_RESTART) svc) = svc_static svc"
  by (rule svc_static_mask; simp add: SVC_defs)+

lemma svc_static_state [simp]:
  "svc_static (svc\<lparr>svc_time_started := t\<rparr>) = svc_static svc" "svc_static (svc\<lparr>svc_pid := p\<rparr>) = svc_static svc"
  "svc_static (svc\<lparr>svc_time_crashed := t\<rparr>) = svc_static svc" "svc_static (svc\<lparr>svc_nr_crashed := n\<rparr>) = svc_static svc"
  by (simp_all add: svc_static_def)

lemma step_notify [step_intros]: "step_ok P st s \<Longrightarrow> step_ok P st (notify_service_state P name state s)"
  by (simp add: notify_service_state_def step_set)

text \<open>The child works on its own copy of the environment and touches nothing else.\<close>

definition erase_child :: "init_st \<Rightarrow> init_st" where
  "erase_child s = s\<lparr>ENV := [], trace := []\<rparr>"

definition child_frame :: "init_st \<Rightarrow> init_st \<Rightarrow> bool" where
  "child_frame s s' \<longleftrightarrow> erase_child s' = erase_child s"

named_theorems child_intros "what the child does"

lemma child_refl [child_intros]: "child_frame s s"
  by (simp add: child_frame_def)

lemma child_traced: "child_frame s s' \<Longrightarrow> traced s' s'' \<Longrightarrow> child_frame s s''"
  by (auto simp: child_frame_def erase_child_def traced_def)

lemma child_perform [child_intros]: "child_frame s s' \<Longrightarrow> child_frame s (perform P c s')"
  by (erule child_traced) (rule traced_perform)

lemma child_environment [child_intros]: "child_frame s s' \<Longrightarrow> child_frame s (snd (add_environment k v s'))"
  by (simp add: child_frame_def erase_child_def add_environment_def Let_def split: option.split)

lemma child_fold [child_intros]:
  "child_frame s s' \<Longrightarrow> (\<And>x s'. child_frame s s' \<Longrightarrow> child_frame s (f x s')) \<Longrightarrow> child_frame s (fold f xs s')"
  by (induction xs arbitrary: s') auto

lemma child_child_socket [child_intros]: "child_frame s s' \<Longrightarrow> child_frame s (child_socket P si s')"
  using child_traced [OF _ traced_create_socket, of s s' P "si_name si" "socket_type (si_type si)"]
  by (auto simp: child_socket_def publish_socket_def Let_def split_beta intro!: child_perform child_environment)

lemma child_child_setup [child_intros]: "child_frame s s' \<Longrightarrow> child_frame s (child_setup P svc s')"
  unfolding child_setup_def zap_stdio_def open_console_def get_property_workspace_def
  by (simp add: run_simps) (intro conjI impI child_intros)

lemma child_child_ids [child_intros]: "child_frame s s' \<Longrightarrow> child_frame s (snd (child_ids P svc s'))"
  by (simp add: child_ids_def run_simps child_perform)

lemma child_service_child [child_intros]: "child_frame s s' \<Longrightarrow> child_frame s (service_child P svc dyn s')"
  using child_child_ids [OF child_child_setup, of s s' P svc P svc]
  by (cases "child_ids P svc (child_setup P svc s')") (simp add: service_child_def run_simps child_perform)

lemma erase_child_fields:
  "service_list (erase_child s) = service_list s" "action_list (erase_child s) = action_list s"
  "action_queue (erase_child s) = action_queue s" "queue_corrupt (erase_child s) = queue_corrupt s"
  "props (erase_child s) = props s" "pa_toc (erase_child s) = pa_toc s" "pa_mapped (erase_child s) = pa_mapped s"
  "cur_action (erase_child s) = cur_action s" "cur_command (erase_child s) = cur_command s"
  by (simp_all add: erase_child_def)

lemma step_child: "step_ok P st s \<Longrightarrow> child_frame s s' \<Longrightarrow> step_ok P st s'"
  unfolding child_frame_def by (erule step_same) (metis erase_child_fields)+

lemma step_service_child [step_intros]: "step_ok P st s \<Longrightarrow> step_ok P st (service_child Q svc dyn s)"
  by (erule step_child) (rule child_service_child [OF child_refl])

lemma service_flags_upd [simp]:
  "svc_flags (set_flags m svc) = svc_flags svc OR m" "svc_flags (clear_flags m svc) = clear (svc_flags svc) m"
  "svc_pid (set_flags m svc) = svc_pid svc" "svc_pid (clear_flags m svc) = svc_pid svc"
  by (simp_all add: set_flags_def clear_flags_def)

lemma upd_nth_same [simp]: "i < length xs \<Longrightarrow> upd_nth i f xs ! i = f (xs ! i)"
  by (simp add: upd_nth_def)

lemma gettime_frame [simp]: "service_list (snd (gettime P st)) = service_list st"
  "property_area_inited (snd (gettime P st)) = property_area_inited st"
  using traced_gettime [of st P] by (simp_all add: traced_frame)

lemma gettime_split: "gettime P st = (clock_at P (trace st), perform P Sys_clock_gettime st)"
  by (simp add: gettime_eq clock_at_def)

lemma step_children [step_intros]: "step_ok P st s \<Longrightarrow> step_ok P st (s\<lparr>children := x\<rparr>)"
  by (erule step_same) simp_all

lemma step_service_start [step_intros]:
  assumes "step_ok P st s" and i: "i < length (service_list s)"
  shows "step_ok P st (service_start P i dyn s)"
proof -
  define f where "f = (\<lambda>svc. (clear_flags (SVC_DISABLED OR SVC_RESTARTING OR SVC_RESET OR SVC_RESTART) svc)\<lparr>svc_time_started := 0\<rparr>)"
  define s0 where "s0 = upd_svc i f s"
  have i0: "i < length (service_list s0)" using i by (simp add: s0_def)
  have f0: "\<not> has (svc_flags (service_list s0 ! i)) SVC_RESTARTING"
    using i by (simp add: s0_def f_def flag_simps)
  have "step_ok P st s0" unfolding s0_def
    by (rule step_upd [OF assms]) (auto simp: f_def svc_run_ok_def flag_simps)
  then show ?thesis
    unfolding service_start_def f_def [symmetric] s0_def [symmetric] run_simps gettime_split case_prod_conv
    by (intro step_intros step_upd) (simp_all add: i0 f0 flag_simps svc_run_ok_def)
qed

lemma step_stop_or_reset [step_intros]:
  assumes "step_ok P st s" and i: "i < length (service_list s)"
  shows "step_ok P st (service_stop_or_reset P i how s)"
proof -
  define s0 where "s0 = upd_svc i (clear_flags SVC_RESTARTING) s"
  have i0: "i < length (service_list s0)" using i by (simp add: s0_def)
  have f0: "\<not> has (svc_flags (service_list s0 ! i)) SVC_RESTARTING" using i by (simp add: s0_def flag_simps)
  have "step_ok P st s0" unfolding s0_def
    by (rule step_upd [OF assms]) (auto simp: svc_run_ok_def flag_simps)
  then show ?thesis
    unfolding service_stop_or_reset_def s0_def [symmetric] run_simps case_prod_conv
    by (intro step_intros step_upd) (simp_all add: i0 f0 flag_simps svc_run_ok_def)
qed

lemma step_reset [step_intros]:
  "step_ok P st s \<Longrightarrow> i < length (service_list s) \<Longrightarrow> step_ok P st (service_reset P i s)"
  by (simp add: service_reset_def step_stop_or_reset)

lemma step_stop [step_intros]:
  "step_ok P st s \<Longrightarrow> i < length (service_list s) \<Longrightarrow> step_ok P st (service_stop P i s)"
  by (simp add: service_stop_def step_stop_or_reset)

lemma step_restart [step_intros]:
  "step_ok P st s \<Longrightarrow> i < length (service_list s) \<Longrightarrow> step_ok P st (service_restart P i s)"
  by (simp add: service_restart_def Let_def step_stop_or_reset step_service_start)

lemma step_needs_restart [step_intros]: "step_ok P st s \<Longrightarrow> step_ok P st (s\<lparr>process_needs_restart := t\<rparr>)"
  by (erule step_same) simp_all

lemma step_restart_if_needed [step_intros]:
  assumes "step_ok P st s" and i: "i < length (service_list s)"
  shows "step_ok P st (restart_service_if_needed P i s)"
  unfolding restart_service_if_needed_def run_simps gettime_split case_prod_conv
  by (intro step_intros step_upd assms) (use i in \<open>simp_all add: flag_simps svc_run_ok_def\<close>)

text \<open>A loop over the services.\<close>

lemma step_for_each [step_intros]:
  assumes "step_ok P st s"
    and f: "\<And>i s. step_ok P st s \<Longrightarrow> i < length (service_list s) \<Longrightarrow> step_ok P st (f i s)"
  shows "step_ok P st (list_for_each_service test f s)"
proof (cases "init_inv P st")
  case True
  have len: "length (service_list s) = length (service_list st)" if "step_ok P st s" for s
    using that True by (metis length_map step_ok_def)
  have "step_ok P st (fold (\<lambda>i s. if test (service_list s ! i) then f i s else s) is s)"
    if "\<forall>i \<in> set is. i < length (service_list st)" for "is"
    using that assms(1)
  proof (induction "is" arbitrary: s)
    case (Cons i "is")
    have "i < length (service_list s)" using Cons.prems(1) len [OF Cons.prems(2)] by simp
    then have "step_ok P st (if test (service_list s ! i) then f i s else s)"
      using f [OF Cons.prems(2)] Cons.prems(2) by simp
    then show ?case using Cons.IH Cons.prems(1) by simp
  qed simp
  from this [of "[0..<length (service_list s)]"] show ?thesis
    using len [OF assms(1)] by (simp add: list_for_each_service_def)
qed (simp add: step_ok_def)

lemma step_restart_processes [step_intros]: "step_ok P st s \<Longrightarrow> step_ok P st (restart_processes P s)"
  unfolding restart_processes_def service_for_each_flags_def by (intro step_intros)

lemma found_by_name: "service_find_by_name name s = Some i \<Longrightarrow> i < length (service_list s)"
  by (auto simp: service_find_by_name_def dest: find_index_Some)

lemma step_msg [step_intros]:
  assumes "step_ok P st s"
  shows "step_ok P st (msg_start P name s)" "step_ok P st (msg_stop P name s)" "step_ok P st (msg_restart P name s)"
  unfolding msg_start_def msg_stop_def msg_restart_def
  using assms found_by_name by (auto split: option.split intro!: step_intros)

lemma step_control_message [step_intros]:
  "step_ok P st s \<Longrightarrow> step_ok P st (handle_control_message P msg a s)"
  by (simp add: handle_control_message_def step_msg)

subsection \<open>What the child runs\<close>

definition is_exec :: "syscall \<Rightarrow> bool" where
  "is_exec c \<longleftrightarrow> (case c of Sys_execve _ _ _ \<Rightarrow> True | _ \<Rightarrow> False)"

text \<open>\<open>no_exec s s'\<close>: from \<open>s\<close> to \<open>s'\<close> calls were made, and no program was started.\<close>

definition no_exec :: "init_st \<Rightarrow> init_st \<Rightarrow> bool" where
  "no_exec s s' \<longleftrightarrow> (\<exists>t. trace s' = t @ trace s \<and> (\<forall>(c, a) \<in> set t. \<not> is_exec c))"

named_theorems no_exec_intros "routines of the child that start no program"

lemma no_exec_refl [no_exec_intros]: "no_exec s s"
  by (simp add: no_exec_def)

lemma no_exec_perform [no_exec_intros]: "\<not> is_exec c \<Longrightarrow> no_exec s s' \<Longrightarrow> no_exec s (perform P c s')"
  by (auto simp: no_exec_def trace_perform)

lemma no_exec_if [no_exec_intros]: "no_exec s x \<Longrightarrow> no_exec s y \<Longrightarrow> no_exec s (if b then x else y)"
  by simp

lemma no_exec_fold [no_exec_intros]:
  "no_exec s s' \<Longrightarrow> (\<And>x s'. no_exec s s' \<Longrightarrow> no_exec s (f x s')) \<Longrightarrow> no_exec s (fold f xs s')"
  by (induction xs arbitrary: s') auto

lemma no_exec_environment [no_exec_intros]: "no_exec s s' \<Longrightarrow> no_exec s (snd (add_environment k v s'))"
  by (simp add: no_exec_def add_environment_def Let_def split: option.split)

lemma no_exec_create_socket: "no_exec s s' \<Longrightarrow> no_exec s (snd (create_socket P n t p u g s'))"
  by (simp add: create_socket_def run_simps no_exec_perform is_exec_def)

lemma no_exec_child_socket [no_exec_intros]: "no_exec s s' \<Longrightarrow> no_exec s (child_socket P si s')"
  using no_exec_create_socket [of s s' P "si_name si" "socket_type (si_type si)"]
  by (auto simp: child_socket_def publish_socket_def Let_def split_beta is_exec_def
           intro!: no_exec_perform no_exec_environment)

lemma no_exec_child_setup: "no_exec s s' \<Longrightarrow> no_exec s (child_setup P svc s')"
  unfolding child_setup_def zap_stdio_def open_console_def get_property_workspace_def run_simps case_prod_conv
  by (simp add: if_distrib [of snd] if_distrib [of fst])
     (intro conjI impI no_exec_intros; simp add: is_exec_def)

text \<open>The calls that give up privileges, in the order in which they are made.\<close>

definition id_calls :: "service \<Rightarrow> syscall list" where
  "id_calls svc =
     (if svc_gid svc \<noteq> 0 then [Sys_setgid (svc_gid svc)] else []) @
     (if svc_supp_gids svc \<noteq> [] then [Sys_setgroups (svc_supp_gids svc)] else []) @
     (if svc_uid svc \<noteq> 0 then [Sys_setuid (svc_uid svc)] else [])"

text \<open>The calls of \<open>child_ids\<close>, newest first: a beginning of the list, and all of it on success.\<close>

lemma child_ids_calls:
  assumes "child_ids P svc st = (ok, st')"
  shows "\<exists>ids. trace st' = ids @ trace st \<and> set (map fst ids) \<subseteq> set (id_calls svc) \<and>
    (ok \<longrightarrow> map fst ids = rev (id_calls svc) \<and> (\<forall>(c, r) \<in> set ids. an_ret r = 0))"
proof (cases ok)
  case True
  then show ?thesis using assms
    by (auto simp: child_ids_def run_simps id_calls_def trace_perform split: if_splits)
next
  case False
  then show ?thesis using assms
    by (auto simp: child_ids_def run_simps id_calls_def trace_perform split: if_splits)
qed

lemma id_calls_no_exec: "c \<in> set (id_calls svc) \<Longrightarrow> \<not> is_exec c"
  by (auto simp: id_calls_def is_exec_def split: if_splits)

lemma length_strsep_words: "0 < length (strsep_words s)"
  by (subst strsep_words.simps) (simp split: option.split)

lemma length_child_argv:
  "svc_static_ok svc \<Longrightarrow> length (child_argv svc dyn) \<le> INIT_PARSER_MAXARGS"
  by (auto simp: child_argv_def svc_static_ok_def split: option.split)

text \<open>
  C11.  A service never runs with more privileges than its declaration gives it: the child of
  \<open>service_start\<close> starts a program only after \<open>setgid\<close>, \<open>setgroups\<close> and \<open>setuid\<close> were called in
  this order with the declared ids, each that is declared, all of them succeeded, and nothing was
  called in between.  The program is the declared one, and its argument vector fits the array of
  65 pointers.
\<close>

theorem service_child_privileges:
  assumes "svc_static_ok svc" "trace (service_child P svc dyn st) = t @ trace st"
    and "(Sys_execve path argv envp, e) \<in> set t"
  shows "\<exists>after ids before. t = after @ (Sys_execve path argv envp, e) # ids @ before \<and>
    map fst ids = rev (id_calls svc) \<and> (\<forall>(c, r) \<in> set ids. an_ret r = 0) \<and>
    path = hd (svc_args svc) \<and> argv = child_argv svc dyn \<and> length argv < INIT_PARSER_MAXARGS + 1"
proof -
  let ?s = "child_setup P svc st"
  obtain ok s2 where ids: "child_ids P svc ?s = (ok, s2)" by force
  obtain b where b: "trace ?s = b @ trace st" "\<forall>(c, a) \<in> set b. \<not> is_exec c"
    using no_exec_child_setup [OF no_exec_refl, of st P svc] by (auto simp: no_exec_def)
  obtain i where i: "trace s2 = i @ trace ?s" "set (map fst i) \<subseteq> set (id_calls svc)"
    "ok \<longrightarrow> map fst i = rev (id_calls svc) \<and> (\<forall>(c, r) \<in> set i. an_ret r = 0)"
    using child_ids_calls [OF ids] by blast
  have q: "\<not> is_exec c" if "(c, a) \<in> set (i @ b)" for c a
    using that b(2) i(2) id_calls_no_exec [of c svc] by force
  have x: "is_exec (Sys_execve path argv envp)" by (simp add: is_exec_def)
  show ?thesis
  proof (cases ok)
    case False
    then have "t = (Sys_exit 127, os P (trace s2) (Sys_exit 127)) # i @ b"
      using assms(2) b(1) i(1) by (simp add: service_child_def ids trace_perform)
    with assms(3) q x show ?thesis by auto
  next
    case True
    let ?c = "Sys_execve (hd (svc_args svc)) (child_argv svc dyn) (env_list s2)"
    obtain a where "t = a @ (?c, os P (trace s2) ?c) # i @ b" "\<forall>(c, a) \<in> set a. \<not> is_exec c"
      using True assms(2) b(1) i(1)
      by (auto simp: service_child_def ids run_simps trace_perform is_exec_def split: if_splits)
    with assms(1,3) True i(3) q x length_child_argv [OF assms(1), of dyn] show ?thesis by fastforce
  qed
qed

lemma example_service_ok: "svc_static_ok example_service"
proof -
  have "valid_name ''adbd''" by code_simp
  then show ?thesis
    by (simp add: svc_static_ok_def example_service_def new_service_def INIT_PARSER_MAXARGS_def NR_SVC_SUPP_GIDS_def)
qed

theorem service_child_privileges_witness:
  "\<exists>after ids before. trace (service_child example_platform example_service None init_st0) =
      after @ (Sys_execve ''/sbin/adbd'' [''/sbin/adbd''] [''A=b c''], ok_answer 0) # ids @ before \<and>
    map fst ids = [Sys_setuid 2000, Sys_setgroups [1004, 3003], Sys_setgid 2000]"
proof -
  let ?t = "trace (service_child example_platform example_service None init_st0)"
  have "(Sys_execve ''/sbin/adbd'' [''/sbin/adbd''] [''A=b c''], ok_answer 0) \<in> set ?t" by code_simp
  moreover have "?t = ?t @ trace init_st0" by (simp add: init_st0_def)
  moreover have "rev (id_calls example_service) = [Sys_setuid 2000, Sys_setgroups [1004, 3003], Sys_setgid 2000]"
    by code_simp
  ultimately show ?thesis
    using service_child_privileges [OF example_service_ok, of example_platform None init_st0 ?t] by metis
qed

subsection \<open>Requests\<close>

lemma traced_recv_retry:
  assumes "recv_retry P s st = Some y"
  shows "traced st (snd y)"
proof (rule recv_retry.raw_induct [where Pa = "\<lambda>x y. traced (snd x) (snd y)", OF _ assms, unfolded snd_conv], goal_cases)
  case (1 rr P s st y)
  from 1(2) show ?case
    by (cases y) (auto simp: run_simps split: if_splits dest!: 1(1) intro: traced_trans [OF traced_perform])
qed

lemma handle_message_cases:
  obtains "traced st (handle_message P s cr msg st)"
  | name v where "\<not> has_prefix ''ctl.'' name" "check_perms P name (an_uid cr) (an_gid cr)"
      "handle_message P s cr msg st = perform P (Sys_close s) (snd (property_set P name v st))"
  | name v where "has_prefix ''ctl.'' name" "check_control_perms P v (an_uid cr) (an_gid cr)"
      "handle_message P s cr msg st = handle_control_message P (drop 4 name) v (perform P (Sys_close s) st)"
proof -
  define name where "name = cstr_at (take (PROP_NAME_MAX P - 1) (prop_msg_name P msg)) 0"
  define v where "v = cstr_at (take (PROP_VALUE_MAX P - 1) (prop_msg_value P msg)) 0"
  note d = handle_message_def [of P s cr msg st, folded name_def v_def, unfolded Let_def]
  consider "handle_message P s cr msg st = perform P (Sys_close s) st"
    | "\<not> has_prefix ''ctl.'' name \<and> check_perms P name (an_uid cr) (an_gid cr) \<and>
       handle_message P s cr msg st = perform P (Sys_close s) (snd (property_set P name v st))"
    | "has_prefix ''ctl.'' name \<and> check_control_perms P v (an_uid cr) (an_gid cr) \<and>
       handle_message P s cr msg st = handle_control_message P (drop 4 name) v (perform P (Sys_close s) st)"
    by (cases "prop_msg_cmd P msg \<noteq> PROP_MSG_SETPROP P"; cases "has_prefix ''ctl.'' name";
        cases "check_perms P name (an_uid cr) (an_gid cr)"; cases "check_control_perms P v (an_uid cr) (an_gid cr)")
       (simp_all add: d)
  then show thesis using that traced_perform [of st P "Sys_close s"] by cases metis+
qed

text \<open>The credentials the kernel reports for the process that sent the next request.\<close>

definition peer_cred :: "platform \<Rightarrow> init_st \<Rightarrow> answer" where
  "peer_cred P st =
     (let (a, st) = sys P (Sys_accept (property_set_fd st)) st in os P (trace st) (Sys_getpeercred (an_ret a)))"

lemma request_cases:
  assumes "handle_property_set_fd P st = Some st'"
  shows "traced st st' \<or>
    (\<exists>s name value. traced st s \<and>
      (\<not> has_prefix ''ctl.'' name \<and> check_perms P name (an_uid (peer_cred P st)) (an_gid (peer_cred P st)) \<and>
         traced (snd (property_set P name value s)) st' \<or>
       has_prefix ''ctl.'' name \<and> check_control_perms P value (an_uid (peer_cred P st)) (an_gid (peer_cred P st)) \<and>
         st' = handle_control_message P (drop 4 name) value s))"
proof -
  define s1 where "s1 = perform P (Sys_accept (property_set_fd st)) st"
  define fd where "fd = an_ret (os P (trace st) (Sys_accept (property_set_fd st)))"
  define s2 where "s2 = perform P (Sys_getpeercred fd) s1"
  have c: "os P (trace s1) (Sys_getpeercred fd) = peer_cred P st"
    by (simp add: peer_cred_def run_simps s1_def fd_def)
  have t: "traced st s1" "traced st s2" "traced st (perform P x s2)" for x
    unfolding s1_def s2_def by (rule traced_perform traced_step)+
  from assms have e: "(if fd < 0 then Some s1 else if an_ret (peer_cred P st) < 0 then Some (perform P (Sys_close fd) s2)
      else do { (r, s) \<leftarrow> recv_retry P fd s2;
        if an_ret r \<noteq> PROP_MSG_SIZE P then Some (perform P (Sys_close fd) s)
        else Some (handle_message P fd (peer_cred P st) (an_data r) s) }) = Some st'"
    unfolding handle_property_set_fd_def run_simps case_prod_conv
    unfolding fd_def [symmetric] s1_def [symmetric] c s2_def [symmetric] .
  show ?thesis
  proof (cases "traced st st'")
    case False
    with e t obtain r s where r: "recv_retry P fd s2 = Some (r, s)"
      by (auto split: if_splits bind_splits)
    have ts: "traced st s" "traced st (perform P x s)" for x
      using traced_trans [OF t(2) traced_recv_retry [OF r]] by (simp_all add: traced_step)
    with e False t r have m: "st' = handle_message P fd (peer_cred P st) (an_data r) s"
      by (auto split: if_splits)
    show ?thesis
    proof (cases rule: handle_message_cases [of s P fd "peer_cred P st" "an_data r"])
      case 1
      then show ?thesis using m ts(1) traced_trans by blast
    next
      case (2 name v)
      then show ?thesis using m ts(1) traced_perform [of "snd (property_set P name v s)" P "Sys_close fd"] by metis
    next
      case (3 name v)
      then show ?thesis using m ts(2) by blast
    qed
  qed simp
qed

text \<open>
  C12.  Every effect of a request on the property socket is one that the permission tables allow to
  the process that sent it: apart from system calls, either nothing changes, or a property is set
  that \<open>check_perms\<close> allows to the credentials the kernel reports, or a control message is
  handled for a service that \<open>check_control_perms\<close> allows.
\<close>

theorem property_request_authorised:
  assumes "handle_property_set_fd P st = Some st'"
  shows "traced st st' \<or>
    (\<exists>s name value. traced st s \<and>
      (\<not> has_prefix ''ctl.'' name \<and> check_perms P name (an_uid (peer_cred P st)) (an_gid (peer_cred P st)) \<and>
         traced (snd (property_set P name value s)) st' \<or>
       has_prefix ''ctl.'' name \<and> check_control_perms P value (an_uid (peer_cred P st)) (an_gid (peer_cred P st)) \<and>
         st' = handle_control_message P (drop 4 name) value s))"
  using assms by (rule request_cases)

text \<open>A kernel that delivers one request, a message of 128 bytes, from a process with the given ids.\<close>

definition request_os :: "32 word \<Rightarrow> 32 word \<Rightarrow> string \<Rightarrow> sys_trace \<Rightarrow> syscall \<Rightarrow> answer" where
  "request_os uid gid msg t c =
     (case c of
        Sys_getpeercred _ \<Rightarrow> (ok_answer 0)\<lparr>an_uid := uid, an_gid := gid\<rparr>
      | Sys_recv _ \<Rightarrow> (ok_answer 128)\<lparr>an_data := msg\<rparr>
      | _ \<Rightarrow> example_os t c)"

definition request_platform :: "32 word \<Rightarrow> 32 word \<Rightarrow> string \<Rightarrow> platform" where
  "request_platform uid gid msg = example_platform\<lparr>os := request_os uid gid msg\<rparr>"

definition set_message :: "string \<Rightarrow> string \<Rightarrow> string" where
  "set_message name v = replicate 4 NUL @ name @ replicate (32 - length name) NUL @ v @ replicate (92 - length v) NUL"

theorem property_request_authorised_witness:
  "\<exists>st'. handle_property_set_fd (request_platform 1000 1000 (set_message ''sys.x'' ''1'')) example_area = Some st' \<and>
     \<not> traced example_area st' \<and>
     (\<exists>s name value. traced example_area s \<and>
       (\<not> has_prefix ''ctl.'' name \<and> check_perms (request_platform 1000 1000 (set_message ''sys.x'' ''1'')) name 1000 1000 \<and>
          traced (snd (property_set (request_platform 1000 1000 (set_message ''sys.x'' ''1'')) name value s)) st' \<or>
        has_prefix ''ctl.'' name \<and>
          check_control_perms (request_platform 1000 1000 (set_message ''sys.x'' ''1'')) value 1000 1000 \<and>
          st' = handle_control_message (request_platform 1000 1000 (set_message ''sys.x'' ''1'')) (drop 4 name) value s))"
proof -
  let ?P = "request_platform 1000 1000 (set_message ''sys.x'' ''1'')"
  have c: "an_uid (peer_cred ?P example_area) = 1000" "an_gid (peer_cred ?P example_area) = 1000" by code_simp+
  have "map_option (\<lambda>st. length (props st)) (handle_property_set_fd ?P example_area) = Some 1"
    "length (props example_area) = 0" by code_simp+
  then obtain st' where st': "handle_property_set_fd ?P example_area = Some st'"
    and "props st' \<noteq> props example_area" by fastforce
  then have "\<not> traced example_area st'" using traced_frame(5) by blast
  with st' property_request_authorised [OF st'] show ?thesis unfolding c by blast
qed

text \<open>The ids the permission tables name.  An ordinary application runs with none of them.\<close>

definition unprivileged :: "platform \<Rightarrow> answer \<Rightarrow> bool" where
  "unprivileged P cr \<longleftrightarrow>
     an_uid cr \<notin> {0, AID_ROOT P, AID_SYSTEM P, AID_RADIO P, AID_DHCP P, AID_SHELL P, AID_GRAPHICS P} \<and>
     an_gid cr \<notin> {AID_RADIO P, AID_LOG P}"

lemma unprivileged_refused:
  assumes "unprivileged P cr"
  shows "\<not> check_perms P name (an_uid cr) (an_gid cr)" "\<not> check_control_perms P name (an_uid cr) (an_gid cr)"
  using assms
  by (auto simp: unprivileged_def check_perms_def check_control_perms_def property_perms_def control_perms_def Let_def)

text \<open>
  An ordinary application cannot change anything over the property socket, whatever it
  sends: no property, no service, no action queue, nothing but the calls that receive and close.
\<close>

lemma application_changes_nothing:
  assumes "handle_property_set_fd P st = Some st'" "unprivileged P (peer_cred P st)"
  shows "traced st st' \<and> props st' = props st \<and> service_list st' = service_list st \<and>
    action_queue st' = action_queue st"
proof -
  have "traced st st'" using request_cases [OF assms(1)] unprivileged_refused [OF assms(2)] by blast
  then show ?thesis by (simp add: traced_frame)
qed

lemma application_changes_nothing_witness:
  "\<exists>st'. handle_property_set_fd (request_platform 10001 10001 (set_message ''ctl.stop'' ''adbd'')) example_area = Some st' \<and>
     traced example_area st' \<and> props st' = props example_area"
proof -
  let ?P = "request_platform 10001 10001 (set_message ''ctl.stop'' ''adbd'')"
  have u: "unprivileged ?P (peer_cred ?P example_area)" by code_simp
  have "handle_property_set_fd ?P example_area \<noteq> None" by code_simp
  with application_changes_nothing [OF _ u] show ?thesis by blast
qed

lemma step_property_set_fd:
  assumes "step_ok P st s" "handle_property_set_fd P s = Some s'"
  shows "step_ok P st s'"
  using request_cases [OF assms(2)] step_traced [OF assms(1)] step_traced [OF step_set]
    step_control_message by metis

subsection \<open>The outcome of a start\<close>

lemma notify_frame [simp]:
  "service_list (notify_service_state P name state st) = service_list st"
  "process_needs_restart (notify_service_state P name state st) = process_needs_restart st"
  using prop_frame_fields [OF prop_frame_set [of st P]] by (simp_all add: notify_service_state_def)

lemma service_child_frame [simp]:
  "service_list (service_child P svc dyn st) = service_list st"
  "process_needs_restart (service_child P svc dyn st) = process_needs_restart st"
proof -
  have "erase_child (service_child P svc dyn st) = erase_child st"
    using child_service_child [OF child_refl] by (simp add: child_frame_def)
  moreover have "process_needs_restart (erase_child s) = process_needs_restart s" for s
    by (simp add: erase_child_def)
  ultimately show "service_list (service_child P svc dyn st) = service_list st"
    "process_needs_restart (service_child P svc dyn st) = process_needs_restart st"
    by (metis erase_child_fields(1))+
qed

lemma upd_svc_needs_restart [simp]: "process_needs_restart (upd_svc i f st) = process_needs_restart st"
  by (simp add: upd_svc_def)

text \<open>A service as \<open>service_start\<close> leaves its flags before it decides anything.\<close>

definition start_cleared :: "service \<Rightarrow> service" where
  "start_cleared svc =
     (clear_flags (SVC_DISABLED OR SVC_RESTARTING OR SVC_RESET OR SVC_RESTART) svc)\<lparr>svc_time_started := 0\<rparr>"

definition start_refused :: "platform \<Rightarrow> service \<Rightarrow> string option \<Rightarrow> init_st \<Rightarrow> bool" where
  "start_refused P svc dyn st \<longleftrightarrow>
     has (svc_flags svc) SVC_CONSOLE \<and> \<not> have_console st \<or>
     an_ret (os P (trace st) (Sys_stat (hd (svc_args svc)))) \<noteq> 0 \<or>
     \<not> has (svc_flags svc) SVC_ONESHOT \<and> dyn \<noteq> None"

lemma start_cases:
  assumes i: "i < length (service_list st)" and svc: "svc = start_cleared (service_list st ! i)"
  obtains svc' where "service_list (service_start P i dyn st) = (service_list st)[i := svc']"
    "process_needs_restart (service_start P i dyn st) = process_needs_restart st"
    "if has (svc_flags svc) SVC_RUNNING then svc' = svc
     else if start_refused P svc dyn st then svc' = set_flags SVC_DISABLED svc
     else svc' \<in> {svc, svc\<lparr>svc_pid := 0\<rparr>} \<or>
       (\<exists>pid now. 0 < pid \<and> svc' = set_flags SVC_RUNNING (svc\<lparr>svc_time_started := now, svc_pid := pid\<rparr>))"
proof -
  define s0 where "s0 = upd_svc i start_cleared st"
  have l0: "service_list s0 = (service_list st)[i := svc]" "process_needs_restart s0 = process_needs_restart st"
    "service_list s0 ! i = svc" "have_console s0 = have_console st" "trace s0 = trace st"
    using i by (simp_all add: s0_def svc upd_nth_def)
  have u: "upd_nth i g ((service_list st)[i := svc]) = (service_list st)[i := g svc]" for g
    using i by (simp add: upd_nth_def)
  note d = service_start_def [of P i dyn st, folded start_cleared_def [abs_def], folded s0_def,
      unfolded run_simps gettime_split case_prod_conv l0(3)]
  let ?r = "service_start P i dyn st"
  show thesis
  proof (cases "has (svc_flags svc) SVC_RUNNING \<or> start_refused P svc dyn st")
    case True
    then show thesis using that [of "if has (svc_flags svc) SVC_RUNNING then svc else set_flags SVC_DISABLED svc"]
      by (auto simp: d l0 u start_refused_def)
  next
    case False
    let ?pid = "an_ret (os P (trace (perform P (Sys_stat (hd (svc_args svc))) s0)) Sys_fork)"
    from False have f: "has (svc_flags svc) SVC_RUNNING = False" "start_refused P svc dyn st = False"
      "(has (svc_flags svc) SVC_CONSOLE \<and> \<not> have_console st) = False"
      "(an_ret (os P (trace st) (Sys_stat (hd (svc_args svc)))) \<noteq> 0) = False"
      "(\<not> has (svc_flags svc) SVC_ONESHOT \<and> dyn \<noteq> None) = False"
      by (auto simp: start_refused_def)
    note df = d [unfolded l0 f if_False]
    consider "?pid = 0" | "?pid < 0" | "0 < ?pid" by linarith
    then show thesis
    proof cases
      case 1
      show thesis by (rule that [of svc]) (use 1 in \<open>simp_all add: df f l0 u\<close>)
    next
      case 2
      show thesis by (rule that [of "svc\<lparr>svc_pid := 0\<rparr>"]) (use 2 in \<open>simp_all add: df f l0 u\<close>)
    next
      case 3
      then obtain now where "service_list ?r =
          (service_list st)[i := set_flags SVC_RUNNING (svc\<lparr>svc_time_started := now, svc_pid := ?pid\<rparr>)]"
        "process_needs_restart ?r = process_needs_restart st"
        by (simp add: df l0 u)
      with 3 show thesis by (intro that) (auto simp: f)
    qed
  qed
qed

text \<open>
  What becomes of a service that is started.  It leaves the disabled, reset and restarting
  states; if it already runs nothing else happens; if its console or its program is missing, or
  it gets arguments without being one-shot, it is disabled; otherwise it runs with a new process
  id, unless the fork fails.  No other service is touched.
\<close>

lemma service_start_outcome:
  assumes "i < length (service_list st)" "svc_run_ok (service_list st ! i)"
  shows "\<exists>svc'. service_list (service_start P i dyn st) = (service_list st)[i := svc'] \<and>
    svc_static svc' = svc_static (service_list st ! i) \<and> svc_run_ok svc' \<and>
    \<not> has (svc_flags svc') (SVC_RESTARTING OR SVC_RESET OR SVC_RESTART) \<and>
    (has (svc_flags (service_list st ! i)) SVC_RUNNING \<longrightarrow>
       svc_pid svc' = svc_pid (service_list st ! i) \<and> \<not> has (svc_flags svc') SVC_DISABLED) \<and>
    (\<not> has (svc_flags (service_list st ! i)) SVC_RUNNING \<longrightarrow>
       (has (svc_flags svc') SVC_DISABLED \<longleftrightarrow> start_refused P (service_list st ! i) dyn st))"
proof -
  let ?x = "service_list st ! i" and ?c = "start_cleared (service_list st ! i)"
  have c: "svc_static ?c = svc_static ?x" "svc_pid ?c = svc_pid ?x"
    "has (svc_flags ?c) SVC_RUNNING = has (svc_flags ?x) SVC_RUNNING"
    "start_refused P ?c dyn st = start_refused P ?x dyn st"
    "\<not> has (svc_flags ?c) SVC_DISABLED" "\<not> has (svc_flags ?c) SVC_RESTARTING" "\<not> has (svc_flags ?c) SVC_RESET"
    "\<not> has (svc_flags ?c) SVC_RESTART"
    by (simp_all add: start_cleared_def flag_simps start_refused_def) (simp_all add: clear_flags_def)
  obtain svc' where l: "service_list (service_start P i dyn st) = (service_list st)[i := svc']"
    and o: "if has (svc_flags ?c) SVC_RUNNING then svc' = ?c
     else if start_refused P ?c dyn st then svc' = set_flags SVC_DISABLED ?c
     else svc' \<in> {?c, ?c\<lparr>svc_pid := 0\<rparr>} \<or>
       (\<exists>pid now. 0 < pid \<and> svc' = set_flags SVC_RUNNING (?c\<lparr>svc_time_started := now, svc_pid := pid\<rparr>))"
    using start_cases [OF assms(1) refl] by metis
  have "svc_static svc' = svc_static ?x \<and> svc_run_ok svc' \<and>
    \<not> has (svc_flags svc') (SVC_RESTARTING OR SVC_RESET OR SVC_RESTART)"
    using o c assms(2) by (auto simp: svc_run_ok_def flag_simps split: if_splits)
  moreover have "has (svc_flags ?x) SVC_RUNNING \<longrightarrow> svc_pid svc' = svc_pid ?x \<and> \<not> has (svc_flags svc') SVC_DISABLED"
    "\<not> has (svc_flags ?x) SVC_RUNNING \<longrightarrow> (has (svc_flags svc') SVC_DISABLED \<longleftrightarrow> start_refused P ?x dyn st)"
    using o c by (auto simp: flag_simps split: if_splits)
  ultimately show ?thesis using l by blast
qed

lemma service_start_outcome_witness:
  "\<exists>svc'. service_list (service_start example_platform 0 None (init_st0\<lparr>service_list := [example_service]\<rparr>)) = [svc'] \<and>
    svc_run_ok svc' \<and> \<not> has (svc_flags svc') SVC_DISABLED"
proof -
  let ?st = "init_st0\<lparr>service_list := [example_service]\<rparr>"
  have "svc_run_ok (service_list ?st ! 0)" by code_simp
  moreover have "\<not> has (svc_flags (service_list ?st ! 0)) SVC_RUNNING" by code_simp
  moreover have "\<not> start_refused example_platform (service_list ?st ! 0) None ?st" by code_simp
  ultimately show ?thesis
    using service_start_outcome [of 0 ?st example_platform None] by auto
qed

subsection \<open>Restarting what died\<close>

lemma restart_if_needed_cases:
  fixes P :: platform
  assumes i: "i < length (service_list st)"
  defines "t \<equiv> svc_time_started (service_list st ! i) + 5" and "st' \<equiv> restart_service_if_needed P i st"
  obtains svc' where "service_list st' = (service_list st)[i := svc']" "\<not> has (svc_flags svc') SVC_RESTARTING"
      "process_needs_restart st' = process_needs_restart st"
  | "service_list st' = service_list st"
      "process_needs_restart st' =
        (if t < process_needs_restart st \<or> process_needs_restart st = 0 then t else process_needs_restart st)"
proof -
  let ?s = "upd_svc i (clear_flags SVC_RESTARTING) (perform P Sys_clock_gettime st)"
  show thesis
  proof (cases "t \<le> clock_at P (trace st)")
    case True
    then have r: "st' = service_start P i None ?s"
      by (simp add: st'_def t_def restart_service_if_needed_def Let_def gettime_split)
    have i': "i < length (service_list ?s)" using i by simp
    from start_cases [OF i' refl, of P None] obtain svc' where
      l: "service_list st' = (service_list ?s)[i := svc']" "process_needs_restart st' = process_needs_restart ?s"
      and o: "if has (svc_flags (start_cleared (service_list ?s ! i))) SVC_RUNNING then svc' = start_cleared (service_list ?s ! i)
        else if start_refused P (start_cleared (service_list ?s ! i)) None ?s
        then svc' = set_flags SVC_DISABLED (start_cleared (service_list ?s ! i))
        else svc' \<in> {start_cleared (service_list ?s ! i), (start_cleared (service_list ?s ! i))\<lparr>svc_pid := 0\<rparr>} \<or>
          (\<exists>pid now. 0 < pid \<and> svc' = set_flags SVC_RUNNING
             ((start_cleared (service_list ?s ! i))\<lparr>svc_time_started := now, svc_pid := pid\<rparr>))"
      unfolding r by blast
    have "\<not> has (svc_flags svc') SVC_RESTARTING"
      using o by (auto simp: start_cleared_def flag_simps split: if_splits)
    then show thesis using that(1) [of svc'] l i by (simp add: upd_nth_def)
  next
    case False
    then show thesis using that(2)
      by (simp add: st'_def t_def restart_service_if_needed_def Let_def gettime_split)
  qed
qed

text \<open>What holds after the first \<open>k\<close> services were looked at.\<close>

definition restart_upto :: "init_st \<Rightarrow> nat \<Rightarrow> init_st \<Rightarrow> bool" where
  "restart_upto st k s \<longleftrightarrow> length (service_list s) = length (service_list st) \<and> 0 \<le> process_needs_restart s \<and>
     (\<forall>j. k \<le> j \<longrightarrow> j < length (service_list st) \<longrightarrow> service_list s ! j = service_list st ! j) \<and>
     (\<forall>j<k. has (svc_flags (service_list s ! j)) SVC_RESTARTING \<longrightarrow> service_list s ! j = service_list st ! j \<and>
        0 < process_needs_restart s \<and> process_needs_restart s \<le> svc_time_started (service_list st ! j) + 5)"

lemma restart_upto_step:
  assumes inv: "restart_upto st k s" and k: "k < length (service_list st)"
    and time: "0 \<le> svc_time_started (service_list st ! k)"
  shows "restart_upto st (Suc k)
    (if has (svc_flags (service_list s ! k)) SVC_RESTARTING then restart_service_if_needed P k s else s)"
proof (cases "has (svc_flags (service_list s ! k)) SVC_RESTARTING")
  case False
  then show ?thesis using inv by (auto simp: restart_upto_def less_Suc_eq)
next
  case True
  have k': "k < length (service_list s)" "service_list s ! k = service_list st ! k"
    using inv k by (simp_all add: restart_upto_def)
  show ?thesis
  proof (rule restart_if_needed_cases [OF k'(1), of P], goal_cases)
    case (1 svc')
    let ?s = "restart_service_if_needed P k s"
    have n: "service_list ?s ! j = (if j = k then svc' else service_list s ! j)" for j
      using k'(1) by (simp add: 1(1) nth_list_update)
    have "restart_upto st (Suc k) ?s"
      using inv 1(2) unfolding restart_upto_def n 1(3) by (simp add: 1(1) less_Suc_eq) metis
    then show ?thesis using True by simp
  next
    case 2
    then show ?thesis using True inv k' time by (fastforce simp: restart_upto_def less_Suc_eq)
  qed
qed

text \<open>
  No service that waits for its restart is forgotten: after \<open>restart_processes\<close> every service still
  marked as restarting is unchanged, and the time at which the main loop wakes up is set, and not
  later than the end of the five seconds of any of them.
\<close>

lemma restart_processes_pending:
  assumes "\<forall>svc \<in> set (service_list st). 0 \<le> svc_time_started svc" "i < length (service_list st)"
    and "has (svc_flags (service_list (restart_processes P st) ! i)) SVC_RESTARTING"
  shows "service_list (restart_processes P st) ! i = service_list st ! i \<and>
    0 < process_needs_restart (restart_processes P st) \<and>
    process_needs_restart (restart_processes P st) \<le> svc_time_started (service_list st ! i) + 5"
proof -
  let ?f = "\<lambda>i s. if has (svc_flags (service_list s ! i)) SVC_RESTARTING then restart_service_if_needed P i s else s"
  have "restart_upto st k (fold ?f [0..<k] (st\<lparr>process_needs_restart := 0\<rparr>))" if "k \<le> length (service_list st)" for k
    using that
  proof (induction k)
    case (Suc k)
    then show ?case using restart_upto_step [of st k _ P] assms(1) by simp
  qed (simp add: restart_upto_def)
  from this [OF order_refl] have "restart_upto st (length (service_list st)) (restart_processes P st)"
    by (simp add: restart_processes_def service_for_each_flags_def list_for_each_service_def)
  then show ?thesis using assms(2,3) unfolding restart_upto_def by blast
qed

end
