(* ===== verification/Keychords.thy ===== *)
theory Keychords
  imports Services
begin

text \<open>
  \<open>keychords.c\<close>: key combinations that start a service.  The services with key codes are
  numbered, the kernel is told the codes and the numbers, and later delivers the number of a
  combination that was pressed.  Allocation is taken to succeed; numbers are 16 bits wide and
  the kernel delivers them with the low byte first.
\<close>

definition add_service_keycodes :: "platform \<Rightarrow> nat \<Rightarrow> init_st \<Rightarrow> init_st" where
  "add_service_keycodes P i st =
     (case svc_keycodes (service_list st ! i) of
        None \<Rightarrow> st
      | Some keycodes \<Rightarrow>
          let id = (keychords_count st + 1) mod 65536;
              new = keychord_bytes P id (map (\<lambda>k. k mod 65536) keycodes);
              old = (case keychords st of Some b \<Rightarrow> b | None \<Rightarrow> fresh_buf P (keychords_length st))
          in (upd_svc i (\<lambda>svc. svc\<lparr>svc_keychord_id := id\<rparr>) st)
               \<lparr>keychords := Some (old @ new), keychords_count := keychords_count st + 1,
                keychords_length := keychords_length st + length new\<rparr>)"

definition keychord_init :: "platform \<Rightarrow> init_st \<Rightarrow> init_st" where
  "keychord_init P st =
     (let st = service_for_each (add_service_keycodes P) st in
      case keychords st of
        None \<Rightarrow> st
      | Some chords \<Rightarrow>
          let (f, st) = sys P (Sys_open ''/dev/keychord'' [O_RDWR] 0) st; fd = an_ret f in
          if fd < 0 then st
          else
            let st = perform P (Sys_fcntl fd ''F_SETFD FD_CLOEXEC'') st;
                (w, st) = sys P (Sys_write fd chords) st;
                (fd, st) = (if an_ret w \<noteq> int (keychords_length st) then (- 1, perform P (Sys_close fd) st) else (fd, st))
            in st\<lparr>keychords := None, keychord_fd := fd\<rparr>)"

definition get_keychord_fd :: "init_st \<Rightarrow> int" where
  "get_keychord_fd st = keychord_fd st"

definition keychord_allowed :: "platform \<Rightarrow> init_st \<Rightarrow> bool" where
  "keychord_allowed P st \<longleftrightarrow> property_get P ''ro.debuggable'' st = Some ''1'' \<or>
     property_get P ''init.svc.adbd'' st = Some ''running''"

definition handle_keychord :: "platform \<Rightarrow> init_st \<Rightarrow> init_st" where
  "handle_keychord P st =
     (let allowed = keychord_allowed P st;
          (r, st) = sys P (Sys_read (keychord_fd st) 2) st in
      if an_ret r \<noteq> 2 then st
      else if allowed then
        let id = of_char (got r ! 0) + 256 * of_char (got r ! 1) in
        (case service_find_by_keychord id st of Some i \<Rightarrow> service_start P i None st | None \<Rightarrow> st)
      else st)"

subsection \<open>The invariant\<close>

lemma svc_static_keychord [simp]: "svc_static (svc\<lparr>svc_keychord_id := k\<rparr>) = svc_static svc"
  by (simp add: svc_static_def)

lemma step_keycodes [step_intros]:
  assumes "step_ok P st s" "i < length (service_list s)"
  shows "step_ok P st (add_service_keycodes P i s)"
proof (cases "svc_keycodes (service_list s ! i)")
  case (Some codes)
  have "step_ok P st (upd_svc i (\<lambda>svc. svc\<lparr>svc_keychord_id := (keychords_count s + 1) mod 65536\<rparr>) s)"
    by (rule step_upd [OF assms]) (auto simp: svc_run_ok_def)
  then show ?thesis by (auto simp: add_service_keycodes_def Some Let_def elim: step_same)
qed (simp add: add_service_keycodes_def assms)

lemma step_keychord_init [step_intros]: "step_ok P st s \<Longrightarrow> step_ok P st (keychord_init P s)"
proof -
  assume "step_ok P st s"
  then have s: "step_ok P st (service_for_each (add_service_keycodes P) s)"
    unfolding service_for_each_def by (intro step_for_each step_keycodes)
  then show ?thesis
    by (auto simp: keychord_init_def run_simps split: option.split intro!: step_perform
        intro: step_same [OF step_perform [OF step_perform [OF step_perform [OF s]]]]
          step_same [OF step_perform [OF step_perform [OF step_perform [OF step_perform [OF s]]]]])
qed

lemma step_handle_keychord [step_intros]: "step_ok P st s \<Longrightarrow> step_ok P st (handle_keychord P s)"
  by (auto simp: handle_keychord_def run_simps service_find_by_keychord_def split: option.split
      dest!: find_index_Some intro!: step_intros)

subsection \<open>A combination starts its service\<close>

definition chorded :: "service \<Rightarrow> bool" where
  "chorded svc \<longleftrightarrow> svc_keycodes svc \<noteq> None"

text \<open>The services numbered from \<open>n + 1\<close> on.\<close>

fun number_services :: "int \<Rightarrow> service list \<Rightarrow> service list" where
  "number_services n [] = []"
| "number_services n (svc # svcs) =
     (if chorded svc then svc\<lparr>svc_keychord_id := (n + 1) mod 65536\<rparr> # number_services (n + 1) svcs
      else svc # number_services n svcs)"

lemma length_number_services [simp]: "length (number_services n svcs) = length svcs"
  by (induction svcs arbitrary: n) auto

lemma keycodes_service_list:
  assumes "service_list st = xs @ svc # ys" "i = length xs"
  shows "service_list (add_service_keycodes P i st) =
      xs @ (if chorded svc then svc\<lparr>svc_keychord_id := (keychords_count st + 1) mod 65536\<rparr> else svc) # ys"
    "keychords_count (add_service_keycodes P i st) = keychords_count st + (if chorded svc then 1 else 0)"
  using assms by (auto simp: add_service_keycodes_def chorded_def Let_def upd_svc_def upd_nth_def split: option.split)

lemma fold_keycodes:
  assumes "service_list st = xs @ ys"
  shows "service_list (fold (add_service_keycodes P) [length xs..<length xs + length ys] st) =
    xs @ number_services (keychords_count st) ys"
  using assms
proof (induction ys arbitrary: xs st)
  case (Cons svc ys)
  let ?st = "add_service_keycodes P (length xs) st"
  let ?svc = "if chorded svc then svc\<lparr>svc_keychord_id := (keychords_count st + 1) mod 65536\<rparr> else svc"
  note k = keycodes_service_list [OF Cons.prems refl, of P]
  have "service_list ?st = (xs @ [?svc]) @ ys" using k(1) by simp
  note IH = Cons.IH [OF this]
  have u: "[length xs..<length xs + length (svc # ys)] =
      length xs # [length (xs @ [?svc])..<length (xs @ [?svc]) + length ys]"
    by (simp add: upt_conv_Cons del: upt_Suc)
  show ?case unfolding u using IH k(2) by (simp del: upt_Suc length_append)
qed simp

lemma init_numbers: "service_list (keychord_init P st) = number_services (keychords_count st) (service_list st)"
proof -
  have "service_list (service_for_each (add_service_keycodes P) st) = number_services (keychords_count st) (service_list st)"
    using fold_keycodes [of st "[]"] by (simp add: service_for_each_def list_for_each_service_def)
  then show ?thesis by (simp add: keychord_init_def run_simps split: option.split)
qed

text \<open>The number of the service at a position: the services with key codes are counted from one.\<close>

definition chord_number :: "service list \<Rightarrow> nat \<Rightarrow> nat" where
  "chord_number svcs i = length (filter chorded (take (Suc i) svcs))"

lemma number_services_find:
  assumes "list_all (\<lambda>svc. svc_keychord_id svc = 0) svcs" "0 \<le> n" "n + int (length (filter chorded svcs)) < 65536"
    and "i < length svcs" "chorded (svcs ! i)"
  shows "find_index (\<lambda>svc. svc_keychord_id svc = n + int (chord_number svcs i)) (number_services n svcs) = Some i"
  using assms
proof (induction svcs arbitrary: n i)
  case (Cons svc svcs)
  show ?case
  proof (cases i)
    case 0
    with Cons.prems show ?thesis by (simp add: chord_number_def)
  next
    case (Suc k)
    have c: "0 < chord_number svcs k" using Cons.prems Suc
      by (simp add: chord_number_def take_Suc_conv_app_nth)
    then have pos: "n + int (chord_number svcs k) \<noteq> 0" using Cons.prems(2) by linarith
    have num: "chord_number (svc # svcs) i = chord_number svcs k + (if chorded svc then 1 else 0)"
      by (simp add: chord_number_def Suc)
    show ?thesis using Cons.prems Suc c pos num Cons.IH [of "if chorded svc then n + 1 else n" k]
      by (cases "chorded svc") (auto simp: algebra_simps)
  qed
qed simp

text \<open>
  C30.  Key combinations work: after \<open>keychord_init\<close> has numbered the services with key codes, the
  number of a service that the kernel delivers makes \<open>handle_keychord\<close> start exactly this service,
  provided the device is debuggable or \<open>adbd\<close> runs; otherwise the number is read and ignored.
\<close>

theorem keychord_starts_service:
  fixes P st
  defines "s \<equiv> keychord_init P st"
  defines "r \<equiv> os P (trace s) (Sys_read (keychord_fd s) 2)"
  defines "s' \<equiv> perform P (Sys_read (keychord_fd s) 2) s"
  assumes "keychords_count st = 0" "list_all (\<lambda>svc. svc_keychord_id svc = 0) (service_list st)"
    and "length (filter chorded (service_list st)) < 65536"
    and "i < length (service_list st)" "chorded (service_list st ! i)"
    and "an_ret r = 2" "of_char (got r ! 0) + 256 * of_char (got r ! 1) = int (chord_number (service_list st) i)"
  shows "handle_keychord P s = (if keychord_allowed P s then service_start P i None s' else s')"
proof -
  have "find_index (\<lambda>svc. svc_keychord_id svc = int (chord_number (service_list st) i)) (service_list s) = Some i"
    using number_services_find [of "service_list st" 0 i] assms(4-8) by (simp add: s_def init_numbers)
  then have "service_find_by_keychord (of_char (got r ! 0) + 256 * of_char (got r ! 1)) s' = Some i"
    using assms(10) by (simp add: service_find_by_keychord_def s'_def)
  then show ?thesis
    using assms(9) by (simp add: handle_keychord_def run_simps r_def [symmetric] s'_def [symmetric])
qed

definition chord_os :: "sys_trace \<Rightarrow> syscall \<Rightarrow> answer" where
  "chord_os t c =
     (case c of
        Sys_read _ _ \<Rightarrow> (ok_answer 2)\<lparr>an_data := le16 1\<rparr>
      | Sys_write _ d \<Rightarrow> ok_answer (int (length d))
      | _ \<Rightarrow> example_os t c)"

definition chord_platform :: platform where
  "chord_platform = example_platform\<lparr>os := chord_os\<rparr>"

definition chord_state :: init_st where
  "chord_state = init_st0\<lparr>pa_mapped := True, property_area_inited := True,
     props := [\<lparr>pi_name = ''ro.debuggable'', pi_serial = 0x1000000, pi_value = ''1''\<rparr>],
     service_list := [new_service ''logd'' [''/bin/logd''],
     (new_service ''bugreport'' [''/bin/bugreport''])\<lparr>svc_keycodes := Some [114, 115, 116]\<rparr>]\<rparr>"

theorem keychord_starts_service_witness:
  "handle_keychord chord_platform (keychord_init chord_platform chord_state) =
   service_start chord_platform 1 None (perform chord_platform (Sys_read 5 2) (keychord_init chord_platform chord_state))"
proof -
  let ?s = "keychord_init chord_platform chord_state"
  have h: "keychords_count chord_state = 0" "list_all (\<lambda>svc. svc_keychord_id svc = 0) (service_list chord_state)"
    "length (filter chorded (service_list chord_state)) < 65536" "1 < length (service_list chord_state)"
    "chorded (service_list chord_state ! 1)"
    by (simp_all add: chord_state_def init_st0_def new_service_def chorded_def)
  have r: "an_ret (os chord_platform t (Sys_read fd n)) = 2"
    "of_char (got (os chord_platform t (Sys_read fd n)) ! 0) + 256 * of_char (got (os chord_platform t (Sys_read fd n)) ! 1) =
     int (chord_number (service_list chord_state) 1)" for t fd n
    by (simp_all add: chord_platform_def chord_os_def got_def ok_answer_def le16_def chord_number_def chord_state_def
        init_st0_def new_service_def chorded_def)
  have "keychord_fd ?s = 5" "keychord_allowed chord_platform ?s" by code_simp+
  with keychord_starts_service [OF h r] show ?thesis by simp
qed

end
