(* ===== verification/Builtins.thy ===== *)
theory Builtins
  imports Services
begin

text \<open>
  The commands of \<open>builtins.c\<close>.  A command gets its number of arguments and the argument array of
  the line it was read from; it returns its result, which init only logs, and the new state, or
  \<open>None\<close> when it does not return or its behaviour is undefined: when it reads an argument that the
  line does not have, writes outside a buffer, or writes to a string constant.

  \<open>do_exec\<close> overwrites its arguments, so it also returns the argument array; \<open>run_builtin\<close>, which
  stands for the call through the function pointer of a command, does so for every command.  The
  sources are read without \<open>HAVE_SELINUX\<close>.
\<close>

type_synonym result = "(int \<times> init_st) option"

definition argv :: "string list \<Rightarrow> nat \<Rightarrow> string option" where
  "argv args i = (if i < length args then Some (args ! i) else None)"

subsection \<open>Helpers\<close>

text \<open>\<open>write\<close> is repeated while a signal interrupts it; \<open>close\<close> may overwrite \<open>errno\<close>.\<close>

partial_function (option) write_retry :: "platform \<Rightarrow> int \<Rightarrow> string \<Rightarrow> init_st \<Rightarrow> (answer \<times> init_st) option" where
  "write_retry P fd value st =
     (let (w, st) = sys P (Sys_write fd value) st in
      if an_ret w < 0 \<and> an_errno w = EINTR then write_retry P fd value st else Some (w, st))"

declare write_retry.simps [code]

definition write_file :: "platform \<Rightarrow> string \<Rightarrow> string \<Rightarrow> init_st \<Rightarrow> result" where
  "write_file P path value st =
     (let (f, st) = sys P (Sys_open path [O_WRONLY, O_CREAT] 0x192) st; fd = an_ret f in
      if fd < 0 then Some (- an_errno f, st)
      else do {
        (w, st) \<leftarrow> write_retry P fd value st;
        let (c, st) = sys P (Sys_close fd) st;
        Some (if an_ret w < 0 then - (if an_ret c < 0 then an_errno c else an_errno w) else 0, st)
      })"

definition S_ISLNK :: "32 word \<Rightarrow> bool" where
  "S_ISLNK mode \<longleftrightarrow> mode AND 0xF000 = 0xA000"

text \<open>These two return the result and \<open>errno\<close>; they refuse to follow a symbolic link.\<close>

definition chown_path :: "platform \<Rightarrow> string \<Rightarrow> 32 word \<Rightarrow> 32 word \<Rightarrow> init_st \<Rightarrow> (int \<times> int) \<times> init_st" where
  "chown_path P path uid gid st =
     (let (s, st) = sys P (Sys_lstat path) st in
      if an_ret s < 0 then ((- 1, an_errno s), st)
      else if S_ISLNK (an_mode s) then ((- 1, EINVAL), st)
      else let (c, st) = sys P (Sys_chown path uid gid) st in ((an_ret c, an_errno c), st))"

definition chmod_path :: "platform \<Rightarrow> string \<Rightarrow> 32 word \<Rightarrow> init_st \<Rightarrow> (int \<times> int) \<times> init_st" where
  "chmod_path P path mode st =
     (let (s, st) = sys P (Sys_lstat path) st in
      if an_ret s < 0 then ((- 1, an_errno s), st)
      else if S_ISLNK (an_mode s) then ((- 1, EINVAL), st)
      else let (c, st) = sys P (Sys_chmod path mode) st in ((an_ret c, an_errno c), st))"

definition insmod :: "platform \<Rightarrow> string \<Rightarrow> string \<Rightarrow> init_st \<Rightarrow> int \<times> init_st" where
  "insmod P filename options st =
     (case read_file P filename st of
        (None, st) \<Rightarrow> (- 1, st)
      | (Some module, st) \<Rightarrow>
          let (r, st) = sys P (Sys_init_module (take (length module - 2) module) options) st
          in (an_ret r, st))"

text \<open>The keyboard table and index are bytes, the value a short; the \<open>ioctl\<close> gets all three.\<close>

definition setkey :: "platform \<Rightarrow> 32 word \<Rightarrow> 32 word \<Rightarrow> 32 word \<Rightarrow> init_st \<Rightarrow> int \<times> init_st" where
  "setkey P kb_table kb_index kb_value st =
     (let (f, st) = sys P (Sys_open ''/dev/tty0'' [O_RDWR, O_SYNC] 0) st; fd = an_ret f in
      if fd < 0 then (- 1, st)
      else
        let kbe = show_nat (unat kb_table mod 256) @ '' '' @ show_nat (unat kb_index mod 256) @ '' '' @
                  show_nat (unat kb_value mod 65536);
            (r, st) = sys P (Sys_ioctl fd ''KDSKBENT'' kbe) st
        in (an_ret r, perform P (Sys_close fd) st))"

definition IFNAMSIZ :: nat where "IFNAMSIZ = 16"
definition IFF_UP :: "32 word" where "IFF_UP = 1"

definition ifupdown :: "platform \<Rightarrow> string \<Rightarrow> bool \<Rightarrow> init_st \<Rightarrow> int \<times> init_st" where
  "ifupdown P interface up st =
     (let ifr_name = clip IFNAMSIZ interface;
          (s, st) = sys P Sys_inet_socket st; fd = an_ret s in
      if fd < 0 then (- 1, st)
      else
        let (g, st) = sys P (Sys_ioctl fd ''SIOCGIFFLAGS'' ifr_name) st in
        if an_ret g < 0 then (an_ret g, perform P (Sys_close fd) st)
        else
          let flags = (if up then an_mode g OR IFF_UP else clear (an_mode g) IFF_UP);
              (r, st) = sys P (Sys_ioctl fd ''SIOCSIFFLAGS'' (ifr_name @ '' '' @ show_nat (unat flags))) st
          in (an_ret r, perform P (Sys_close fd) st))"

definition service_start_if_not_disabled :: "platform \<Rightarrow> nat \<Rightarrow> init_st \<Rightarrow> init_st" where
  "service_start_if_not_disabled P i st =
     (if \<not> has (svc_flags (service_list st ! i)) SVC_DISABLED then service_start P i None st else st)"

subsection \<open>Directories and classes\<close>

definition do_chdir :: "platform \<Rightarrow> nat \<Rightarrow> string list \<Rightarrow> init_st \<Rightarrow> result" where
  "do_chdir P nargs args st = do { a1 \<leftarrow> argv args 1; Some (0, perform P (Sys_chdir a1) st) }"

definition do_chroot :: "platform \<Rightarrow> nat \<Rightarrow> string list \<Rightarrow> init_st \<Rightarrow> result" where
  "do_chroot P nargs args st = do { a1 \<leftarrow> argv args 1; Some (0, perform P (Sys_chroot a1) st) }"

definition do_class_start :: "platform \<Rightarrow> nat \<Rightarrow> string list \<Rightarrow> init_st \<Rightarrow> result" where
  "do_class_start P nargs args st =
     do { a1 \<leftarrow> argv args 1; Some (0, service_for_each_class a1 (service_start_if_not_disabled P) st) }"

definition do_class_stop :: "platform \<Rightarrow> nat \<Rightarrow> string list \<Rightarrow> init_st \<Rightarrow> result" where
  "do_class_stop P nargs args st =
     do { a1 \<leftarrow> argv args 1; Some (0, service_for_each_class a1 (service_stop P) st) }"

definition do_class_reset :: "platform \<Rightarrow> nat \<Rightarrow> string list \<Rightarrow> init_st \<Rightarrow> result" where
  "do_class_reset P nargs args st =
     do { a1 \<leftarrow> argv args 1; Some (0, service_for_each_class a1 (service_reset P) st) }"

definition do_export_rc :: "platform \<Rightarrow> nat \<Rightarrow> string list \<Rightarrow> init_st \<Rightarrow> result" where
  "do_export_rc P nargs args st = do { a1 \<leftarrow> argv args 1; init_export_rc_file P a1 st }"

definition do_domainname :: "platform \<Rightarrow> nat \<Rightarrow> string list \<Rightarrow> init_st \<Rightarrow> result" where
  "do_domainname P nargs args st =
     do { a1 \<leftarrow> argv args 1; write_file P ''/proc/sys/kernel/domainname'' a1 st }"

definition do_export :: "platform \<Rightarrow> nat \<Rightarrow> string list \<Rightarrow> init_st \<Rightarrow> result" where
  "do_export P nargs args st =
     do { a1 \<leftarrow> argv args 1; a2 \<leftarrow> argv args 2; Some (0, snd (add_environment a1 a2 st)) }"

definition do_hostname :: "platform \<Rightarrow> nat \<Rightarrow> string list \<Rightarrow> init_st \<Rightarrow> result" where
  "do_hostname P nargs args st =
     do { a1 \<leftarrow> argv args 1; write_file P ''/proc/sys/kernel/hostname'' a1 st }"

definition do_ifup :: "platform \<Rightarrow> nat \<Rightarrow> string list \<Rightarrow> init_st \<Rightarrow> result" where
  "do_ifup P nargs args st = do { a1 \<leftarrow> argv args 1; Some (ifupdown P a1 True st) }"

subsection \<open>Running a program\<close>

definition MAX_PARAMETERS :: nat where "MAX_PARAMETERS = 64"

text \<open>
  An argument of \<open>do_exec\<close> is a text and whether it may be written to.  The loop replaces an
  argument by its expansion when this is not longer; the buffer for the expansion is only read
  after a successful call, which begins at its start.
\<close>

definition expand_arg :: "platform \<Rightarrow> init_st \<Rightarrow> string \<times> bool \<Rightarrow> (string \<times> bool) option" where
  "expand_arg P st = (\<lambda>(a, writable).
     do {
       (ret, buf) \<leftarrow> expand_props P st (fresh_buf P (PROP_VALUE_MAX P)) a;
       if ret \<noteq> 0 then Some (a, writable)
       else
         let prop_val = cstr_at buf 0 in
         if length prop_val \<le> length a then (if writable then Some (prop_val, writable) else None)
         else Some (a, writable)
     })"

fun expand_args :: "platform \<Rightarrow> init_st \<Rightarrow> (string \<times> bool) list \<Rightarrow> (string \<times> bool) list option" where
  "expand_args P st [] = Some []"
| "expand_args P st (a # as) =
     do { a \<leftarrow> expand_arg P st a; as \<leftarrow> expand_args P st as; Some (a # as) }"

text \<open>The child, and the parent's wait for it, which discards the exits of all other children.\<close>

definition exec_child :: "platform \<Rightarrow> string list \<Rightarrow> init_st \<Rightarrow> init_st" where
  "exec_child P par st =
     (let (fd, sz) = get_property_workspace st;
          (d, st) = sys P (Sys_dup fd) st;
          v = show_int (an_ret d) @ '','' @ show_int sz;
          st = perform P (Sys_setenv ''ANDROID_PROPERTY_WORKSPACE'' v) st;
          (e, st) = sys P (Sys_execve (concat (take 1 par)) par (environ P @ [''ANDROID_PROPERTY_WORKSPACE='' @ v])) st
      in if an_ret e < 0 then perform P (Sys_exit 0) st else st)"

partial_function (option) wait_child :: "platform \<Rightarrow> int \<Rightarrow> init_st \<Rightarrow> init_st option" where
  "wait_child P pid st =
     (let (w, st) = sys P Sys_wait st in if an_ret w \<noteq> pid then wait_child P pid st else Some st)"

declare wait_child.simps [code]

definition do_exec_mem ::
  "platform \<Rightarrow> nat \<Rightarrow> (string \<times> bool) list \<Rightarrow> init_st \<Rightarrow> (int \<times> (string \<times> bool) list \<times> init_st) option" where
  "do_exec_mem P nargs args st =
     (if MAX_PARAMETERS < nargs then Some (- 1, args, st)
      else if length args < nargs then None
      else do {
        as \<leftarrow> expand_args P st (take (nargs - 1) (drop 1 args));
        let args = take 1 args @ as @ drop (1 + length as) args;
        let par = map fst as;
        let (f, st) = sys P Sys_fork st;
        let pid = an_ret f;
        if pid = 0 then Some (0, args, (exec_child P par st)\<lparr>exited := Some 0\<rparr>)
        else do {
          let st = (if 0 < pid
                    then st\<lparr>children := (pid, trace (exec_child P par (perform P Sys_child st))) # children st\<rparr>
                    else st);
          st \<leftarrow> wait_child P pid st;
          Some (0, args, st)
        }
      })"

definition do_exec :: "platform \<Rightarrow> nat \<Rightarrow> string list \<Rightarrow> init_st \<Rightarrow> (int \<times> string list \<times> init_st) option" where
  "do_exec P nargs args st =
     map_option (\<lambda>(r, as, st). (r, map fst as, st)) (do_exec_mem P nargs (map (\<lambda>a. (a, True)) args) st)"

text \<open>
  \<open>do_log\<close> calls \<open>do_exec\<close> with an array that begins with three string constants.  The other
  entries point into its own arguments or into the property area.
\<close>

definition log_value :: "platform \<Rightarrow> init_st \<Rightarrow> string \<Rightarrow> string" where
  "log_value P st a =
     (if take 1 a = [DOLLAR] then
        if take 1 (drop 1 a) \<noteq> [DOLLAR] then
          (case property_get P (drop 1 a) st of None \<Rightarrow> a | Some v \<Rightarrow> v)
        else drop 1 a
      else a)"

definition do_log :: "platform \<Rightarrow> nat \<Rightarrow> string list \<Rightarrow> init_st \<Rightarrow> result" where
  "do_log P nargs args st =
     (if length args < nargs then None
      else
        let par = [(''exec'', False), (''/system/bin/log'', False), (''-tinit'', False)] @
                  map (\<lambda>a. (log_value P st a, True)) (take (nargs - 1) (drop 1 args))
        in map_option (\<lambda>(r, as, st). (r, st)) (do_exec_mem P (nargs + 2) par st))"

subsection \<open>Modules, directories, mounts\<close>

text \<open>\<open>strcat\<close> into a buffer with room for \<open>room\<close> characters and the terminating NUL.\<close>

definition strcat_n :: "nat \<Rightarrow> string \<Rightarrow> string \<Rightarrow> string option" where
  "strcat_n room s t = (if length s + length t \<le> room then Some (s @ t) else None)"

fun insmod_options :: "nat \<Rightarrow> string \<Rightarrow> string list \<Rightarrow> string option" where
  "insmod_options room options [] = Some options"
| "insmod_options room options (a # as) =
     do {
       options \<leftarrow> strcat_n room options '' '';
       options \<leftarrow> strcat_n room options a;
       insmod_options room options as
     }"

definition do_insmod_inner :: "platform \<Rightarrow> nat \<Rightarrow> string list \<Rightarrow> nat \<Rightarrow> init_st \<Rightarrow> result" where
  "do_insmod_inner P nargs args opt_len st =
     do {
       options \<leftarrow> (if 2 < nargs
                  then do {
                    a2 \<leftarrow> argv args 2;
                    options \<leftarrow> strcat_n opt_len [] a2;
                    insmod_options opt_len options (take (nargs - 3) (drop 3 args))
                  }
                  else Some []);
       a1 \<leftarrow> argv args 1;
       Some (insmod P a1 options st)
     }"

definition do_insmod :: "platform \<Rightarrow> nat \<Rightarrow> string list \<Rightarrow> init_st \<Rightarrow> result" where
  "do_insmod P nargs args st =
     (let sz = (if 2 < nargs then sum_list (map (\<lambda>a. length a + 1) (take (nargs - 2) (drop 2 args))) else 0)
      in do_insmod_inner P nargs args sz st)"

definition do_mkdir :: "platform \<Rightarrow> nat \<Rightarrow> string list \<Rightarrow> init_st \<Rightarrow> result" where
  "do_mkdir P nargs args st =
     do {
       mode \<leftarrow> (if 3 \<le> nargs then map_option (\<lambda>a. fst (strtoul (strtoul_einval P) 8 a)) (argv args 2) else Some 0x1ED);
       a1 \<leftarrow> argv args 1;
       let (m, st) = sys P (Sys_mkdir a1 mode) st;
       let ((ret, errno), st) = (if an_ret m = - 1 \<and> an_errno m = EEXIST then chmod_path P a1 mode st
                                 else ((an_ret m, an_errno m), st));
       if ret = - 1 then Some (- errno, st)
       else if 4 \<le> nargs then do {
         a3 \<leftarrow> argv args 3;
         gid \<leftarrow> (if nargs = 5 then map_option (decode_uid P) (argv args 4) else Some (- 1));
         let ((ret, errno), st) = chown_path P a1 (decode_uid P a3) gid st;
         Some (if ret < 0 then - errno else 0, st)
       }
       else Some (0, st)
     }"

definition MS_RDONLY :: "32 word" where "MS_RDONLY = 1"
definition MS_NOSUID :: "32 word" where "MS_NOSUID = 2"
definition MS_NODEV :: "32 word" where "MS_NODEV = 4"
definition MS_NOEXEC :: "32 word" where "MS_NOEXEC = 8"
definition MS_REMOUNT :: "32 word" where "MS_REMOUNT = 32"
definition MS_NOATIME :: "32 word" where "MS_NOATIME = 1024"
definition MS_NODIRATIME :: "32 word" where "MS_NODIRATIME = 2048"

definition mount_flags :: "(string \<times> 32 word) list" where
  "mount_flags = [(''noatime'', MS_NOATIME), (''noexec'', MS_NOEXEC), (''nosuid'', MS_NOSUID),
     (''nodev'', MS_NODEV), (''nodiratime'', MS_NODIRATIME), (''ro'', MS_RDONLY), (''rw'', 0),
     (''remount'', MS_REMOUNT), (''defaults'', 0)]"

text \<open>The words after the mount point: flags, the word \<open>wait\<close>, and an option string at the end.\<close>

fun mount_words :: "string list \<Rightarrow> 32 word \<times> bool \<times> string option \<Rightarrow> 32 word \<times> bool \<times> string option" where
  "mount_words [] x = x"
| "mount_words (a # as) (flags, wait, options) =
     mount_words as
       (case map_of mount_flags a of
          Some f \<Rightarrow> (flags OR f, wait, options)
        | None \<Rightarrow>
            if a = ''wait'' then (flags, True, options)
            else if as = [] then (flags, wait, Some a)
            else (flags, wait, options))"

text \<open>The search for a free loop device; \<open>None\<close> when it never ends.\<close>

partial_function (option) loop_mount ::
  "platform \<Rightarrow> oflag \<Rightarrow> int \<Rightarrow> string \<Rightarrow> string \<Rightarrow> 32 word \<Rightarrow> string option \<Rightarrow> nat \<Rightarrow> init_st \<Rightarrow> (int \<times> init_st) option" where
  "loop_mount P mode fd target system flags options n st =
     (let tmp = ''/dev/block/loop'' @ show_nat n;
          (l, st) = sys P (Sys_open tmp [mode] 0) st; loop = an_ret l in
      if loop < 0 then Some (- 1, st)
      else
        let (i, st) = sys P (Sys_ioctl loop ''LOOP_GET_STATUS'' []) st in
        if an_ret i < 0 \<and> an_errno i = ENXIO then
          let (s, st) = sys P (Sys_ioctl loop ''LOOP_SET_FD'' (show_int fd)) st in
          if 0 \<le> an_ret s then
            let st = perform P (Sys_close fd) st;
                (m, st) = sys P (Sys_mount tmp target system flags options) st in
            if an_ret m < 0
            then Some (- 1, perform P (Sys_close loop) (perform P (Sys_ioctl loop ''LOOP_CLR_FD'' []) st))
            else Some (0, perform P (Sys_close loop) st)
          else loop_mount P mode fd target system flags options (n + 1) (perform P (Sys_close loop) st)
        else loop_mount P mode fd target system flags options (n + 1) (perform P (Sys_close loop) st))"

declare loop_mount.simps [code]

definition mount_waited ::
  "platform \<Rightarrow> bool \<Rightarrow> string \<Rightarrow> string \<Rightarrow> string \<Rightarrow> 32 word \<Rightarrow> string option \<Rightarrow> init_st \<Rightarrow> result" where
  "mount_waited P wait source target system flags options st =
     do {
       st \<leftarrow> (if wait then map_option snd (wait_for_file P source COMMAND_RETRY_TIMEOUT st) else Some st);
       let (m, st) = sys P (Sys_mount source target system flags options) st;
       Some (if an_ret m < 0 then - 1 else 0, st)
     }"

definition do_mount :: "platform \<Rightarrow> nat \<Rightarrow> string list \<Rightarrow> init_st \<Rightarrow> result" where
  "do_mount P nargs args st =
     do {
       let (flags, wait, options) = mount_words (take (nargs - 4) (drop 4 args)) (0, False, None);
       system \<leftarrow> argv args 1;
       source \<leftarrow> argv args 2;
       target \<leftarrow> argv args 3;
       if has_prefix ''mtd@'' source then
         let (n, st) = mtd_name_to_number P (drop 4 source) st in
         if n < 0 then Some (- 1, st)
         else mount_waited P wait (''/dev/block/mtdblock'' @ show_int n) target system flags options st
       else if has_prefix ''loop@'' source then
         let mode = (if has flags MS_RDONLY then O_RDONLY else O_RDWR);
             (f, st) = sys P (Sys_open (drop 5 source) [mode] 0) st in
         if an_ret f < 0 then Some (- 1, st)
         else loop_mount P mode (an_ret f) target system flags options 0 st
       else mount_waited P wait source target system flags options st
     }"

text \<open>The child that mounts all file systems, and what the parent makes of its exit status.\<close>

definition mount_all_child :: "platform \<Rightarrow> string \<Rightarrow> init_st \<Rightarrow> int \<times> init_st" where
  "mount_all_child P fstab st =
     (let st = perform P (Sys_klog_set_level 6) st;
          (r, st) = sys P (Sys_fs_mgr_mount_all fstab) st
      in (an_ret r, perform P (Sys_exit (an_ret r)) st))"

definition WIFEXITED :: "32 word \<Rightarrow> bool" where "WIFEXITED status \<longleftrightarrow> status AND 0x7f = 0"
definition WEXITSTATUS :: "32 word \<Rightarrow> int" where "WEXITSTATUS status = uint (drop_bit 8 status AND 0xff)"

definition mount_all_result :: "platform \<Rightarrow> int \<Rightarrow> init_st \<Rightarrow> init_st" where
  "mount_all_result P ret st =
     (if ret = 1 then
        snd (property_set P ''vold.decrypt'' ''1'' (snd (property_set P ''ro.crypto.state'' ''encrypted'' st)))
      else if ret = 0 then
        action_for_each_trigger ''nonencrypted'' action_add_queue_tail
          (snd (property_set P ''ro.crypto.state'' ''unencrypted'' st))
      else st)"

definition do_mount_all :: "platform \<Rightarrow> nat \<Rightarrow> string list \<Rightarrow> init_st \<Rightarrow> result" where
  "do_mount_all P nargs args st =
     (if nargs \<noteq> 2 then Some (- 1, st)
      else do {
        a1 \<leftarrow> argv args 1;
        let (f, st) = sys P Sys_fork st;
        let pid = an_ret f;
        if 0 < pid then
          let st = st\<lparr>children := (pid, trace (snd (mount_all_child P a1 (perform P Sys_child st)))) # children st\<rparr>;
              (w, st) = sys P (Sys_waitpid pid True) st;
              ret = (if WIFEXITED (an_mode w) then WEXITSTATUS (an_mode w) else - 1)
          in Some (ret, mount_all_result P ret st)
        else if pid = 0 then
          let (r, st) = mount_all_child P a1 st in Some (r, st\<lparr>exited := Some r\<rparr>)
        else Some (- 1, st)
      })"

subsection \<open>Settings\<close>

text \<open>Without SELinux these four do nothing.\<close>

definition do_setcon :: "platform \<Rightarrow> nat \<Rightarrow> string list \<Rightarrow> init_st \<Rightarrow> result" where
  "do_setcon P nargs args st = Some (0, st)"

definition do_setenforce :: "platform \<Rightarrow> nat \<Rightarrow> string list \<Rightarrow> init_st \<Rightarrow> result" where
  "do_setenforce P nargs args st = Some (0, st)"

definition do_restorecon :: "platform \<Rightarrow> nat \<Rightarrow> string list \<Rightarrow> init_st \<Rightarrow> result" where
  "do_restorecon P nargs args st = Some (0, st)"

definition do_setsebool :: "platform \<Rightarrow> nat \<Rightarrow> string list \<Rightarrow> init_st \<Rightarrow> result" where
  "do_setsebool P nargs args st = Some (0, st)"

definition do_setkey :: "platform \<Rightarrow> nat \<Rightarrow> string list \<Rightarrow> init_st \<Rightarrow> result" where
  "do_setkey P nargs args st =
     do {
       a1 \<leftarrow> argv args 1;
       a2 \<leftarrow> argv args 2;
       a3 \<leftarrow> argv args 3;
       let num = (\<lambda>a. fst (strtoul (strtoul_einval P) 0 a));
       Some (setkey P (num a1) (num a2) (num a3) st)
     }"

definition do_setprop :: "platform \<Rightarrow> nat \<Rightarrow> string list \<Rightarrow> init_st \<Rightarrow> result" where
  "do_setprop P nargs args st =
     do {
       name \<leftarrow> argv args 1;
       value \<leftarrow> argv args 2;
       (ret, buf) \<leftarrow> expand_props P st (fresh_buf P (PROP_VALUE_MAX P)) value;
       Some (if ret \<noteq> 0 then (- EINVAL, st) else (0, snd (property_set P name (cstr_at buf 0) st)))
     }"

definition do_setrlimit :: "platform \<Rightarrow> nat \<Rightarrow> string list \<Rightarrow> init_st \<Rightarrow> result" where
  "do_setrlimit P nargs args st =
     do {
       a1 \<leftarrow> argv args 1;
       a2 \<leftarrow> argv args 2;
       a3 \<leftarrow> argv args 3;
       let (r, st) = sys P (Sys_setrlimit (atoi a1) (atoi a2) (atoi a3)) st;
       Some (an_ret r, st)
     }"

subsection \<open>Services and actions\<close>

definition do_start :: "platform \<Rightarrow> nat \<Rightarrow> string list \<Rightarrow> init_st \<Rightarrow> result" where
  "do_start P nargs args st =
     do {
       a1 \<leftarrow> argv args 1;
       Some (0, case service_find_by_name a1 st of Some i \<Rightarrow> service_start P i None st | None \<Rightarrow> st)
     }"

definition do_stop :: "platform \<Rightarrow> nat \<Rightarrow> string list \<Rightarrow> init_st \<Rightarrow> result" where
  "do_stop P nargs args st =
     do {
       a1 \<leftarrow> argv args 1;
       Some (0, case service_find_by_name a1 st of Some i \<Rightarrow> service_stop P i st | None \<Rightarrow> st)
     }"

definition do_restart :: "platform \<Rightarrow> nat \<Rightarrow> string list \<Rightarrow> init_st \<Rightarrow> result" where
  "do_restart P nargs args st =
     do {
       a1 \<leftarrow> argv args 1;
       Some (0, case service_find_by_name a1 st of Some i \<Rightarrow> service_restart P i st | None \<Rightarrow> st)
     }"

definition do_trigger :: "platform \<Rightarrow> nat \<Rightarrow> string list \<Rightarrow> init_st \<Rightarrow> result" where
  "do_trigger P nargs args st =
     do { a1 \<leftarrow> argv args 1; Some (0, action_for_each_trigger a1 action_add_queue_tail st) }"

subsection \<open>Files\<close>

definition do_symlink :: "platform \<Rightarrow> nat \<Rightarrow> string list \<Rightarrow> init_st \<Rightarrow> result" where
  "do_symlink P nargs args st =
     do {
       a1 \<leftarrow> argv args 1;
       a2 \<leftarrow> argv args 2;
       let (r, st) = sys P (Sys_symlink a1 a2) st;
       Some (an_ret r, st)
     }"

definition do_rm :: "platform \<Rightarrow> nat \<Rightarrow> string list \<Rightarrow> init_st \<Rightarrow> result" where
  "do_rm P nargs args st =
     do { a1 \<leftarrow> argv args 1; let (r, st) = sys P (Sys_unlink a1) st; Some (an_ret r, st) }"

definition do_rmdir :: "platform \<Rightarrow> nat \<Rightarrow> string list \<Rightarrow> init_st \<Rightarrow> result" where
  "do_rmdir P nargs args st =
     do { a1 \<leftarrow> argv args 1; let (r, st) = sys P (Sys_rmdir a1) st; Some (an_ret r, st) }"

definition do_sysclktz :: "platform \<Rightarrow> nat \<Rightarrow> string list \<Rightarrow> init_st \<Rightarrow> result" where
  "do_sysclktz P nargs args st =
     (if nargs \<noteq> 2 then Some (- 1, st)
      else do {
        a1 \<leftarrow> argv args 1;
        let (r, st) = sys P (Sys_settimeofday (atoi a1)) st;
        Some (if an_ret r \<noteq> 0 then - 1 else 0, st)
      })"

definition do_write :: "platform \<Rightarrow> nat \<Rightarrow> string list \<Rightarrow> init_st \<Rightarrow> result" where
  "do_write P nargs args st =
     do {
       path \<leftarrow> argv args 1;
       value \<leftarrow> argv args 2;
       (ret, buf) \<leftarrow> expand_props P st (fresh_buf P (PROP_VALUE_MAX P)) value;
       if ret \<noteq> 0 then Some (- EINVAL, st) else write_file P path (cstr_at buf 0) st
     }"

text \<open>
  The two loops of \<open>do_copy\<close>.  The inner value is \<open>None\<close> for the jump to \<open>out_err\<close>; a kernel that
  transfers more than it was asked to makes the whole result \<open>None\<close>.
\<close>

function copy_read :: "platform \<Rightarrow> int \<Rightarrow> nat \<Rightarrow> string \<Rightarrow> init_st \<Rightarrow> (string option \<times> init_st) option" where
  "copy_read P fd brtr buffer st =
     (if brtr = 0 then Some (Some buffer, st)
      else
        let (r, st) = sys P (Sys_read fd (int brtr)) st; rc = an_ret r in
        if rc < 0 then Some (None, st)
        else if rc = 0 then Some (Some buffer, st)
        else if int brtr < rc then None
        else copy_read P fd (brtr - nat rc) (buffer @ got r) st)"
  by pat_completeness auto
termination
  by (relation "measure (\<lambda>(P, fd, brtr, buffer, st). brtr)") auto

declare copy_read.simps [simp del]

function copy_write :: "platform \<Rightarrow> int \<Rightarrow> string \<Rightarrow> init_st \<Rightarrow> (bool \<times> init_st) option" where
  "copy_write P fd p st =
     (if p = [] then Some (True, st)
      else
        let (w, st) = sys P (Sys_write fd p) st; rc = an_ret w in
        if rc < 0 then Some (False, st)
        else if rc = 0 then Some (True, st)
        else if int (length p) < rc then None
        else copy_write P fd (drop (nat rc) p) st)"
  by pat_completeness auto
termination
  by (relation "measure (\<lambda>(P, fd, p, st). length p)") auto

declare copy_write.simps [simp del]

definition close_if_open :: "platform \<Rightarrow> int \<Rightarrow> init_st \<Rightarrow> init_st" where
  "close_if_open P fd st = (if 0 \<le> fd then perform P (Sys_close fd) st else st)"

definition do_copy :: "platform \<Rightarrow> nat \<Rightarrow> string list \<Rightarrow> init_st \<Rightarrow> result" where
  "do_copy P nargs args st =
     (if nargs \<noteq> 3 then Some (- 1, st)
      else do {
        a1 \<leftarrow> argv args 1;
        a2 \<leftarrow> argv args 2;
        let (s, st) = sys P (Sys_stat a1) st;
        if an_ret s < 0 then Some (- 1, st)
        else
          let (f1, st) = sys P (Sys_open a1 [O_RDONLY] 0) st; fd1 = an_ret f1 in
          if fd1 < 0 then Some (- 1, st)
          else
            let (f2, st) = sys P (Sys_open a2 [O_WRONLY, O_CREAT, O_TRUNC] 0x1B0) st; fd2 = an_ret f2;
                out = (\<lambda>rc st. (rc :: int, close_if_open P fd2 (close_if_open P fd1 st)));
                st_size = nat (an_size s) in
            if fd2 < 0 then Some (out (- 1) st)
            else do {
              (buffer, st) \<leftarrow> copy_read P fd1 st_size [] st;
              case buffer of
                None \<Rightarrow> Some (out (- 1) st)
              | Some buffer \<Rightarrow> do {
                  (ok, st) \<leftarrow> copy_write P fd2 (take st_size (buffer @ uninit P @ replicate st_size NUL)) st;
                  Some (out (if ok then 0 else - 1) st)
                }
            }
      })"

definition do_chown :: "platform \<Rightarrow> nat \<Rightarrow> string list \<Rightarrow> init_st \<Rightarrow> result" where
  "do_chown P nargs args st =
     (if nargs = 3 then do {
        a1 \<leftarrow> argv args 1;
        a2 \<leftarrow> argv args 2;
        let ((ret, errno), st) = chown_path P a2 (decode_uid P a1) (- 1) st;
        Some (if ret < 0 then - errno else 0, st)
      }
      else if nargs = 4 then do {
        a1 \<leftarrow> argv args 1;
        a2 \<leftarrow> argv args 2;
        a3 \<leftarrow> argv args 3;
        let ((ret, errno), st) = chown_path P a3 (decode_uid P a1) (decode_uid P a2) st;
        Some (if ret < 0 then - errno else 0, st)
      }
      else Some (- 1, st))"

fun mode_loop :: "32 word \<Rightarrow> string \<Rightarrow> 32 word" where
  "mode_loop mode [] = mode"
| "mode_loop mode (c # s) =
     (case digit_val c of
        Some d \<Rightarrow> if d < 8 then mode_loop (push_bit 3 mode OR of_nat d) s else - 1
      | None \<Rightarrow> - 1)"

definition get_mode :: "string \<Rightarrow> 32 word" where
  "get_mode s = mode_loop 0 s"

definition do_chmod :: "platform \<Rightarrow> nat \<Rightarrow> string list \<Rightarrow> init_st \<Rightarrow> result" where
  "do_chmod P nargs args st =
     do {
       a1 \<leftarrow> argv args 1;
       a2 \<leftarrow> argv args 2;
       let ((ret, errno), st) = chmod_path P a2 (get_mode a1) st;
       Some (if ret < 0 then - errno else 0, st)
     }"

definition do_loglevel :: "platform \<Rightarrow> nat \<Rightarrow> string list \<Rightarrow> init_st \<Rightarrow> result" where
  "do_loglevel P nargs args st =
     (if nargs = 2 then do { a1 \<leftarrow> argv args 1; Some (0, perform P (Sys_klog_set_level (atoi a1)) st) }
      else Some (- 1, st))"

definition do_load_persist_props :: "platform \<Rightarrow> nat \<Rightarrow> string list \<Rightarrow> init_st \<Rightarrow> result" where
  "do_load_persist_props P nargs args st =
     (if nargs = 1 then map_option (Pair 0) (load_persist_props P st) else Some (- 1, st))"

definition do_wait :: "platform \<Rightarrow> nat \<Rightarrow> string list \<Rightarrow> init_st \<Rightarrow> result" where
  "do_wait P nargs args st =
     (if nargs = 2 then do { a1 \<leftarrow> argv args 1; wait_for_file P a1 COMMAND_RETRY_TIMEOUT st }
      else Some (- 1, st))"

subsection \<open>The call through the function pointer\<close>

definition do_func :: "builtin \<Rightarrow> (platform \<Rightarrow> nat \<Rightarrow> string list \<Rightarrow> init_st \<Rightarrow> result) option" where
  "do_func f = (case f of
      F_do_chdir \<Rightarrow> Some do_chdir | F_do_chroot \<Rightarrow> Some do_chroot | F_do_class_start \<Rightarrow> Some do_class_start
    | F_do_class_stop \<Rightarrow> Some do_class_stop | F_do_class_reset \<Rightarrow> Some do_class_reset
    | F_do_domainname \<Rightarrow> Some do_domainname | F_do_export \<Rightarrow> Some do_export | F_do_export_rc \<Rightarrow> Some do_export_rc
    | F_do_hostname \<Rightarrow> Some do_hostname | F_do_ifup \<Rightarrow> Some do_ifup | F_do_insmod \<Rightarrow> Some do_insmod
    | F_do_log \<Rightarrow> Some do_log | F_do_mkdir \<Rightarrow> Some do_mkdir | F_do_mount_all \<Rightarrow> Some do_mount_all
    | F_do_mount \<Rightarrow> Some do_mount | F_do_restart \<Rightarrow> Some do_restart | F_do_restorecon \<Rightarrow> Some do_restorecon
    | F_do_rm \<Rightarrow> Some do_rm | F_do_rmdir \<Rightarrow> Some do_rmdir | F_do_setcon \<Rightarrow> Some do_setcon
    | F_do_setenforce \<Rightarrow> Some do_setenforce | F_do_setkey \<Rightarrow> Some do_setkey | F_do_setprop \<Rightarrow> Some do_setprop
    | F_do_setrlimit \<Rightarrow> Some do_setrlimit | F_do_setsebool \<Rightarrow> Some do_setsebool | F_do_start \<Rightarrow> Some do_start
    | F_do_stop \<Rightarrow> Some do_stop | F_do_trigger \<Rightarrow> Some do_trigger | F_do_symlink \<Rightarrow> Some do_symlink
    | F_do_sysclktz \<Rightarrow> Some do_sysclktz | F_do_wait \<Rightarrow> Some do_wait | F_do_write \<Rightarrow> Some do_write
    | F_do_copy \<Rightarrow> Some do_copy | F_do_chown \<Rightarrow> Some do_chown | F_do_chmod \<Rightarrow> Some do_chmod
    | F_do_loglevel \<Rightarrow> Some do_loglevel | F_do_load_persist_props \<Rightarrow> Some do_load_persist_props
    | _ \<Rightarrow> None)"

definition run_builtin ::
  "platform \<Rightarrow> builtin \<Rightarrow> nat \<Rightarrow> string list \<Rightarrow> init_st \<Rightarrow> (int \<times> string list \<times> init_st) option" where
  "run_builtin P f nargs args st =
     (if f = F_do_exec then do_exec P nargs args st
      else do {
        func \<leftarrow> do_func f;
        (ret, st) \<leftarrow> func P nargs args st;
        Some (ret, args, st)
      })"

subsection \<open>The commands keep the invariant\<close>

lemma traced_write_retry:
  assumes "write_retry P fd v st = Some y"
  shows "traced st (snd y)"
proof (rule write_retry.raw_induct [where Pa = "\<lambda>x y. traced (snd x) (snd y)", OF _ assms, unfolded snd_conv], goal_cases)
  case (1 loop P fd v st y)
  from 1(2) show ?case
    by (cases y) (auto simp: run_simps split: if_splits dest!: 1(1) intro: traced_trans [OF traced_perform])
qed

lemma traced_write_file: "write_file P path v st = Some (r, st') \<Longrightarrow> traced st st'"
  by (auto simp: write_file_def run_simps bind_eq_Some_conv split: if_splits
           dest!: traced_write_retry intro: traced_trans [OF traced_trans [OF traced_perform]] traced_perform)

lemma traced_paths [traced_intros]:
  "traced st s \<Longrightarrow> traced st (snd (chown_path P path u g s))" "traced st s \<Longrightarrow> traced st (snd (chmod_path P path m s))"
  by (simp_all add: chown_path_def chmod_path_def run_simps traced_step)

lemma traced_insmod: "traced st (snd (insmod P f opts st))"
  using traced_read_file [of st P f]
  by (auto simp: insmod_def run_simps traced_step split: prod.splits option.splits)

lemma traced_devices:
  "traced st (snd (setkey P a b c st))" "traced st (snd (ifupdown P name up st))"
  by (simp_all add: setkey_def ifupdown_def run_simps traced_step)

lemma traced_loop_mount:
  assumes "loop_mount P mode fd target system flags options n st = Some y"
  shows "traced st (snd y)"
proof (rule loop_mount.raw_induct [where Pa = "\<lambda>x y. traced (snd x) (snd y)", OF _ assms, unfolded snd_conv], goal_cases)
  case (1 loop P mode fd target system flags options n st y)
  note t = traced_trans [OF traced_step [OF traced_step [OF traced_perform]]]
    traced_trans [OF traced_step [OF traced_step [OF traced_step [OF traced_perform]]]]
  from 1(2) show ?case
    by (cases y) (auto simp: run_simps traced_step split: if_splits dest!: 1(1) intro: t)
qed

lemma traced_mount_waited: "mount_waited P w s t f fl opts st = Some (r, st') \<Longrightarrow> traced st st'"
  by (auto simp: mount_waited_def run_simps bind_eq_Some_conv split: if_splits
           intro: traced_perform dest!: traced_wait_for_file intro: traced_step)

lemma traced_copy_read: "copy_read P fd n buf st = Some (b, st') \<Longrightarrow> traced st st'"
proof (induction n arbitrary: buf st rule: less_induct)
  case (less n)
  then show ?case
    by (auto simp: copy_read.simps [of P fd n] run_simps split: if_splits
             dest!: less.IH [rotated] intro: traced_trans [OF traced_perform])
qed

lemma traced_copy_write: "copy_write P fd p st = Some (b, st') \<Longrightarrow> traced st st'"
proof (induction "length p" arbitrary: p st rule: less_induct)
  case less
  then show ?case
    by (auto simp: copy_write.simps [of P fd p] run_simps split: if_splits
             dest!: less.hyps [rotated] intro: traced_trans [OF traced_perform])
qed

lemma traced_wait_child:
  assumes "wait_child P pid st = Some y"
  shows "traced st y"
proof (rule wait_child.raw_induct [where Pa = "\<lambda>x y. traced (snd x) y", OF _ assms, unfolded snd_conv], goal_cases)
  case (1 loop P pid st y)
  from 1(2) show ?case
    by (auto simp: run_simps split: if_splits dest!: 1(1) intro: traced_trans [OF traced_perform])
qed

lemma child_exec_child: "child_frame s s' \<Longrightarrow> child_frame s (exec_child P par s')"
  by (simp add: exec_child_def get_property_workspace_def run_simps child_perform)

lemma child_mount_all: "child_frame s s' \<Longrightarrow> child_frame s (snd (mount_all_child P f s'))"
  by (simp add: mount_all_child_def run_simps child_perform)

text \<open>A command that returns leaves a state that satisfies the invariant.\<close>

definition cmd_keeps :: "(platform \<Rightarrow> nat \<Rightarrow> string list \<Rightarrow> init_st \<Rightarrow> result) \<Rightarrow> bool" where
  "cmd_keeps f \<longleftrightarrow> (\<forall>P nargs args st s r s'. f P nargs args s = Some (r, s') \<longrightarrow> step_ok P st s \<longrightarrow> step_ok P st s')"

lemma cmd_keepsI:
  "(\<And>P nargs args st s r s'. f P nargs args s = Some (r, s') \<Longrightarrow> step_ok P st s \<Longrightarrow> step_ok P st s') \<Longrightarrow> cmd_keeps f"
  by (auto simp: cmd_keeps_def)

lemma cmd_keeps_traced: "(\<And>P nargs args s r s'. f P nargs args s = Some (r, s') \<Longrightarrow> traced s s') \<Longrightarrow> cmd_keeps f"
  by (rule cmd_keepsI) (blast intro: step_traced)

named_theorems keeps_cmd "commands that keep the invariant"

lemma keeps_simple [keeps_cmd]:
  "cmd_keeps do_chdir" "cmd_keeps do_chroot" "cmd_keeps do_setcon" "cmd_keeps do_setenforce"
  "cmd_keeps do_restorecon" "cmd_keeps do_setsebool" "cmd_keeps do_setrlimit" "cmd_keeps do_symlink"
  "cmd_keeps do_rm" "cmd_keeps do_rmdir" "cmd_keeps do_sysclktz" "cmd_keeps do_loglevel"
  by (rule cmd_keeps_traced; auto simp: do_chdir_def do_chroot_def do_setcon_def do_setenforce_def
      do_restorecon_def do_setsebool_def do_setrlimit_def do_symlink_def do_rm_def do_rmdir_def
      do_sysclktz_def do_loglevel_def run_simps bind_eq_Some_conv split: if_splits)+

lemma traced_resultD: "traced st (snd x) \<Longrightarrow> x = (r, s') \<Longrightarrow> traced st s'"
  by simp

lemmas traced_results = traced_write_file traced_wait_for_file
  traced_devices [THEN traced_resultD] traced_insmod [THEN traced_resultD]

lemma keeps_files [keeps_cmd]:
  "cmd_keeps do_domainname" "cmd_keeps do_hostname" "cmd_keeps do_write" "cmd_keeps do_wait"
  "cmd_keeps do_setkey" "cmd_keeps do_ifup" "cmd_keeps do_insmod"
  by (rule cmd_keeps_traced; auto simp: do_domainname_def do_hostname_def do_write_def do_wait_def
      do_setkey_def do_ifup_def do_insmod_def do_insmod_inner_def Let_def bind_eq_Some_conv
      split: if_splits prod.splits
      dest: traced_results)+

lemma keeps_modes [keeps_cmd]: "cmd_keeps do_chown" "cmd_keeps do_chmod" "cmd_keeps do_mkdir"
  by (rule cmd_keeps_traced; auto simp: do_chown_def do_chmod_def do_mkdir_def run_simps split_beta bind_eq_Some_conv
      split: if_splits intro!: traced_paths)+

lemma keeps_copy [keeps_cmd]: "cmd_keeps do_copy"
  by (rule cmd_keeps_traced)
     (auto simp: do_copy_def run_simps close_if_open_def bind_eq_Some_conv split: if_splits option.splits
       dest!: traced_copy_read traced_copy_write
       intro!: traced_step intro: traced_trans [OF traced_trans [OF traced_step [OF traced_step [OF traced_perform]]]]
         traced_trans [OF traced_step [OF traced_step [OF traced_perform]]])

lemma step_found:
  "step_ok P st s \<Longrightarrow> (\<And>i. i < length (service_list s) \<Longrightarrow> step_ok P st (f i)) \<Longrightarrow>
   step_ok P st (case service_find_by_name name s of None \<Rightarrow> s | Some i \<Rightarrow> f i)"
  using found_by_name by (cases "service_find_by_name name s") auto

lemma keeps_services [keeps_cmd]:
  "cmd_keeps do_class_start" "cmd_keeps do_class_stop" "cmd_keeps do_class_reset"
  "cmd_keeps do_start" "cmd_keeps do_stop" "cmd_keeps do_restart"
  by (rule cmd_keepsI; auto simp: do_class_start_def do_class_stop_def do_class_reset_def do_start_def
      do_stop_def do_restart_def service_for_each_class_def service_start_if_not_disabled_def bind_eq_Some_conv
      intro!: step_found step_intros)+

lemma step_select [step_intros]:
  assumes "step_ok P st s"
  shows "step_ok P st (fold action_add_queue_tail (select_actions p s) s)"
proof (rule step_ok_trans [OF assms])
  let ?s = "fold action_add_queue_tail (select_actions p s) s"
  have "pmap ?s = pmap s" "service_list ?s = service_list s" by (simp_all add: fold_add_eq pmap_def)
  moreover have "area_inv P ?s = area_inv P s" by (rule area_inv_same) (simp_all add: fold_add_eq)
  moreover have "cur_ok ?s = cur_ok s" by (rule cur_ok_same) (simp_all add: fold_add_eq)
  ultimately show "step_ok P s ?s"
    by (simp add: step_ok_def init_inv_def ro_kept_def queue_ok_select)
qed

lemma step_trigger [step_intros]:
  "step_ok P st s \<Longrightarrow> step_ok P st (action_for_each_trigger t action_add_queue_tail s)"
  unfolding action_for_each_trigger_queue by (rule step_select)

lemma step_environment [step_intros]: "step_ok P st s \<Longrightarrow> step_ok P st (snd (add_environment k v s))"
  by (erule step_child) (rule child_environment [OF child_refl])

lemma step_export_token: "step_ok P st (snd (snd x)) \<Longrightarrow> step_ok P st (snd (snd (export_token tok txt x)))"
  by (cases x; cases tok) (auto split: export_rc_state_t.splits intro: step_environment)

lemma step_export_loop:
  assumes "export_loop ps x = Some y" "step_ok P st (snd (snd x))"
  shows "step_ok P st y"
proof -
  have "step_ok P st (snd (snd x)) \<longrightarrow> step_ok P st y"
  proof (rule export_loop.raw_induct [where P = "\<lambda>ps x y. step_ok P st (snd (snd x)) \<longrightarrow> step_ok P st y" and xa = "(ps, x)", unfolded case_prod_conv, OF _ assms(1)], goal_cases)
    case (1 loop ps x y)
    from 1(2) show ?case
      by (simp split: option.splits if_splits prod.splits) (metis 1(1) step_export_token)
  qed
  with assms(2) show ?thesis by simp
qed

lemma keeps_environment [keeps_cmd]: "cmd_keeps do_export" "cmd_keeps do_export_rc"
proof -
  show "cmd_keeps do_export"
    by (rule cmd_keepsI) (auto simp: do_export_def bind_eq_Some_conv intro: step_environment)
  show "cmd_keeps do_export_rc"
  proof (rule cmd_keepsI)
    fix P nargs args st s r s'
    assume "do_export_rc P nargs args s = Some (r, s')" "step_ok P st s"
    then obtain a where a: "init_export_rc_file P a s = Some (r, s')" "step_ok P st s"
      by (auto simp: do_export_rc_def bind_eq_Some_conv)
    obtain res s1 where rf: "read_file P a s = (res, s1)" by (cases "read_file P a s")
    with a(2) have s1: "step_ok P st s1" by (metis step_traced traced_read_file snd_conv)
    with a(1) rf show "step_ok P st s'"
      by (cases res) (auto simp: init_export_rc_file_def Let_def bind_eq_Some_conv dest!: step_export_loop [where P = P and st = st])
  qed
qed

lemma keeps_properties [keeps_cmd]: "cmd_keeps do_trigger" "cmd_keeps do_setprop" "cmd_keeps do_load_persist_props"
  by (rule cmd_keepsI; auto simp: do_trigger_def do_setprop_def do_load_persist_props_def bind_eq_Some_conv
      split: if_splits prod.splits intro: step_trigger step_set load.after_load_persist_props)+

lemma mtd_loop_frame:
  "service_list (mtd_loop n b s) = service_list s \<and> action_list (mtd_loop n b s) = action_list s \<and>
   action_queue (mtd_loop n b s) = action_queue s \<and> queue_corrupt (mtd_loop n b s) = queue_corrupt s \<and>
   props (mtd_loop n b s) = props s \<and> pa_toc (mtd_loop n b s) = pa_toc s \<and> pa_mapped (mtd_loop n b s) = pa_mapped s \<and>
   cur_action (mtd_loop n b s) = cur_action s \<and> cur_command (mtd_loop n b s) = cur_command s"
proof (induction n b s rule: mtd_loop.induct)
  case (1 n b s)
  then show ?case
    by (subst (1 2 3 4 5 6 7 8 9) mtd_loop.simps) (auto simp: Let_def add_mtd_def split: option.split prod.split)
qed

lemma step_mtd: "step_ok P st s \<Longrightarrow> step_ok P st (snd (mtd_name_to_number P name s))"
proof -
  have l: "step_ok P st s \<Longrightarrow> step_ok P st (mtd_loop n b s)" for n b s
    by (erule step_same) (simp_all add: mtd_loop_frame)
  have z: "step_ok P st s \<Longrightarrow> step_ok P st (s\<lparr>mtd_part_count := 0, mtd_part_map := []\<rparr>)" for s
    by (erule step_same) simp_all
  have f: "step_ok P st s \<Longrightarrow> step_ok P st (find_mtd_partitions P s)" for s
    by (simp add: find_mtd_partitions_def run_simps l step_perform)
  show "step_ok P st s \<Longrightarrow> step_ok P st (snd (mtd_name_to_number P name s))"
    by (simp add: mtd_name_to_number_def Let_def f z split: option.split prod.split)
qed

lemma keeps_mount [keeps_cmd]: "cmd_keeps do_mount"
proof (rule cmd_keepsI)
  fix P nargs args st s r s'
  assume "do_mount P nargs args s = Some (r, s')" "step_ok P st s"
  then show "step_ok P st s'"
    by (auto simp: do_mount_def run_simps split_beta bind_eq_Some_conv split: if_splits
        dest!: traced_mount_waited traced_loop_mount intro: step_traced step_traced [OF step_perform]
         step_traced [OF step_mtd] step_mtd step_perform)
qed

lemma step_mount_all_result: "step_ok P st s \<Longrightarrow> step_ok P st (mount_all_result P ret s)"
  by (simp add: mount_all_result_def step_set step_trigger)

lemma keeps_mount_all [keeps_cmd]: "cmd_keeps do_mount_all"
proof (rule cmd_keepsI)
  fix P nargs args st s r s'
  assume "do_mount_all P nargs args s = Some (r, s')" and s: "step_ok P st s"
  then show "step_ok P st s'"
    using step_child [OF step_perform [OF s] child_mount_all [OF child_refl]]
    by (auto simp: do_mount_all_def run_simps split_beta bind_eq_Some_conv split: if_splits
        intro!: step_mount_all_result step_intros)
qed

lemma expand_arg_writable: "expand_arg P st (a, w) = Some (a', w') \<Longrightarrow> w' = w"
  by (auto simp: expand_arg_def Let_def bind_eq_Some_conv split: if_splits)

lemma expand_args_flags: "expand_args P st as = Some bs \<Longrightarrow> map snd bs = map snd as"
proof (induction as arbitrary: bs)
  case (Cons x as)
  then show ?case using expand_arg_writable [of P st "fst x" "snd x"] by (auto simp: bind_eq_Some_conv)
qed simp

lemma expand_args_length: "expand_args P st as = Some bs \<Longrightarrow> length bs = length as"
  by (metis expand_args_flags length_map)

lemma step_exec_mem:
  assumes "do_exec_mem P nargs args s = Some (r, args', s')" "step_ok P st s"
  shows "step_ok P st s' \<and> length args' = length args"
proof (cases "MAX_PARAMETERS < nargs")
  case False
  obtain as where as: "expand_args P s (take (nargs - 1) (drop 1 args)) = Some as" and len: "nargs \<le> length args"
    using False assms(1) by (auto simp: do_exec_mem_def bind_eq_Some_conv split: if_splits)
  have l: "length (take 1 args @ as @ drop (1 + length as) args) = length args"
    using expand_args_length [OF as] len by simp
  have s1: "step_ok P st (perform P Sys_fork s)" using assms(2) by (rule step_perform)
  have "args' = take 1 args @ as @ drop (1 + length as) args \<and> step_ok P st s'"
    using assms(1) False len step_child [OF s1 child_exec_child [OF child_refl]]
    unfolding do_exec_mem_def as bind.bind_lunit run_simps
    by (auto simp: bind_eq_Some_conv split: if_splits dest!: traced_wait_child
        intro: step_exited step_traced [OF step_children [OF s1]] step_traced [OF s1])
  with l show ?thesis by simp
qed (use assms in \<open>auto simp: do_exec_mem_def\<close>)

lemma keeps_log [keeps_cmd]: "cmd_keeps do_log"
  by (rule cmd_keepsI) (auto simp: do_log_def Let_def split: if_splits dest: step_exec_mem)

lemma do_func_keeps: "do_func f = Some g \<Longrightarrow> cmd_keeps g"
  by (cases f) (simp_all add: do_func_def keeps_cmd)

lemma step_run_builtin:
  assumes "run_builtin P f nargs args s = Some (r, args', s')" "step_ok P st s"
  shows "step_ok P st s' \<and> length args' = length args"
proof (cases "f = F_do_exec")
  case True
  with assms show ?thesis by (fastforce simp: run_builtin_def do_exec_def dest!: step_exec_mem)
next
  case False
  with assms obtain g where "do_func f = Some g" "g P nargs args s = Some (r, s')" "args' = args"
    by (auto simp: run_builtin_def bind_eq_Some_conv)
  with do_func_keeps assms(2) show ?thesis unfolding cmd_keeps_def by blast
qed

subsection \<open>Commands read the arguments they have\<close>

lemma argv_append: "i < length args \<Longrightarrow> argv (args @ extra) i = argv args i"
  by (simp add: argv_def nth_append)

lemma take_drop_append: "k + n \<le> length args \<Longrightarrow> take n (drop k (args @ extra)) = take n (drop k args)"
  by simp

text \<open>Called with at least \<open>m\<close> arguments, the command reads only arguments that the line has.\<close>

definition reads_args :: "nat \<Rightarrow> (platform \<Rightarrow> nat \<Rightarrow> string list \<Rightarrow> init_st \<Rightarrow> result) \<Rightarrow> bool" where
  "reads_args m f \<longleftrightarrow> (\<forall>P args extra st. m \<le> length args \<longrightarrow>
     f P (length args) (args @ extra) st = f P (length args) args st)"

named_theorems reads_cmd "commands that read only their arguments"

lemma reads_one [reads_cmd]:
  "reads_args (kw_nargs K_chdir) do_chdir" "reads_args (kw_nargs K_chroot) do_chroot" "reads_args (kw_nargs K_class_start) do_class_start" "reads_args (kw_nargs K_class_stop) do_class_stop"
  "reads_args (kw_nargs K_class_reset) do_class_reset" "reads_args (kw_nargs K_domainname) do_domainname" "reads_args (kw_nargs K_export_rc) do_export_rc" "reads_args (kw_nargs K_hostname) do_hostname"
  "reads_args (kw_nargs K_ifup) do_ifup" "reads_args (kw_nargs K_restart) do_restart" "reads_args (kw_nargs K_rm) do_rm" "reads_args (kw_nargs K_rmdir) do_rmdir"
  "reads_args (kw_nargs K_start) do_start" "reads_args (kw_nargs K_stop) do_stop" "reads_args (kw_nargs K_trigger) do_trigger" "reads_args (kw_nargs K_sysclktz) do_sysclktz"
  "reads_args (kw_nargs K_wait) do_wait" "reads_args (kw_nargs K_loglevel) do_loglevel" "reads_args (kw_nargs K_mount_all) do_mount_all"
  by (auto simp: reads_args_def kw_nargs_def argv_append do_chdir_def do_chroot_def do_class_start_def do_class_stop_def
      do_class_reset_def do_domainname_def do_export_rc_def do_hostname_def do_ifup_def do_restart_def
      do_rm_def do_rmdir_def do_start_def do_stop_def do_trigger_def do_sysclktz_def do_wait_def
      do_loglevel_def do_mount_all_def)

lemma reads_none [reads_cmd]:
  "reads_args (kw_nargs K_setcon) do_setcon" "reads_args (kw_nargs K_setenforce) do_setenforce" "reads_args (kw_nargs K_restorecon) do_restorecon" "reads_args (kw_nargs K_setsebool) do_setsebool"
  "reads_args (kw_nargs K_load_persist_props) do_load_persist_props"
  by (auto simp: reads_args_def kw_nargs_def do_setcon_def do_setenforce_def do_restorecon_def do_setsebool_def
      do_load_persist_props_def)

lemma reads_more [reads_cmd]:
  "reads_args (kw_nargs K_export) do_export" "reads_args (kw_nargs K_setprop) do_setprop" "reads_args (kw_nargs K_setrlimit) do_setrlimit" "reads_args (kw_nargs K_write) do_write"
  "reads_args (kw_nargs K_copy) do_copy" "reads_args (kw_nargs K_chown) do_chown" "reads_args (kw_nargs K_chmod) do_chmod"
  by (auto simp: reads_args_def kw_nargs_def argv_append do_export_def do_setprop_def do_setrlimit_def do_write_def
      do_copy_def do_chown_def do_chmod_def)

lemma reads_lists [reads_cmd]:
  "reads_args (kw_nargs K_insmod) do_insmod" "reads_args (kw_nargs K_log) do_log" "reads_args (kw_nargs K_mkdir) do_mkdir" "reads_args (kw_nargs K_mount) do_mount"
proof -
  show "reads_args (kw_nargs K_insmod) do_insmod"
    by (auto simp: reads_args_def kw_nargs_def argv_append do_insmod_def do_insmod_inner_def)
  show "reads_args (kw_nargs K_log) do_log"
    by (auto simp: reads_args_def kw_nargs_def argv_append do_log_def)
  show "reads_args (kw_nargs K_mkdir) do_mkdir"
    by (auto simp: reads_args_def kw_nargs_def argv_append do_mkdir_def cong: if_cong)
  show "reads_args (kw_nargs K_mount) do_mount"
    by (auto simp: reads_args_def kw_nargs_def argv_append do_mount_def)
qed

lemma exec_args:
  assumes "0 < nargs" "nargs \<le> length args"
  shows "do_exec_mem P nargs (args @ extra) st =
    map_option (\<lambda>(r, as, st'). (r, as @ extra, st')) (do_exec_mem P nargs args st)"
proof -
  have e: "take (nargs - 1) (drop 1 (args @ extra)) = take (nargs - 1) (drop 1 args)"
    by (rule take_drop_append) (use assms in simp)
  show ?thesis
  proof (cases "expand_args P st (take (nargs - 1) (drop 1 args))")
    case None
    then show ?thesis using assms unfolding do_exec_mem_def e by simp
  next
    case (Some as)
    then have a: "take 1 (args @ extra) @ as @ drop (1 + length as) (args @ extra) =
        (take 1 args @ as @ drop (1 + length as) args) @ extra"
      using assms expand_args_length [OF Some] by simp
    show ?thesis
      using assms unfolding do_exec_mem_def e Some bind.bind_lunit Let_def a
      by (simp add: split_beta map_option_bind o_def)
  qed
qed

lemma reads_late: "reads_args 4 do_setkey" "reads_args 3 do_symlink"
  by (auto simp: reads_args_def argv_append do_setkey_def do_symlink_def)

text \<open>The two commands whose entry in the table asks for fewer arguments than the function reads.\<close>

definition too_few :: "builtin \<Rightarrow> nat \<Rightarrow> bool" where
  "too_few f n \<longleftrightarrow> f = F_do_setkey \<and> n < 4 \<or> f = F_do_symlink \<and> n < 3"

lemma do_func_reads:
  assumes "kw_func kw = Some f" "do_func f = Some g" "kw_nargs kw \<le> length args" "\<not> too_few f (length args)"
  shows "g P (length args) (args @ extra) st = g P (length args) args st"
proof (cases "f \<in> {F_do_setkey, F_do_symlink}")
  case True
  then show ?thesis using assms reads_late by (auto simp: reads_args_def too_few_def do_func_def)
next
  case False
  have "reads_args (kw_nargs kw) g"
    using assms(1,2) False by (cases kw) (auto simp: kw_func_def do_func_def reads_cmd)
  with assms(3) show ?thesis by (simp add: reads_args_def)
qed

lemma too_few_undefined: "too_few f (length args) \<Longrightarrow> run_builtin P f n args st = None"
  by (auto simp: too_few_def run_builtin_def do_func_def do_setkey_def do_symlink_def argv_def)

text \<open>
  C29.  A command that the parser accepts reads no argument behind those of its line: whatever lies
  behind the argument array, the command runs in the same way and leaves it alone.  The two exceptions
  are \<open>setkey\<close> and \<open>symlink\<close>, whose entries in the keyword table ask for fewer arguments than the
  functions read: with fewer than three and two their behaviour is undefined.
\<close>

theorem commands_read_own_arguments:
  assumes "cmd_ok c"
  shows "if too_few (cmd_func c) (cmd_nargs c)
    then run_builtin P (cmd_func c) (cmd_nargs c) (cmd_args c) st = None
    else run_builtin P (cmd_func c) (cmd_nargs c) (cmd_args c @ extra) st =
      map_option (\<lambda>(r, as, st'). (r, as @ extra, st')) (run_builtin P (cmd_func c) (cmd_nargs c) (cmd_args c) st)"
proof -
  obtain kw where kw: "kw_func kw = Some (cmd_func c)" "kw_nargs kw \<le> length (cmd_args c)"
    and n: "cmd_nargs c = length (cmd_args c)"
    using assms by (auto simp: cmd_ok_def)
  have pos: "0 < kw_nargs kw" by (cases kw) (use kw(1) in \<open>simp_all add: kw_nargs_def kw_func_def\<close>)
  show ?thesis
  proof (cases "cmd_func c = F_do_exec")
    case True
    have "0 < cmd_nargs c" using n kw(2) pos by linarith
    from exec_args [OF this, of "map (\<lambda>a. (a, True)) (cmd_args c)" P "map (\<lambda>a. (a, True)) extra" st] True n
    show ?thesis
      by (simp add: run_builtin_def do_exec_def too_few_def map_option.compositionality o_def split_beta)
  next
    case False
    show ?thesis
    proof (cases "too_few (cmd_func c) (cmd_nargs c)")
      case True
      then show ?thesis using n too_few_undefined by simp
    next
      case few: False
      then show ?thesis using False n do_func_reads [OF kw(1) _ kw(2), of _ P extra st]
        by (cases "do_func (cmd_func c)") (simp_all add: run_builtin_def map_option_bind o_def case_prod_unfold)
    qed
  qed
qed

definition symlink_command :: "string list \<Rightarrow> command" where
  "symlink_command args = \<lparr>cmd_func = F_do_symlink, cmd_nargs = length args, cmd_args = args\<rparr>"

lemma symlink_command_ok: "length args \<in> {2, 3} \<Longrightarrow> cmd_ok (symlink_command args)"
  by (auto simp: cmd_ok_def symlink_command_def INIT_PARSER_MAXARGS_def kw_func_def kw_nargs_def
      intro: exI [of _ K_symlink])

theorem commands_read_own_arguments_witness:
  "run_builtin example_platform F_do_symlink 2 [''symlink'', ''/sdcard''] init_st0 = None \<and>
   run_builtin example_platform F_do_symlink 3 ([''symlink'', ''/sdcard'', ''/mnt''] @ [''x'']) init_st0 =
     map_option (\<lambda>(r, as, st'). (r, as @ [''x''], st'))
       (run_builtin example_platform F_do_symlink 3 [''symlink'', ''/sdcard'', ''/mnt''] init_st0)"
  using commands_read_own_arguments [OF symlink_command_ok, of "[''symlink'', ''/sdcard'']" example_platform init_st0]
    commands_read_own_arguments [OF symlink_command_ok, of "[''symlink'', ''/sdcard'', ''/mnt'']" example_platform "init_st0" "[''x'']"]
  by (simp add: symlink_command_def too_few_def eval_nat_numeral)

subsection \<open>Module options\<close>

lemma insmod_options_fit:
  "length options + sum_list (map (\<lambda>a. length a + 1) as) \<le> room \<Longrightarrow>
   insmod_options room options as = Some (options @ concat (map (\<lambda>a. '' '' @ a) as))"
  by (induction as arbitrary: options) (simp_all add: strcat_n_def)

text \<open>
  The buffer that \<open>insmod\<close> collects the module's options in, whose size is computed from the
  arguments, never overflows, and it receives the arguments after the file name, separated by
  single spaces.
\<close>

lemma insmod_options_joined:
  assumes "2 \<le> length args"
  shows "do_insmod P (length args) args st =
    Some (insmod P (args ! 1) (drop 1 (concat (map (\<lambda>a. '' '' @ a) (drop 2 args)))) st)"
proof (cases "2 < length args")
  case True
  then have d: "drop 2 args = args ! 2 # drop 3 args" by (metis Cons_nth_drop_Suc eval_nat_numeral(3))
  show ?thesis using True
    by (simp add: do_insmod_def do_insmod_inner_def argv_def strcat_n_def d insmod_options_fit)
qed (use assms in \<open>simp add: do_insmod_def do_insmod_inner_def argv_def\<close>)

lemma insmod_options_joined_witness:
  "do_insmod example_platform 4 [''insmod'', ''/m.ko'', ''a=1'', ''b''] init_st0 =
   Some (insmod example_platform ''/m.ko'' ''a=1 b'' init_st0)"
  using insmod_options_joined [of "[''insmod'', ''/m.ko'', ''a=1'', ''b'']" example_platform init_st0] by (simp add: eval_nat_numeral)

subsection \<open>Modes of files\<close>

definition octal_value :: "string \<Rightarrow> nat" where
  "octal_value s = foldl (\<lambda>n c. 8 * n + the (digit_val c)) 0 s"

lemma mode_digit: "d < 8 \<Longrightarrow> push_bit 3 (of_nat a) OR of_nat d = (of_nat (8 * a + d) :: 32 word)"
proof -
  assume d: "d < 8"
  have "of_nat d = take_bit 3 (of_nat d :: 32 word)" using d by (simp add: take_bit_of_nat take_bit_nat_eq_self)
  then have "push_bit 3 (of_nat a) AND of_nat d = (0 :: 32 word)" by (auto simp: bit_eq_iff bit_simps)
  then show ?thesis by (simp add: disjunctive_add_eq_or [symmetric] push_bit_eq_mult mult.commute)
qed

lemma mode_loop_octal:
  "mode_loop (of_nat a) s =
   (if list_all (is_digit_in 8) s then of_nat (foldl (\<lambda>n c. 8 * n + the (digit_val c)) a s) else - 1)"
proof (induction s arbitrary: a)
  case (Cons c s)
  show ?case
  proof (cases "is_digit_in 8 c")
    case True
    then obtain d where "digit_val c = Some d" "d < 8" by (auto simp: is_digit_in_def split: option.splits)
    then show ?thesis using True by (simp only: mode_loop.simps option.case if_True mode_digit Cons.IH) simp
  qed (auto simp: is_digit_in_def split: option.splits)
qed simp

text \<open>
  \<open>chmod\<close> on an existing file that is not a symbolic link gives it the mode that the octal
  digits denote, modulo \<open>2 ^ 32\<close>.  A mode with any other character is not refused: the file gets
  the mode \<open>-1\<close>, which has all permission bits and the set-user-id and set-group-id bits.
\<close>

lemma chmod_applies_mode:
  assumes "0 \<le> an_ret (os P (trace st) (Sys_lstat path))" "\<not> S_ISLNK (an_mode (os P (trace st) (Sys_lstat path)))"
  shows "map_option snd (do_chmod P 3 [a0, m, path] st) =
    Some (perform P (Sys_chmod path (if list_all (is_digit_in 8) m then of_nat (octal_value m) else - 1))
      (perform P (Sys_lstat path) st)) \<and> (- 1 :: 32 word) AND 0xFFF = 0xFFF"
  using assms mode_loop_octal [of 0 m]
  by (simp add: do_chmod_def argv_def chmod_path_def get_mode_def octal_value_def run_simps)

lemma chmod_applies_mode_witness:
  "map_option snd (do_chmod example_platform 3 [''chmod'', ''0660'', ''/dev/x''] init_st0) =
     Some (perform example_platform (Sys_chmod ''/dev/x'' 0x1B0) (perform example_platform (Sys_lstat ''/dev/x'') init_st0)) \<and>
   map_option snd (do_chmod example_platform 3 [''chmod'', ''u+x'', ''/dev/x''] init_st0) =
     Some (perform example_platform (Sys_chmod ''/dev/x'' (- 1)) (perform example_platform (Sys_lstat ''/dev/x'') init_st0))"
proof -
  have h: "0 \<le> an_ret (os example_platform (trace init_st0) (Sys_lstat ''/dev/x''))"
    "\<not> S_ISLNK (an_mode (os example_platform (trace init_st0) (Sys_lstat ''/dev/x'')))" by code_simp+
  have "octal_value ''0660'' = 0x1B0" "list_all (is_digit_in 8) ''0660''" "\<not> list_all (is_digit_in 8) ''u+x''"
    by code_simp+
  with chmod_applies_mode [OF h, of "''chmod''" "''0660''"] chmod_applies_mode [OF h, of "''chmod''" "''u+x''"]
  show ?thesis by (simp only: if_True if_False of_nat_numeral)
qed

subsection \<open>The log command\<close>

lemma expand_arg_plain:
  assumes "DOLLAR \<notin> set a" "NUL \<notin> set a" "length a < PROP_VALUE_MAX P"
  shows "expand_arg P st (a, w) = (if w then Some (a, w) else None)"
proof -
  have "spec_expand P st a = Some a" using assms(1) by (simp add: spec_expand.simps split_first_None [THEN iffD2])
  then have "expand_loop P st (fresh_buf P (PROP_VALUE_MAX P)) 0 (int (PROP_VALUE_MAX P) - 1) a =
      Some (0, put_text (fresh_buf P (PROP_VALUE_MAX P)) 0 (a @ [NUL]))"
    by (rule expand_loop_correct) (use assms(3) in simp_all)
  moreover have "takeWhile (\<lambda>c. c \<noteq> NUL) (a @ NUL # drop (length a + 1) b) = a" for b
    using assms(2) by (intro takeWhile_stop) auto
  ultimately show ?thesis
    using assms(3) by (simp add: expand_arg_def expand_props_def put_text_def cstr_at_def)
qed

text \<open>
  The behaviour of the \<open>log\<close> command is undefined, with any arguments up to the limit of
  \<open>do_exec\<close>: it passes string constants as arguments to \<open>do_exec\<close>, which writes their expansion
  over them.
\<close>

lemma log_command_undefined:
  assumes "0 < length args" "length args + 2 \<le> MAX_PARAMETERS" "15 < PROP_VALUE_MAX P"
  shows "do_log P (length args) args st = None"
proof -
  let ?par = "[(''exec'', False), (''/system/bin/log'', False), (''-tinit'', False)] @
    map (\<lambda>a. (log_value P st a, True)) (take (length args - 1) (drop 1 args))"
  have "expand_arg P st (''/system/bin/log'', False) = None"
    using expand_arg_plain [of "''/system/bin/log''" P st False] assms(3) by simp
  then have "expand_args P st (take (length args + 2 - 1) (drop 1 ?par)) = None" by simp
  with assms(1,2) show ?thesis by (simp add: do_log_def Let_def do_exec_mem_def)
qed

lemma log_command_undefined_witness: "do_log example_platform 2 [''log'', ''hello''] init_st0 = None"
proof -
  have "15 < PROP_VALUE_MAX example_platform" by (simp add: example_platform_def)
  then show ?thesis
    using log_command_undefined [of "[''log'', ''hello'']" example_platform init_st0]
    by (simp add: MAX_PARAMETERS_def eval_nat_numeral)
qed

end
