(* ===== verification/Signal.thy ===== *)
theory Signal
  imports Builtins
begin

text \<open>
  \<open>signal_handler.c\<close>: what init does when a child exits.  The handler of \<open>SIGCHLD\<close> only writes a
  byte into a socket, which wakes the main loop; \<open>handle_signal\<close> then reaps children until none is
  left.  A reaped service is disabled, restarted, or, when it is critical and crashes too often,
  the system is rebooted.

  \<open>None\<close> stands for a loop that does not end, and for an undefined or endless command of a
  service's \<open>onrestart\<close> list.  Times are unbounded integers.
\<close>

definition CRITICAL_CRASH_THRESHOLD :: int where "CRITICAL_CRASH_THRESHOLD = 4"
definition CRITICAL_CRASH_WINDOW :: int where "CRITICAL_CRASH_WINDOW = 4 * 60"

partial_function (option) waitpid_retry :: "platform \<Rightarrow> bool \<Rightarrow> init_st \<Rightarrow> (answer \<times> init_st) option" where
  "waitpid_retry P block st =
     (let (w, st) = sys P (Sys_waitpid (- 1) block) st in
      if an_ret w = - 1 \<and> an_errno w = EINTR then waitpid_retry P block st else Some (w, st))"

declare waitpid_retry.simps [code]

text \<open>The commands of the \<open>onrestart\<close> list; \<open>do_exec\<close> may overwrite the arguments of its command.\<close>

definition set_onrestart_args :: "nat \<Rightarrow> string list \<Rightarrow> service \<Rightarrow> service" where
  "set_onrestart_args k args svc =
     svc\<lparr>svc_onrestart := upd_nth k (\<lambda>c. c\<lparr>cmd_args := args\<rparr>) (svc_onrestart svc)\<rparr>"

fun run_onrestart :: "platform \<Rightarrow> nat \<Rightarrow> nat list \<Rightarrow> init_st \<Rightarrow> init_st option" where
  "run_onrestart P i [] st = Some st"
| "run_onrestart P i (k # ks) st =
     do {
       let cmd = svc_onrestart (service_list st ! i) ! k;
       (ret, args, st) \<leftarrow> run_builtin P (cmd_func cmd) (cmd_nargs cmd) (cmd_args cmd) st;
       run_onrestart P i ks (upd_svc i (set_onrestart_args k args) st)
     }"

definition restart_later :: "platform \<Rightarrow> nat \<Rightarrow> init_st \<Rightarrow> init_st option" where
  "restart_later P i st =
     do {
       let st = upd_svc i (\<lambda>s. set_flags SVC_RESTARTING (clear_flags SVC_RESTART s)) st;
       st \<leftarrow> run_onrestart P i [0..<length (svc_onrestart (service_list st ! i))] st;
       Some (notify_service_state P (svc_name (service_list st ! i)) ''restarting'' st)
     }"

text \<open>The service at position \<open>i\<close>, whose process was \<open>pid\<close>, has exited: the bookkeeping, then the decision.\<close>

definition unlink_sockets :: "platform \<Rightarrow> service \<Rightarrow> init_st \<Rightarrow> init_st" where
  "unlink_sockets P svc st =
     fold (\<lambda>si st. perform P (Sys_unlink (clip 128 (ANDROID_SOCKET_DIR P @ ''/'' @ si_name si))) st) (svc_sockets svc) st"

definition after_exit :: "platform \<Rightarrow> nat \<Rightarrow> int \<Rightarrow> init_st \<Rightarrow> init_st" where
  "after_exit P i pid st =
     (let svc = service_list st ! i;
          st = (if \<not> has (svc_flags svc) SVC_ONESHOT \<or> has (svc_flags svc) SVC_RESTART
                then perform P (Sys_kill (- pid)) st else st);
          st = unlink_sockets P svc st;
          st = upd_svc i (\<lambda>s. clear_flags SVC_RUNNING (s\<lparr>svc_pid := 0\<rparr>)) st
      in upd_svc i (\<lambda>s. if has (svc_flags s) SVC_ONESHOT \<and> \<not> has (svc_flags s) SVC_RESTART
                        then set_flags SVC_DISABLED s else s) st)"

definition service_exited :: "platform \<Rightarrow> nat \<Rightarrow> int \<Rightarrow> init_st \<Rightarrow> init_st option" where
  "service_exited P i pid st =
     (let st = after_exit P i pid st; svc = service_list st ! i in
      if has (svc_flags svc) (SVC_DISABLED OR SVC_RESET)
      then Some (notify_service_state P (svc_name svc) ''stopped'' st)
      else
        let (now, st) = gettime P st in
        if has (svc_flags svc) SVC_CRITICAL \<and> \<not> has (svc_flags svc) SVC_RESTART then
          if now \<le> svc_time_crashed svc + CRITICAL_CRASH_WINDOW then
            let st = upd_svc i (\<lambda>s. s\<lparr>svc_nr_crashed := svc_nr_crashed s + 1\<rparr>) st in
            if CRITICAL_CRASH_THRESHOLD < svc_nr_crashed (service_list st ! i)
            then Some (perform P (Sys_reboot ''recovery'') st)
            else restart_later P i st
          else restart_later P i (upd_svc i (\<lambda>s. s\<lparr>svc_time_crashed := now, svc_nr_crashed := 1\<rparr>) st)
        else restart_later P i st)"

definition wait_for_one_process :: "platform \<Rightarrow> bool \<Rightarrow> init_st \<Rightarrow> (int \<times> init_st) option" where
  "wait_for_one_process P block st =
     do {
       (w, st) \<leftarrow> waitpid_retry P block st;
       let pid = an_ret w;
       if pid \<le> 0 then Some (- 1, st)
       else
         (case service_find_by_pid pid st of
            None \<Rightarrow> Some (0, st)
          | Some i \<Rightarrow> map_option (Pair 0) (service_exited P i pid st))
     }"

partial_function (option) reap_loop :: "platform \<Rightarrow> init_st \<Rightarrow> init_st option" where
  "reap_loop P st =
     (case wait_for_one_process P False st of
        None \<Rightarrow> None
      | Some (r, st) \<Rightarrow> if r = 0 then reap_loop P st else Some st)"

declare reap_loop.simps [code]

definition handle_signal :: "platform \<Rightarrow> init_st \<Rightarrow> init_st option" where
  "handle_signal P st = reap_loop P (perform P (Sys_read (signal_recv_fd st) 32) st)"

definition signal_init :: "platform \<Rightarrow> init_st \<Rightarrow> init_st option" where
  "signal_init P st =
     (let st = perform P Sys_sigaction st;
          (s, st) = sys P Sys_socketpair st;
          (s0, s1) = an_fds s;
          st = (if an_ret s = 0
                then fold (\<lambda>(fd, arg) st. perform P (Sys_fcntl fd arg) st)
                       [(s0, ''F_SETFD FD_CLOEXEC''), (s0, ''F_SETFL O_NONBLOCK''), (s1, ''F_SETFD FD_CLOEXEC''), (s1, ''F_SETFL O_NONBLOCK'')]
                       (st\<lparr>signal_fd := s0, signal_recv_fd := s1\<rparr>)
                else st)
      in handle_signal P st)"

definition get_signal_fd :: "init_st \<Rightarrow> int" where
  "get_signal_fd st = signal_recv_fd st"

subsection \<open>The invariant\<close>

lemma traced_waitpid_retry:
  assumes "waitpid_retry P block st = Some y"
  shows "traced st (snd y)"
proof (rule waitpid_retry.raw_induct [where Pa = "\<lambda>x y. traced (snd x) (snd y)", OF _ assms, unfolded snd_conv], goal_cases)
  case (1 loop P block st y)
  from 1(2) show ?case
    by (cases y) (auto simp: run_simps split: if_splits dest!: 1(1) intro: traced_trans [OF traced_perform])
qed

lemma cmd_static_args: "length args = length (cmd_args c) \<Longrightarrow> cmd_static (c\<lparr>cmd_args := args\<rparr>) = cmd_static c"
  by (simp add: cmd_static_def map_replicate_const)

lemma map_upd_nth: "(k < length xs \<Longrightarrow> g (f (xs ! k)) = g (xs ! k)) \<Longrightarrow> map g (upd_nth k f xs) = map g xs"
  by (auto simp: upd_nth_def map_update intro!: nth_equalityI simp: nth_list_update)

lemma static_onrestart_args:
  assumes "k < length (svc_onrestart svc)" "length args = length (cmd_args (svc_onrestart svc ! k))"
  shows "svc_static (set_onrestart_args k args svc) = svc_static svc"
proof -
  have "map cmd_static (upd_nth k (\<lambda>c. c\<lparr>cmd_args := args\<rparr>) (svc_onrestart svc)) = map cmd_static (svc_onrestart svc)"
    using assms by (intro map_upd_nth cmd_static_args)
  then show ?thesis by (simp add: set_onrestart_args_def svc_static_def)
qed

lemma step_static_nth:
  assumes "init_inv P st" "step_ok P st s" "i < length (service_list st)"
  shows "i < length (service_list s)" "svc_static (service_list s ! i) = svc_static (service_list st ! i)"
proof -
  have m: "map svc_static (service_list s) = map svc_static (service_list st)"
    using assms(1,2) by (simp add: step_ok_def)
  then show "i < length (service_list s)" using assms(3) by (metis length_map)
  with m assms(3) show "svc_static (service_list s ! i) = svc_static (service_list st ! i)" by (metis nth_map)
qed

lemma onrestart_shape:
  assumes "svc_static svc = svc_static svc'"
  shows "length (svc_onrestart svc) = length (svc_onrestart svc')"
    "k < length (svc_onrestart svc) \<Longrightarrow> length (cmd_args (svc_onrestart svc ! k)) = length (cmd_args (svc_onrestart svc' ! k))"
proof -
  note m = svc_static_fields(9) [OF assms]
  then show l: "length (svc_onrestart svc) = length (svc_onrestart svc')" by (metis length_map)
  assume "k < length (svc_onrestart svc)"
  then have "cmd_static (svc_onrestart svc ! k) = cmd_static (svc_onrestart svc' ! k)" using m l by (metis nth_map)
  then show "length (cmd_args (svc_onrestart svc ! k)) = length (cmd_args (svc_onrestart svc' ! k))"
    by (rule cmd_static_fields(3))
qed

lemma step_run_onrestart:
  assumes "init_inv P st" "i < length (service_list st)"
    and "run_onrestart P i ks s = Some s'" "step_ok P st s"
    and "\<forall>k \<in> set ks. k < length (svc_onrestart (service_list st ! i))"
  shows "step_ok P st s'"
  using assms(3-)
proof (induction ks arbitrary: s)
  case (Cons k ks)
  let ?cmd = "svc_onrestart (service_list s ! i) ! k"
  obtain r args s1 where run: "run_builtin P (cmd_func ?cmd) (cmd_nargs ?cmd) (cmd_args ?cmd) s = Some (r, args, s1)"
    and rest: "run_onrestart P i ks (upd_svc i (set_onrestart_args k args) s1) = Some s'"
    using Cons.prems(1) by (auto simp: bind_eq_Some_conv Let_def)
  have s1: "step_ok P st s1" "length args = length (cmd_args ?cmd)"
    using step_run_builtin [OF run Cons.prems(2)] by auto
  note n = step_static_nth [OF assms(1) Cons.prems(2) assms(2)] and n1 = step_static_nth [OF assms(1) s1(1) assms(2)]
  have k: "k < length (svc_onrestart (service_list s1 ! i))"
    using Cons.prems(3) onrestart_shape(1) [OF n1(2)] by simp
  have "length args = length (cmd_args (svc_onrestart (service_list s1 ! i) ! k))"
    using s1(2) k onrestart_shape(2) [OF n1(2) [folded n(2)]] by simp
  then have "step_ok P st (upd_svc i (set_onrestart_args k args) s1)"
    by (intro step_upd s1(1) n1(1) static_onrestart_args k) (auto simp: svc_run_ok_def set_onrestart_args_def)
  then show ?case using Cons.IH rest Cons.prems(3) by simp
qed simp

lemma step_restart_later:
  assumes "restart_later P i s = Some s'" "step_ok P st s" "i < length (service_list s)"
    and f: "svc_pid (service_list s ! i) = 0" "\<not> has (svc_flags (service_list s ! i)) (SVC_DISABLED OR SVC_RESET)"
  shows "step_ok P st s'"
proof (cases "init_inv P st")
  case True
  let ?s = "upd_svc i (\<lambda>s. set_flags SVC_RESTARTING (clear_flags SVC_RESTART s)) s"
  have s1: "step_ok P st ?s"
    using f by (intro step_upd assms) (auto simp: svc_run_ok_def flag_simps)
  have i: "i < length (service_list st)" using True assms(2,3) by (metis length_map step_ok_def)
  obtain s2 where "run_onrestart P i [0..<length (svc_onrestart (service_list ?s ! i))] ?s = Some s2"
    and s': "s' = notify_service_state P (svc_name (service_list s2 ! i)) ''restarting'' s2"
    using assms(1) by (auto simp: restart_later_def Let_def bind_eq_Some_conv)
  then have "step_ok P st s2"
    using onrestart_shape(1) [OF step_static_nth(2) [OF True s1 i]] by (intro step_run_onrestart [OF True i _ s1]) auto
  then show ?thesis unfolding s' by (rule step_notify)
qed (simp add: step_ok_def)

lemma traced_unlink_sockets: "traced st (unlink_sockets P svc st)"
proof -
  have "traced st s \<Longrightarrow> traced st (fold (\<lambda>si st. perform P (f si) st) sis s)" for f and sis :: "socketinfo list" and s
    by (induction sis arbitrary: s) (auto intro: traced_step)
  then show ?thesis by (simp add: unlink_sockets_def)
qed

definition exit_svc :: "service \<Rightarrow> service" where
  "exit_svc svc = (let s = clear_flags SVC_RUNNING (svc\<lparr>svc_pid := 0\<rparr>) in
     if has (svc_flags s) SVC_ONESHOT \<and> \<not> has (svc_flags s) SVC_RESTART then set_flags SVC_DISABLED s else s)"

lemma after_exit_service:
  "i < length (service_list st) \<Longrightarrow> service_list (after_exit P i pid st) = (service_list st)[i := exit_svc (service_list st ! i)]"
  using traced_frame(1) [OF traced_unlink_sockets]
  by (simp add: after_exit_def exit_svc_def Let_def upd_nth_def)

lemma svc_static_crash [simp]:
  "svc_static (svc\<lparr>svc_nr_crashed := n\<rparr>) = svc_static svc" "svc_static (svc\<lparr>svc_time_crashed := t\<rparr>) = svc_static svc"
  by (simp_all add: svc_static_def)

lemma step_after_exit:
  assumes "step_ok P st s" and i: "i < length (service_list s)" and pid: "svc_pid (service_list s ! i) \<noteq> 0"
    and inv: "svc_run_ok (service_list s ! i)"
  shows "step_ok P st (after_exit P i pid s)"
proof -
  have r: "\<not> has (svc_flags (service_list s ! i)) SVC_RESTARTING" using inv pid by (auto simp: svc_run_ok_def)
  define s1 where "s1 = (if \<not> has (svc_flags (service_list s ! i)) SVC_ONESHOT \<or> has (svc_flags (service_list s ! i)) SVC_RESTART
    then perform P (Sys_kill (- pid)) s else s)"
  define s2 where "s2 = unlink_sockets P (service_list s ! i) s1"
  have "step_ok P st s1" using assms(1) by (simp add: s1_def step_perform)
  then have s2: "step_ok P st s2" unfolding s2_def by (rule step_traced [OF _ traced_unlink_sockets])
  have l: "service_list s2 = service_list s"
    using traced_frame(1) [OF traced_unlink_sockets [of s1 P "service_list s ! i"]] by (simp add: s2_def s1_def)
  show ?thesis unfolding after_exit_def Let_def s1_def [symmetric] s2_def [symmetric]
    using i r by (intro step_upd s2) (auto simp: l svc_run_ok_def flag_simps)
qed

lemma step_service_exited:
  assumes "service_exited P i pid s = Some s'" "step_ok P st s" "i < length (service_list s)"
    and "svc_pid (service_list s ! i) \<noteq> 0"
  shows "step_ok P st s'"
proof (cases "init_inv P st")
  case True
  define s1 where "s1 = after_exit P i pid s"
  have run: "svc_run_ok (service_list s ! i)"
    using True assms(2,3) by (auto simp: step_ok_def init_inv_def list_all_length)
  have s1: "step_ok P st s1" unfolding s1_def by (rule step_after_exit [OF assms(2-4) run])
  have i: "i < length (service_list s1)" and pid: "svc_pid (service_list s1 ! i) = 0"
    using assms(3) by (simp_all add: s1_def after_exit_service exit_svc_def Let_def)
  note upd = step_upd [OF step_perform [OF s1]]
  from assms(1) show ?thesis
    unfolding service_exited_def s1_def [symmetric] Let_def gettime_split case_prod_conv
    using i pid
    by (auto split: if_splits intro!: step_notify s1 step_perform upd
        elim!: step_restart_later simp: svc_run_ok_def)
qed (simp add: step_ok_def)

lemma found_by_pid: "service_find_by_pid pid s = Some i \<Longrightarrow> i < length (service_list s) \<and> svc_pid (service_list s ! i) = pid"
  by (auto simp: service_find_by_pid_def dest: find_index_Some)

lemma step_wait_for_one_process:
  assumes "wait_for_one_process P block s = Some (r, s')" "step_ok P st s"
  shows "step_ok P st s'"
proof -
  obtain w s1 where w: "waitpid_retry P block s = Some (w, s1)"
    using assms(1) by (auto simp: wait_for_one_process_def bind_eq_Some_conv)
  have s1: "step_ok P st s1" using step_traced [OF assms(2) traced_waitpid_retry [OF w]] by simp
  with assms(1) w show ?thesis
    by (auto simp: wait_for_one_process_def Let_def split: if_splits option.splits
        dest!: found_by_pid elim!: step_service_exited)
qed

lemma step_reap_loop:
  assumes "reap_loop P s = Some s'" "step_ok P st s"
  shows "step_ok P st s'"
proof -
  have "step_ok P st s \<longrightarrow> step_ok P st s'"
  proof (rule reap_loop.raw_induct [where Pa = "\<lambda>x s'. fst x = P \<longrightarrow> step_ok P st (snd x) \<longrightarrow> step_ok P st s'",
        OF _ assms(1), unfolded fst_conv snd_conv, THEN mp, OF _ refl], goal_cases)
    case (1 loop Q s s')
    then show ?case by (auto split: option.splits if_splits dest!: step_wait_for_one_process)
  qed
  with assms(2) show ?thesis by simp
qed

lemma step_handle_signal: "handle_signal P s = Some s' \<Longrightarrow> step_ok P st s \<Longrightarrow> step_ok P st s'"
  by (auto simp: handle_signal_def elim!: step_reap_loop intro: step_perform)

lemma step_signal_init: "signal_init P s = Some s' \<Longrightarrow> step_ok P st s \<Longrightarrow> step_ok P st s'"
  by (auto simp: signal_init_def run_simps split: prod.splits if_splits elim!: step_handle_signal
      intro!: step_perform intro: step_same)

subsection \<open>Critical services\<close>

text \<open>
  A critical service runs and nobody asked to stop or restart it.  Its exit is counted, and the
  count decides between a restart and a reboot.
\<close>

definition critical_running :: "nat \<Rightarrow> init_st \<Rightarrow> bool" where
  "critical_running i st \<longleftrightarrow> i < length (service_list st) \<and> has (svc_flags (service_list st ! i)) SVC_CRITICAL \<and>
     \<not> has (svc_flags (service_list st ! i)) (SVC_ONESHOT OR SVC_RESTART OR SVC_DISABLED OR SVC_RESET)"

definition count_crash :: "int \<Rightarrow> service \<Rightarrow> service" where
  "count_crash now svc =
     (if now \<le> svc_time_crashed svc + CRITICAL_CRASH_WINDOW then svc\<lparr>svc_nr_crashed := svc_nr_crashed svc + 1\<rparr>
      else svc\<lparr>svc_time_crashed := now, svc_nr_crashed := 1\<rparr>)"

definition exit_time :: "platform \<Rightarrow> nat \<Rightarrow> int \<Rightarrow> init_st \<Rightarrow> int" where
  "exit_time P i pid st = clock_at P (trace (after_exit P i pid st))"

definition counted :: "platform \<Rightarrow> nat \<Rightarrow> int \<Rightarrow> init_st \<Rightarrow> init_st" where
  "counted P i pid st =
     upd_svc i (count_crash (exit_time P i pid st)) (perform P Sys_clock_gettime (after_exit P i pid st))"

text \<open>The time of the first crash of the current window and the number of crashes in it.\<close>

definition crash_count :: "nat \<Rightarrow> init_st \<Rightarrow> int \<times> int" where
  "crash_count i st = (svc_time_crashed (service_list st ! i), svc_nr_crashed (service_list st ! i))"

definition reboots :: "platform \<Rightarrow> nat \<Rightarrow> int \<Rightarrow> init_st \<Rightarrow> bool" where
  "reboots P i pid st \<longleftrightarrow> CRITICAL_CRASH_THRESHOLD < snd (crash_count i (counted P i pid st))"

lemma exit_svc_critical:
  assumes "critical_running i st"
  shows "let svc = exit_svc (service_list st ! i) in \<not> has (svc_flags svc) (SVC_DISABLED OR SVC_RESET) \<and>
    has (svc_flags svc) SVC_CRITICAL \<and> \<not> has (svc_flags svc) SVC_RESTART \<and>
    svc_time_crashed svc = svc_time_crashed (service_list st ! i) \<and> svc_nr_crashed svc = svc_nr_crashed (service_list st ! i)"
  using assms by (auto simp: critical_running_def exit_svc_def Let_def flag_simps clear_flags_def set_flags_def)

lemma crash_count_counted:
  assumes "critical_running i st"
  shows "crash_count i (counted P i pid st) =
    (let (tc, nr) = crash_count i st; now = exit_time P i pid st in
     if now \<le> tc + CRITICAL_CRASH_WINDOW then (tc, nr + 1) else (now, 1))"
  using exit_svc_critical [OF assms] assms
  by (simp add: crash_count_def counted_def after_exit_service count_crash_def critical_running_def Let_def)

lemma upd_svc_cong: "f (service_list st ! i) = g (service_list st ! i) \<Longrightarrow> upd_svc i f st = upd_svc i g st"
  by (simp add: upd_svc_def upd_nth_def)

lemma critical_exit:
  assumes "critical_running i st"
  shows "service_exited P i pid st =
    (if reboots P i pid st then Some (perform P (Sys_reboot ''recovery'') (counted P i pid st))
     else restart_later P i (counted P i pid st))"
proof -
  let ?s = "after_exit P i pid st" and ?t = "perform P Sys_clock_gettime (after_exit P i pid st)"
  have i: "i < length (service_list st)" using assms by (simp add: critical_running_def)
  have svc: "service_list ?s ! i = exit_svc (service_list st ! i)" using i by (simp add: after_exit_service)
  have len: "i < length (service_list ?s)" using i by (simp add: after_exit_service)
  note e = exit_svc_critical [OF assms, unfolded Let_def]
  show ?thesis
  proof (cases "exit_time P i pid st \<le> svc_time_crashed (service_list ?s ! i) + CRITICAL_CRASH_WINDOW")
    case True
    then have c: "counted P i pid st = upd_svc i (\<lambda>s. s\<lparr>svc_nr_crashed := svc_nr_crashed s + 1\<rparr>) ?t"
      unfolding counted_def by (intro upd_svc_cong) (simp add: count_crash_def)
    show ?thesis using e True
      by (simp add: service_exited_def Let_def gettime_split svc exit_time_def [symmetric] c reboots_def crash_count_def)
  next
    case False
    then have c: "counted P i pid st = upd_svc i (\<lambda>s. s\<lparr>svc_time_crashed := exit_time P i pid st, svc_nr_crashed := 1\<rparr>) ?t"
      unfolding counted_def by (intro upd_svc_cong) (simp add: count_crash_def)
    moreover have "\<not> reboots P i pid st"
      using len by (simp add: reboots_def crash_count_def c CRITICAL_CRASH_THRESHOLD_def)
    ultimately show ?thesis using e False
      by (simp add: service_exited_def Let_def gettime_split svc exit_time_def [symmetric])
  qed
qed

text \<open>
  The history of a critical service: it crashed at the times \<open>ts\<close>, the latest first, was restarted
  each time, and nothing but the exits changed its crash count.
\<close>

inductive crash_run :: "platform \<Rightarrow> nat \<Rightarrow> int list \<Rightarrow> init_st \<Rightarrow> bool" for P i where
  fresh: "crash_count i st = (0, 0) \<Longrightarrow> crash_run P i [] st"
| crash: "crash_run P i ts st \<Longrightarrow> critical_running i st \<Longrightarrow> \<not> reboots P i pid st \<Longrightarrow>
    now = exit_time P i pid st \<Longrightarrow> 0 \<le> now \<Longrightarrow> list_all (\<lambda>t. t \<le> now) ts \<Longrightarrow>
    crash_count i st' = crash_count i (counted P i pid st) \<Longrightarrow> crash_run P i (now # ts) st'"

text \<open>
  The window: \<open>nr\<close> crashes since \<open>tc\<close>, at most four, none later than the window allows; the older
  crashes were before \<open>tc\<close>, and all but the latest four of them before the window's length.
\<close>

definition window_ok :: "int list \<Rightarrow> int \<times> int \<Rightarrow> bool" where
  "window_ok ts = (\<lambda>(tc, nr). \<exists>n \<le> 4. nr = int n \<and> n \<le> length ts \<and> (n = 0 \<longrightarrow> tc = 0) \<and>
     (\<forall>t \<in> set (take n ts). tc \<le> t) \<and> (\<forall>t \<in> set (drop n ts). t \<le> tc) \<and>
     (\<forall>t \<in> set (drop (n + 4) ts). t + CRITICAL_CRASH_WINDOW < tc))"

lemma window_start:
  assumes "window_ok ts (tc, nr)" "0 \<le> now" "list_all (\<lambda>t. t \<le> now) ts"
  shows "tc \<le> now"
proof -
  obtain n where n: "n \<le> length ts" "n = 0 \<longrightarrow> tc = 0" "\<forall>t \<in> set (take n ts). tc \<le> t"
    using assms(1) by (auto simp: window_ok_def)
  show ?thesis
  proof (cases n)
    case (Suc k)
    then obtain t ts' where "ts = t # ts'" using n(1) by (cases ts) auto
    then show ?thesis using n(3) assms(3) Suc by auto
  qed (use n assms(2) in simp)
qed

lemma window_ok_step:
  assumes "window_ok ts (tc, nr)" "0 \<le> now" "list_all (\<lambda>t. t \<le> now) ts"
  shows "now \<le> tc + CRITICAL_CRASH_WINDOW \<Longrightarrow> nr + 1 \<le> 4 \<Longrightarrow> window_ok (now # ts) (tc, nr + 1)"
    "tc + CRITICAL_CRASH_WINDOW < now \<Longrightarrow> window_ok (now # ts) (now, 1)"
proof -
  obtain n where n: "n \<le> 4" "nr = int n" "n \<le> length ts" "n = 0 \<longrightarrow> tc = 0" "\<forall>t \<in> set (take n ts). tc \<le> t"
    "\<forall>t \<in> set (drop n ts). t \<le> tc" "\<forall>t \<in> set (drop (n + 4) ts). t + CRITICAL_CRASH_WINDOW < tc"
    using assms(1) by (auto simp: window_ok_def)
  have tc: "tc \<le> now" by (rule window_start [OF assms])
  have d: "drop (5 + n) (now # ts) = drop (n + 4) ts" by (simp add: drop_Cons' add.commute)
  show "window_ok (now # ts) (tc, nr + 1)" if "nr + 1 \<le> 4"
    unfolding window_ok_def case_prod_conv by (rule exI [of _ "Suc n"]) (use n that tc d in auto)
  assume w: "tc + CRITICAL_CRASH_WINDOW < now"
  have "set (drop 4 ts) \<subseteq> set (drop n ts)" using n(1) by (rule set_drop_subset_set_drop)
  then have "\<forall>t \<in> set (drop 4 ts). t + CRITICAL_CRASH_WINDOW < now" using n(6) w by fastforce
  then show "window_ok (now # ts) (now, 1)"
    unfolding window_ok_def case_prod_conv using assms(3)
    by (intro exI [of _ "Suc 0"]) (auto simp: list_all_iff)
qed

lemma crash_run_window: "crash_run P i ts st \<Longrightarrow> window_ok ts (crash_count i st)"
proof (induction rule: crash_run.induct)
  case (fresh st)
  then show ?case by (simp add: window_ok_def)
next
  case (crash ts st pid now st')
  obtain tc nr where c: "crash_count i st = (tc, nr)" by force
  with crash show ?case
    using window_ok_step [of ts tc nr now] crash_count_counted [OF crash(2), of P pid]
    by (auto simp: reboots_def CRITICAL_CRASH_THRESHOLD_def Let_def split: if_splits)
qed

text \<open>
  C25.  A critical service that crashes too often reboots the system into recovery mode: when the
  fifth crash in a row comes within four minutes a reboot is possible, never before, and nine crashes
  within four minutes always cause one.  (The window is counted from its first crash, so up to
  eight crashes within four minutes may pass when a window ends between them.)
\<close>

theorem critical_crash_reboot:
  assumes "crash_run P i ts st" "critical_running i st"
    and "0 \<le> exit_time P i pid st" "list_all (\<lambda>t. t \<le> exit_time P i pid st) ts"
  shows "(service_exited P i pid st =
      (if reboots P i pid st then Some (perform P (Sys_reboot ''recovery'') (counted P i pid st))
       else restart_later P i (counted P i pid st))) \<and>
    (reboots P i pid st \<longrightarrow> 4 \<le> length ts \<and> exit_time P i pid st \<le> ts ! 3 + CRITICAL_CRASH_WINDOW) \<and>
    (8 \<le> length ts \<and> exit_time P i pid st \<le> ts ! 7 + CRITICAL_CRASH_WINDOW \<longrightarrow> reboots P i pid st)"
proof -
  obtain tc nr where c: "crash_count i st = (tc, nr)" by force
  let ?now = "exit_time P i pid st"
  obtain n where n: "n \<le> 4" "nr = int n" "n \<le> length ts" "\<forall>t \<in> set (take n ts). tc \<le> t"
    "\<forall>t \<in> set (drop n ts). t \<le> tc" "\<forall>t \<in> set (drop (n + 4) ts). t + CRITICAL_CRASH_WINDOW < tc"
    using crash_run_window [OF assms(1)] c by (auto simp: window_ok_def)
  have rb: "reboots P i pid st \<longleftrightarrow> ?now \<le> tc + CRITICAL_CRASH_WINDOW \<and> n = 4"
    using crash_count_counted [OF assms(2), of P pid] c n(1,2)
    by (auto simp: reboots_def CRITICAL_CRASH_THRESHOLD_def Let_def split: if_splits)
  have mem: "k < length ts \<Longrightarrow> m \<le> k \<Longrightarrow> ts ! k \<in> set (drop m ts)" for k m
    by (metis Cons_nth_drop_Suc list.set_intros(1) set_drop_subset_set_drop subsetD)
  have "4 \<le> length ts \<and> ?now \<le> ts ! 3 + CRITICAL_CRASH_WINDOW" if "reboots P i pid st"
  proof -
    have "ts ! 3 \<in> set (take 4 ts)" using that rb n(3) by (auto simp: in_set_conv_nth intro!: exI [of _ 3])
    then show ?thesis using that rb n(3,4) by fastforce
  qed
  moreover have "reboots P i pid st" if "8 \<le> length ts" "?now \<le> ts ! 7 + CRITICAL_CRASH_WINDOW"
  proof (rule ccontr)
    assume no: "\<not> reboots P i pid st"
    have "ts ! 7 \<le> tc" using mem [of 7 n] n(1,5) that(1) by simp
    moreover have "ts ! 7 + CRITICAL_CRASH_WINDOW < tc" if "n \<le> 3" using mem [of 7 "n + 4"] n(6) that \<open>8 \<le> length ts\<close> by simp
    moreover have "tc \<le> ?now" using window_start crash_run_window [OF assms(1)] assms(3,4) c by metis
    ultimately show False using no rb that(2) n(1) by (cases "n = 4") auto
  qed
  ultimately show ?thesis using critical_exit [OF assms(2), of P pid] by blast
qed

text \<open>A clock that advances by one second with each call, and a service with a given crash count.\<close>

definition tick_os :: "sys_trace \<Rightarrow> syscall \<Rightarrow> answer" where
  "tick_os t c = (case c of Sys_clock_gettime \<Rightarrow> (ok_answer 0)\<lparr>an_time := int (length t)\<rparr> | _ \<Rightarrow> example_os t c)"

definition tick_platform :: platform where
  "tick_platform = example_platform\<lparr>os := tick_os\<rparr>"

definition crash_state :: "int \<Rightarrow> int \<Rightarrow> nat \<Rightarrow> init_st" where
  "crash_state tc nr now = init_st0\<lparr>trace := replicate (now - 1) (Sys_wait, ok_answer 0),
     service_list := [(new_service ''zygote'' [''/bin/zygote''])
       \<lparr>svc_pid := 9, svc_flags := SVC_RUNNING OR SVC_CRITICAL, svc_time_crashed := tc, svc_nr_crashed := nr\<rparr>]\<rparr>"

lemma crash_count_state: "crash_count 0 (crash_state tc nr now) = (tc, nr)"
  by (simp add: crash_count_def crash_state_def)

lemma crash_state_facts:
  assumes "0 < now"
  shows "critical_running 0 (crash_state tc nr now)" "crash_count 0 (crash_state tc nr now) = (tc, nr)"
    "exit_time tick_platform 0 9 (crash_state tc nr now) = int now"
    "reboots tick_platform 0 9 (crash_state tc nr now) \<longleftrightarrow> int now \<le> tc + 240 \<and> 3 < nr"
proof -
  show c: "critical_running 0 (crash_state tc nr now)" "crash_count 0 (crash_state tc nr now) = (tc, nr)"
    by (simp_all add: critical_running_def crash_count_def crash_state_def init_st0_def flag_simps)
  show e: "exit_time tick_platform 0 9 (crash_state tc nr now) = int now"
    using assms by (simp add: exit_time_def after_exit_def clock_at_def crash_state_def init_st0_def new_service_def unlink_sockets_def
        flag_simps trace_perform tick_platform_def tick_os_def ok_answer_def)
  show "reboots tick_platform 0 9 (crash_state tc nr now) \<longleftrightarrow> int now \<le> tc + 240 \<and> 3 < nr"
    using crash_count_counted [OF c(1), of tick_platform 9]
    by (auto simp: reboots_def c(2) e CRITICAL_CRASH_THRESHOLD_def CRITICAL_CRASH_WINDOW_def Let_def)
qed

lemma crash_state_run:
  assumes "crash_run tick_platform 0 ts (crash_state tc nr now)" "0 < now" "list_all (\<lambda>t. t \<le> int now) ts"
    and "tc + 240 < int now \<or> nr \<le> 3"
  shows "crash_run tick_platform 0 (int now # ts)
    (if int now \<le> tc + 240 then crash_state tc (nr + 1) now' else crash_state (int now) 1 now')"
proof (rule crash_run.crash [OF assms(1), where pid = 9])
  note f = crash_state_facts [OF assms(2)]
  show "critical_running 0 (crash_state tc nr now)" "\<not> reboots tick_platform 0 9 (crash_state tc nr now)"
    "int now = exit_time tick_platform 0 9 (crash_state tc nr now)" "0 \<le> int now" "list_all (\<lambda>t. t \<le> int now) ts"
    using f assms(3,4) by auto
  show "crash_count 0 (if int now \<le> tc + 240 then crash_state tc (nr + 1) now' else crash_state (int now) 1 now') =
      crash_count 0 (counted tick_platform 0 9 (crash_state tc nr now))"
    using f(1,3) by (simp add: crash_count_counted CRITICAL_CRASH_WINDOW_def crash_count_state)
qed

theorem critical_crash_reboot_witness:
  "crash_run tick_platform 0 [244, 243, 242, 241, 240, 239, 235, 230] (crash_state 241 4 245) \<and>
   service_exited tick_platform 0 9 (crash_state 241 4 245) =
     Some (perform tick_platform (Sys_reboot ''recovery'') (counted tick_platform 0 9 (crash_state 241 4 245)))"
proof -
  have "crash_run tick_platform 0 [] (crash_state 0 0 230)"
    by (rule crash_run.fresh) (rule crash_count_state)
  from crash_state_run [OF this, of 235] have "crash_run tick_platform 0 [230] (crash_state 0 1 235)" by simp
  from crash_state_run [OF this, of 239] have "crash_run tick_platform 0 [235, 230] (crash_state 0 2 239)" by simp
  from crash_state_run [OF this, of 240] have "crash_run tick_platform 0 [239, 235, 230] (crash_state 0 3 240)" by simp
  from crash_state_run [OF this, of 241] have "crash_run tick_platform 0 [240, 239, 235, 230] (crash_state 0 4 241)" by simp
  from crash_state_run [OF this, of 242] have "crash_run tick_platform 0 [241, 240, 239, 235, 230] (crash_state 241 1 242)" by simp
  from crash_state_run [OF this, of 243] have "crash_run tick_platform 0 [242, 241, 240, 239, 235, 230] (crash_state 241 2 243)" by simp
  from crash_state_run [OF this, of 244] have "crash_run tick_platform 0 [243, 242, 241, 240, 239, 235, 230] (crash_state 241 3 244)" by simp
  from crash_state_run [OF this, of 245]
  have run: "crash_run tick_platform 0 [244, 243, 242, 241, 240, 239, 235, 230] (crash_state 241 4 245)" by simp
  note f = crash_state_facts [of 245 241 4]
  from critical_crash_reboot [OF run f(1), of 9] f run show ?thesis by (simp add: CRITICAL_CRASH_WINDOW_def)
qed

subsection \<open>The restart policy\<close>

text \<open>
  What becomes of a service that is not critical and has no \<open>onrestart\<close> commands when its
  process exits: it has no process any more; it is disabled if it was or if it is a oneshot that was
  not restarted by hand; and it is restarted later exactly if it is neither disabled now nor was
  reset.  All other services stay as they are.
\<close>

lemma service_exit_outcome:
  fixes P st i
  defines "svc \<equiv> service_list st ! i"
  assumes "i < length (service_list st)" "svc_onrestart svc = []" "\<not> has (svc_flags svc) SVC_CRITICAL"
    "\<not> has (svc_flags svc) SVC_RESTARTING"
  shows "\<exists>st' svc'. service_exited P i pid st = Some st' \<and> service_list st' = (service_list st)[i := svc'] \<and>
    svc_pid svc' = 0 \<and> \<not> has (svc_flags svc') SVC_RUNNING \<and> svc_static svc' = svc_static svc \<and>
    (has (svc_flags svc') SVC_DISABLED \<longleftrightarrow>
       has (svc_flags svc) SVC_DISABLED \<or> has (svc_flags svc) SVC_ONESHOT \<and> \<not> has (svc_flags svc) SVC_RESTART) \<and>
    (has (svc_flags svc') SVC_RESTARTING \<longleftrightarrow> \<not> has (svc_flags svc') SVC_DISABLED \<and> \<not> has (svc_flags svc) SVC_RESET)"
proof -
  let ?s = "after_exit P i pid st" and ?e = "exit_svc svc"
  let ?r = "set_flags SVC_RESTARTING (clear_flags SVC_RESTART ?e)"
  have l: "service_list ?s = (service_list st)[i := ?e]" "service_list ?s ! i = ?e"
    using assms(2) by (simp_all add: after_exit_service svc_def)
  have e: "svc_onrestart ?e = []" "svc_pid ?e = 0"
    "\<not> has (svc_flags ?e) SVC_CRITICAL" "\<not> has (svc_flags ?e) SVC_RUNNING"
    "has (svc_flags ?e) SVC_RESET = has (svc_flags svc) SVC_RESET" "\<not> has (svc_flags ?e) SVC_RESTARTING"
    "has (svc_flags ?e) SVC_DISABLED \<longleftrightarrow>
       has (svc_flags svc) SVC_DISABLED \<or> has (svc_flags svc) SVC_ONESHOT \<and> \<not> has (svc_flags svc) SVC_RESTART"
    using assms(3-5) by (auto simp: exit_svc_def Let_def flag_simps clear_flags_def set_flags_def)
  have st: "svc_static ?e = svc_static svc" by (simp add: exit_svc_def Let_def)
  show ?thesis
  proof (cases "has (svc_flags ?e) (SVC_DISABLED OR SVC_RESET)")
    case True
    then have "service_exited P i pid st = Some (notify_service_state P (svc_name ?e) ''stopped'' ?s)"
      using assms(2) by (simp add: service_exited_def Let_def l)
    then show ?thesis using True e st l by (intro exI [of _ "notify_service_state P (svc_name ?e) ''stopped'' ?s"] exI [of _ ?e]) (auto simp: flag_simps)
  next
    case False
    let ?t = "upd_svc i (\<lambda>s. set_flags SVC_RESTARTING (clear_flags SVC_RESTART s)) (perform P Sys_clock_gettime ?s)"
    have t: "service_list ?t = (service_list st)[i := ?r]" using assms(2) by (simp add: l upd_nth_def)
    have "svc_onrestart ?r = []" using e(1) by (simp add: set_flags_def clear_flags_def)
    then have "service_exited P i pid st = Some (notify_service_state P (svc_name ?r) ''restarting'' ?t)"
      using False e assms(2) by (simp add: service_exited_def Let_def l gettime_split restart_later_def upd_nth_def)
    then show ?thesis using False e st t
      by (intro exI [of _ "notify_service_state P (svc_name ?r) ''restarting'' ?t"] exI [of _ ?r]) (auto simp: flag_simps)
  qed
qed

lemma service_exit_outcome_witness:
  "\<exists>st' svc'. service_exited tick_platform 0 9
      (init_st0\<lparr>service_list := [(new_service ''logd'' [''/bin/logd''])\<lparr>svc_pid := 9, svc_flags := SVC_RUNNING\<rparr>]\<rparr>) = Some st' \<and>
    service_list st' = [svc'] \<and> svc_pid svc' = 0 \<and> has (svc_flags svc') SVC_RESTARTING"
  using service_exit_outcome [of 0 "init_st0\<lparr>service_list := [(new_service ''logd'' [''/bin/logd''])\<lparr>svc_pid := 9, svc_flags := SVC_RUNNING\<rparr>]\<rparr>"
      tick_platform 9]
  by (auto simp: init_st0_def new_service_def flag_simps)

end
