(* ===== verification/Logo.thy ===== *)
theory Logo
  imports Util
begin

text \<open>
  \<open>logo.c\<close>: the boot logo is a file of runs, each a number of pixels and their colour in 16 bits,
  which is drawn into the mapped frame buffer.  The memory of the frame buffer is a list of pixels;
  a store outside of it is \<open>None\<close>.
\<close>

subsection \<open>The frame buffer\<close>

text \<open>The 16-bit words of a memory, low byte first as on the target.\<close>

fun shorts :: "char list \<Rightarrow> 16 word list" where
  "shorts (lo # hi # m) = (of_char lo + 256 * of_char hi) # shorts m"
| "shorts _ = []"

record FB =
  fb_bits :: "16 word list"
  fb_fd :: int
  fb_xres :: "32 word"
  fb_yres :: "32 word"

definition fb_size :: "32 word \<Rightarrow> 32 word \<Rightarrow> 32 word" where
  "fb_size xres yres = xres * yres * 2"

definition fb_open :: "platform \<Rightarrow> init_st \<Rightarrow> FB option \<times> init_st" where
  "fb_open P st =
     (let (f, st) = sys P (Sys_open ''/dev/graphics/fb0'' [O_RDWR] 0) st; fd = an_ret f in
      if fd < 0 then (None, st)
      else
        let (i, st) = sys P (Sys_ioctl fd ''FBIOGET_FSCREENINFO'' []) st in
        if an_ret i < 0 then (None, perform P (Sys_close fd) st)
        else
          let (i, st) = sys P (Sys_ioctl fd ''FBIOGET_VSCREENINFO'' []) st in
          if an_ret i < 0 then (None, perform P (Sys_close fd) st)
          else
            let xres = of_int (fst (an_fds i)); yres = of_int (snd (an_fds i));
                size = unat (fb_size xres yres);
                (m, st) = sys P (Sys_mmap fd (int size)) st in
            if an_ret m = - 1 then (None, perform P (Sys_close fd) st)
            else (Some \<lparr>fb_bits = shorts (take size (an_data m @ replicate size NUL)), fb_fd = fd,
                        fb_xres = xres, fb_yres = yres\<rparr>, st))"

definition fb_close :: "platform \<Rightarrow> FB \<Rightarrow> init_st \<Rightarrow> init_st" where
  "fb_close P fb st = perform P (Sys_close (fb_fd fb)) (perform P (Sys_fb_unmap (fb_fd fb) (fb_bits fb)) st)"

definition fb_update :: "platform \<Rightarrow> FB \<Rightarrow> init_st \<Rightarrow> init_st" where
  "fb_update P fb st =
     perform P (Sys_ioctl (fb_fd fb) ''FBIOPUT_VSCREENINFO'' ''0'')
       (perform P (Sys_ioctl (fb_fd fb) ''FBIOPUT_VSCREENINFO'' ''1'') st)"

definition vt_set_mode :: "platform \<Rightarrow> bool \<Rightarrow> init_st \<Rightarrow> int \<times> init_st" where
  "vt_set_mode P graphics st =
     (let (f, st) = sys P (Sys_open ''/dev/tty0'' [O_RDWR, O_SYNC] 0) st; fd = an_ret f in
      if fd < 0 then (- 1, st)
      else
        let (r, st) = sys P (Sys_ioctl fd ''KDSETMODE'' (if graphics then ''KD_GRAPHICS'' else ''KD_TEXT'')) st
        in (an_ret r, perform P (Sys_close fd) st))"

subsection \<open>Drawing\<close>

text \<open>\<open>android_memset16\<close>: the pixels of \<open>count\<close> bytes from the pixel \<open>i\<close> on.\<close>

definition android_memset16 :: "16 word list \<Rightarrow> nat \<Rightarrow> 16 word \<Rightarrow> nat \<Rightarrow> 16 word list option" where
  "android_memset16 bits i val count =
     (let n = count div 2
      in if i + n \<le> length bits then Some (take i bits @ replicate n val @ drop (i + n) bits) else None)"

fun rle_loop :: "16 word list \<Rightarrow> 32 word \<Rightarrow> 32 word \<Rightarrow> nat \<Rightarrow> 16 word list \<Rightarrow> 16 word list option" where
  "rle_loop (n # val # ptr) count room i bits =
     (if 3 < count then
        if room < ucast n then Some bits
        else (case android_memset16 bits i val (2 * unat n) of
                None \<Rightarrow> None
              | Some bits \<Rightarrow> rle_loop ptr (count - 4) (room - ucast n) (i + unat n) bits)
      else Some bits)"
| "rle_loop _ count room i bits = (if 3 < count then None else Some bits)"

text \<open>The part after the file is mapped, with its bytes as \<open>data\<close>.\<close>

definition draw_logo :: "platform \<Rightarrow> string \<Rightarrow> int \<Rightarrow> int \<Rightarrow> char list \<Rightarrow> init_st \<Rightarrow> (int \<times> init_st) option" where
  "draw_logo P fn fd st_size data st =
     (case fb_open P st of
        (None, st) \<Rightarrow>
          let st = perform P (Sys_munmap st_size) st;
              st = perform P (Sys_close fd) st
          in Some (- 1, snd (vt_set_mode P False st))
      | (Some fb, st) \<Rightarrow>
          do {
            bits \<leftarrow> rle_loop (shorts data) (of_int st_size) (fb_xres fb * fb_yres fb) 0 (fb_bits fb);
            let st = perform P (Sys_munmap st_size) st;
            let st = fb_update P fb st;
            let st = fb_close P (fb\<lparr>fb_bits := bits\<rparr>) st;
            let st = perform P (Sys_close fd) st;
            Some (0, perform P (Sys_unlink fn) st)
          })"

definition load_565rle_image :: "platform \<Rightarrow> string \<Rightarrow> init_st \<Rightarrow> (int \<times> init_st) option" where
  "load_565rle_image P fn st =
     (let (r, st) = vt_set_mode P True st in
      if r \<noteq> 0 then Some (- 1, st)
      else
        let (f, st) = sys P (Sys_open fn [O_RDONLY] 0) st; fd = an_ret f in
        if fd < 0 then Some (- 1, snd (vt_set_mode P False st))
        else
          let (s, st) = sys P (Sys_fstat fd) st in
          if an_ret s < 0 then Some (- 1, snd (vt_set_mode P False (perform P (Sys_close fd) st)))
          else
            let size = an_size s; (m, st) = sys P (Sys_mmap fd size) st in
            if an_ret m = - 1 then Some (- 1, snd (vt_set_mode P False (perform P (Sys_close fd) st)))
            else draw_logo P fn fd size (take (nat size) (an_data m @ replicate (nat size) NUL)) st)"

subsection \<open>What is drawn\<close>

text \<open>The runs of an image, and the pixels of those of them that fit into \<open>room\<close> pixels.\<close>

fun runs :: "16 word list \<Rightarrow> (nat \<times> 16 word) list" where
  "runs (n # val # ptr) = (unat n, val) # runs ptr"
| "runs _ = []"

fun rle_fit :: "nat \<Rightarrow> (nat \<times> 'a) list \<Rightarrow> 'a list" where
  "rle_fit room [] = []"
| "rle_fit room ((n, v) # rs) = (if room < n then [] else replicate n v @ rle_fit (room - n) rs)"

lemma length_rle_fit: "length (rle_fit room rs) \<le> room"
  by (induction room rs rule: rle_fit.induct) auto

lemma rle_loop_draws:
  assumes "unat count div 4 = length (runs ptr)" "i + unat room = length bits"
  shows "rle_loop ptr count room i bits =
    Some (take i bits @ rle_fit (unat room) (runs ptr) @ drop (i + length (rle_fit (unat room) (runs ptr))) bits)"
  using assms
proof (induction ptr count room i bits rule: rle_loop.induct)
  case (1 n val ptr count room i bits)
  have big: "3 < count \<longleftrightarrow> 4 \<le> unat count" by (simp add: word_less_nat_alt) arith
  have count: "3 < count" using 1(2) big by simp
  have "unat n < 2 ^ 16" using unsigned_less [of n] by simp
  then have n: "unat (ucast n :: 32 word) = unat n" by (simp add: unsigned_ucast_eq take_bit_nat_eq_self_iff)
  show ?case
  proof (cases "room < ucast n")
    case True
    then have "unat room < unat n" by (simp add: word_less_nat_alt n)
    with True count show ?thesis by simp
  next
    case False
    then have fits: "unat n \<le> unat room" by (simp add: word_less_nat_alt n)
    let ?b = "take i bits @ replicate (unat n) val @ drop (i + unat n) bits"
    have set: "android_memset16 bits i val (2 * unat n) = Some ?b" using fits 1(3) by (simp add: android_memset16_def Let_def)
    have r: "unat (room - ucast n) = unat room - unat n" using False by (simp add: unat_sub n not_less)
    have c: "unat (count - 4) = unat count - 4" using count big by (simp add: unat_sub word_le_nat_alt)
    have "rle_loop ptr (count - 4) (room - ucast n) (i + unat n) ?b =
      Some (take (i + unat n) ?b @ rle_fit (unat (room - ucast n)) (runs ptr) @
        drop (i + unat n + length (rle_fit (unat (room - ucast n)) (runs ptr))) ?b)"
      using 1(2,3) count False set fits r c by (intro 1(1)) auto
    then show ?thesis using count False set fits 1(3) r by (simp add: ac_simps)
  qed
qed (auto simp: word_less_nat_alt)

lemma length_runs: "length (runs (shorts m)) = length m div 4"
proof (induction m rule: length_induct)
  case (1 m)
  consider "m = []" | a where "m = [a]" | a b where "m = [a, b]" | a b c where "m = [a, b, c]"
    | a b c d r where "m = a # b # c # d # r"
    by (metis list.exhaust)
  then show ?case using 1 by cases simp_all
qed

text \<open>
  C37.  Whatever bytes the file of the logo holds, drawing it into a frame buffer of as many pixels as
  the screen has never stores outside of the frame buffer: the runs that fit are drawn one after the
  other from the first pixel on, drawing stops at the first run that does not fit, and the pixels
  behind them stay as they were.
\<close>

theorem logo_drawn:
  assumes "length file < 2 ^ 32" "length bits = unat (xres * yres)"
  shows "rle_loop (shorts file) (of_int (int (length file))) (xres * yres) 0 bits =
    (let pixels = rle_fit (length bits) (runs (shorts file)) in Some (pixels @ drop (length pixels) bits))"
proof -
  have "unat (of_int (int (length file)) :: 32 word) = length file"
    using assms(1) by (simp add: unsigned_of_nat take_bit_nat_eq_self_iff)
  then have "unat (of_int (int (length file)) :: 32 word) div 4 = length (runs (shorts file))" by (simp add: length_runs)
  from rle_loop_draws [OF this, of 0 "xres * yres" bits] assms(2) show ?thesis by (simp add: Let_def)
qed

text \<open>Two red pixels and a run that does not fit on a screen of three pixels.\<close>

theorem logo_drawn_witness:
  "rle_loop (shorts [CHR 0x02, CHR 0x00, CHR 0x00, CHR 0xF8, CHR 0x02, CHR 0x00, CHR 0x01, CHR 0x00]) 8 (3 * 1) 0 [7, 8, 9] =
   Some [0xF800, 0xF800, 9]"
proof -
  have two: "replicate 2 x = [x, x]" for x :: "16 word" by (simp add: numeral_2_eq_2)
  show ?thesis
    using logo_drawn [of "[CHR 0x02, CHR 0x00, CHR 0x00, CHR 0xF8, CHR 0x02, CHR 0x00, CHR 0x01, CHR 0x00]" "[7, 8, 9]" 3 1]
    by (simp add: two)
qed

subsection \<open>Loading\<close>

lemma traced_vt_set_mode [traced_intros]: "traced st s \<Longrightarrow> traced st (snd (vt_set_mode P g s))"
  by (simp add: vt_set_mode_def run_simps traced_intros)

lemma traced_fb_open: "traced st s \<Longrightarrow> traced st (snd (fb_open P s))"
  by (simp add: fb_open_def run_simps traced_intros)

lemma traced_draw_logo: "draw_logo P fn fd n data s = Some (r, s') \<Longrightarrow> traced st s \<Longrightarrow> traced st s'"
  using traced_fb_open [of st s P]
  by (auto simp: draw_logo_def fb_update_def fb_close_def Let_def bind_eq_Some_conv split: prod.splits option.splits
      intro!: traced_step traced_vt_set_mode)

lemma traced_load_image:
  assumes "load_565rle_image P fn st = Some (r, st')"
  shows "traced st st'"
proof -
  have t: "traced st (snd (vt_set_mode P True st))" by (rule traced_vt_set_mode) simp
  define Q where "Q x \<longleftrightarrow> (\<forall>r s'. x = Some (r, s') \<longrightarrow> traced st s')" for x :: "(int \<times> init_st) option"
  have leaf: "Q (Some (r, s))" if "traced st s" for r s using that by (simp add: Q_def)
  have drawn: "Q (draw_logo P fn fd n data s)" if "traced st s" for fd n data s
    using that by (auto simp: Q_def intro: traced_draw_logo)
  have "Q (load_565rle_image P fn st)"
    unfolding load_565rle_image_def run_simps case_prod_unfold fst_conv snd_conv
    by (intro if_both [where Q = Q] leaf drawn traced_step traced_vt_set_mode t)
  with assms show ?thesis by (simp add: Q_def)
qed

text \<open>The size of the screen and of the file are within the range of the 32-bit numbers of the code.\<close>

definition screen_ok :: "platform \<Rightarrow> bool" where
  "screen_ok P \<longleftrightarrow> (\<forall>t fd. case an_fds (os P t (Sys_ioctl fd ''FBIOGET_VSCREENINFO'' [])) of (x, y) \<Rightarrow>
     0 \<le> x \<and> 0 \<le> y \<and> x * y < 2 ^ 31)"

definition file_sizes_ok :: "platform \<Rightarrow> bool" where
  "file_sizes_ok P \<longleftrightarrow> (\<forall>t fd. 0 \<le> an_size (os P t (Sys_fstat fd)) \<and> an_size (os P t (Sys_fstat fd)) < 2 ^ 32)"

lemma length_shorts: "length (shorts m) = length m div 2"
  by (induction m rule: shorts.induct) auto

lemma fb_open_pixels:
  assumes "screen_ok P" "fb_open P st = (Some fb, st')"
  shows "length (fb_bits fb) = unat (fb_xres fb * fb_yres fb)"
proof -
  define Q where "Q r \<longleftrightarrow> (\<forall>fb. fst r = Some fb \<longrightarrow> (\<exists>t fd.
      fb_xres fb = of_int (fst (an_fds (os P t (Sys_ioctl fd ''FBIOGET_VSCREENINFO'' [])))) \<and>
      fb_yres fb = of_int (snd (an_fds (os P t (Sys_ioctl fd ''FBIOGET_VSCREENINFO'' [])))) \<and>
      length (fb_bits fb) = unat (fb_size (fb_xres fb) (fb_yres fb)) div 2))" for r :: "FB option \<times> init_st"
  have none: "Q (None, s)" for s by (simp add: Q_def)
  have opened: "Q (Some \<lparr>fb_bits = shorts (take n (m @ replicate n NUL)), fb_fd = fd, fb_xres = x, fb_yres = y\<rparr>, s)"
    if "x = of_int (fst (an_fds (os P t (Sys_ioctl fd ''FBIOGET_VSCREENINFO'' []))))"
      "y = of_int (snd (an_fds (os P t (Sys_ioctl fd ''FBIOGET_VSCREENINFO'' []))))" "n = unat (fb_size x y)" for n m fd t x y s
  proof -
    have "length (take n (m @ replicate n NUL)) = n" by (simp only: length_take length_append length_replicate)
    then have "length (shorts (take n (m @ replicate n NUL))) = n div 2" by (simp only: length_shorts)
    with that show ?thesis unfolding Q_def by (auto simp del: take_append)
  qed
  have "Q (fb_open P st)"
    unfolding fb_open_def run_simps case_prod_unfold fst_conv snd_conv
    by (intro if_both [where Q = Q] none) (rule opened; rule refl)
  then obtain t fd where i: "fb_xres fb = of_int (fst (an_fds (os P t (Sys_ioctl fd ''FBIOGET_VSCREENINFO'' []))))"
      "fb_yres fb = of_int (snd (an_fds (os P t (Sys_ioctl fd ''FBIOGET_VSCREENINFO'' []))))"
      "length (fb_bits fb) = unat (fb_size (fb_xres fb) (fb_yres fb)) div 2"
    unfolding Q_def assms(2) fst_conv by blast
  obtain x y where xy: "an_fds (os P t (Sys_ioctl fd ''FBIOGET_VSCREENINFO'' [])) = (x, y)" by force
  have "case an_fds (os P t (Sys_ioctl fd ''FBIOGET_VSCREENINFO'' [])) of (x, y) \<Rightarrow> 0 \<le> x \<and> 0 \<le> y \<and> x * y < 2 ^ 31"
    by (rule assms(1) [unfolded screen_ok_def, THEN spec, THEN spec])
  with xy i have x: "0 \<le> x" "0 \<le> y" "x * y < 2 ^ 31" "fb_xres fb = of_int x" "fb_yres fb = of_int y"
    and b: "length (fb_bits fb) = unat (fb_size (of_int x) (of_int y)) div 2" by simp_all
  have p: "0 \<le> x * y" using x(1,2) by simp
  have u: "unat (of_int (x * y) :: 32 word) = nat (x * y)" "unat (of_int (x * y * 2) :: 32 word) = nat (x * y * 2)"
    using p x(3) take_bit_int_eq_self [of "x * y" 32] take_bit_int_eq_self [of "x * y * 2" 32]
    by (simp_all add: unsigned_of_int del: of_int_mult)
  then show ?thesis using b x by (simp add: fb_size_def nat_mult_distrib)
qed

text \<open>
  Loading a logo always returns, whatever the file holds: with a screen and a file of a size
  within the range of the numbers of the code, no access leaves the mapped memory, and nothing but
  the screen, the console mode and the file is touched.
\<close>

lemma logo_load_safe:
  assumes "screen_ok P" "file_sizes_ok P"
  shows "\<exists>r st'. load_565rle_image P fn st = Some (r, st') \<and> traced st st'"
proof -
  have draw: "draw_logo P fn fd n data s \<noteq> None" if "length data = nat n" "0 \<le> n" "n < 2 ^ 32" for fd n data s
  proof (cases "fst (fb_open P s)")
    case None
    then show ?thesis by (auto simp: draw_logo_def Let_def split: prod.split)
  next
    case (Some fb)
    obtain s' where fb: "fb_open P s = (Some fb, s')" using Some by (metis prod.collapse)
    have "unat (of_int n :: 32 word) = nat n" using take_bit_int_eq_self [OF that(2,3)] by (simp add: unsigned_of_int)
    then have "unat (of_int n :: 32 word) div 4 = length (runs (shorts data))" by (simp add: length_runs that(1))
    from rle_loop_draws [OF this, of 0 "fb_xres fb * fb_yres fb" "fb_bits fb"] fb_open_pixels [OF assms(1) fb]
    show ?thesis by (simp add: draw_logo_def fb Let_def)
  qed
  moreover have "0 \<le> an_size (os P t (Sys_fstat fd))" "an_size (os P t (Sys_fstat fd)) < 2 ^ 32" for t fd
    using assms(2) by (simp_all add: file_sizes_ok_def)
  ultimately have "load_565rle_image P fn st \<noteq> None"
    unfolding load_565rle_image_def run_simps case_prod_unfold
    by (intro if_both [where Q = "\<lambda>x. x \<noteq> None"] draw) simp_all
  then show ?thesis using traced_load_image by fast
qed

lemma logo_load_safe_witness:
  "\<exists>r st'. load_565rle_image example_platform ''/initlogo.rle'' init_st0 = Some (r, st') \<and> traced init_st0 st'"
  by (rule logo_load_safe) (simp_all add: screen_ok_def file_sizes_ok_def example_platform_def example_os_def ok_answer_def)

end
