(* ===== verification/Init_Main.thy ===== *)
theory Init_Main
  imports Keychords Signal Logo
begin

text \<open>
  The rest of \<open>init.c\<close>: the execution of commands, the actions that \<open>main\<close> queues itself, the
  kernel command line, and \<open>main\<close> with its boot sequence and its endless loop.  \<open>main\<close> is read for
  the case that the program was not started under the name \<open>ueventd\<close>, without \<open>HAVE_SELINUX\<close> and
  \<open>BOOTCHART\<close>, and with the default value of \<open>BOARD_CHARGING_CMDLINE_NAME\<close>.

  \<open>None\<close> stands for undefined behaviour and for a call that does not return, and \<open>running\<close> skips what
  follows the exit of the process.
\<close>

subsection \<open>Executing commands\<close>

definition get_first_command :: "action \<Rightarrow> nat option" where
  "get_first_command act = (if act_commands act = [] then None else Some 0)"

definition get_next_command :: "action \<Rightarrow> nat \<Rightarrow> nat option" where
  "get_next_command act cmd = (if cmd + 1 < length (act_commands act) then Some (cmd + 1) else None)"

definition is_last_command :: "action \<Rightarrow> nat \<Rightarrow> bool" where
  "is_last_command act cmd \<longleftrightarrow> cmd + 1 = length (act_commands act)"

definition wait_for_coldboot_done_action :: "platform \<Rightarrow> init_st \<Rightarrow> result" where
  "wait_for_coldboot_done_action P st = wait_for_file P coldboot_done COMMAND_RETRY_TIMEOUT st"

definition keychord_init_action :: "platform \<Rightarrow> init_st \<Rightarrow> result" where
  "keychord_init_action P st = Some (0, keychord_init P st)"

definition probe_console :: "platform \<Rightarrow> init_st \<Rightarrow> init_st" where
  "probe_console P st =
     (let st = (if console st \<noteq> [] then st\<lparr>console_name := clip (PROP_VALUE_MAX P) (''/dev/'' @ console st)\<rparr> else st);
          (f, st) = sys P (Sys_open (console_name st) [O_RDWR] 0) st; fd = an_ret f;
          st = (if 0 \<le> fd then st\<lparr>have_console := True\<rparr> else st)
      in perform P (Sys_close fd) st)"

definition console_message :: "platform \<Rightarrow> init_st \<Rightarrow> init_st" where
  "console_message P st =
     (let (f, st) = sys P (Sys_open ''/dev/tty0'' [O_WRONLY] 0) st; fd = an_ret f in
      if 0 \<le> fd
      then perform P (Sys_close fd) (perform P (Sys_write fd (''c o n o l e   s t a r t  . . .'' @ [NL])) st)
      else st)"

definition console_init_action :: "platform \<Rightarrow> init_st \<Rightarrow> result" where
  "console_init_action P st =
     do {
       (r, st) \<leftarrow> load_565rle_image P ''/initlogo.rle'' (probe_console P st);
       Some (0, if r \<noteq> 0 then console_message P st else st)
     }"

definition property_service_init_action :: "platform \<Rightarrow> init_st \<Rightarrow> result" where
  "property_service_init_action P st = map_option (Pair 0) (start_property_service P st)"

definition signal_init_action :: "platform \<Rightarrow> init_st \<Rightarrow> result" where
  "signal_init_action P st = map_option (Pair 0) (signal_init P st)"

definition check_startup_action :: "platform \<Rightarrow> init_st \<Rightarrow> result" where
  "check_startup_action P st =
     (if property_set_fd st < 0 \<or> get_signal_fd st < 0
      then Some (1, (perform P (Sys_exit 1) st)\<lparr>exited := Some 1\<rparr>)
      else Some (0, perform P (Sys_unlink ''/dev/.booting'') st))"

definition queue_property_triggers_action :: "platform \<Rightarrow> init_st \<Rightarrow> result" where
  "queue_property_triggers_action P st =
     Some (0, (queue_all_property_triggers P st)\<lparr>property_triggers_enabled := True\<rparr>)"

text \<open>The call through the function pointer of a command, the actions of \<open>main\<close> included.\<close>

definition init_action :: "builtin \<Rightarrow> (platform \<Rightarrow> init_st \<Rightarrow> result) option" where
  "init_action f = (case f of
      F_wait_for_coldboot_done_action \<Rightarrow> Some wait_for_coldboot_done_action
    | F_keychord_init_action \<Rightarrow> Some keychord_init_action
    | F_console_init_action \<Rightarrow> Some console_init_action
    | F_property_service_init_action \<Rightarrow> Some property_service_init_action
    | F_signal_init_action \<Rightarrow> Some signal_init_action
    | F_check_startup_action \<Rightarrow> Some check_startup_action
    | F_queue_property_triggers_action \<Rightarrow> Some queue_property_triggers_action
    | _ \<Rightarrow> None)"

definition run_command :: "platform \<Rightarrow> command \<Rightarrow> init_st \<Rightarrow> (int \<times> string list \<times> init_st) option" where
  "run_command P cmd st =
     (case init_action (cmd_func cmd) of
        Some f \<Rightarrow> map_option (\<lambda>(r, st). (r, cmd_args cmd, st)) (f P st)
      | None \<Rightarrow> run_builtin P (cmd_func cmd) (cmd_nargs cmd) (cmd_args cmd) st)"

text \<open>The choice of the next command, then its call; it may overwrite its arguments.\<close>

definition next_action :: "init_st \<Rightarrow> init_st" where
  "next_action st =
     (let (a, st) = action_remove_queue_head st;
          st = st\<lparr>cur_action := a, cur_command := None\<rparr>
      in (case a of None \<Rightarrow> st | Some a \<Rightarrow> st\<lparr>cur_command := get_first_command (action_list st ! a)\<rparr>))"

definition select_command :: "init_st \<Rightarrow> init_st" where
  "select_command st =
     (case (cur_action st, cur_command st) of
        (Some a, Some c) \<Rightarrow>
          if is_last_command (action_list st ! a) c then next_action st
          else st\<lparr>cur_command := get_next_command (action_list st ! a) c\<rparr>
      | _ \<Rightarrow> next_action st)"

definition set_command_args :: "nat \<Rightarrow> nat \<Rightarrow> string list \<Rightarrow> init_st \<Rightarrow> init_st" where
  "set_command_args a c args st =
     st\<lparr>action_list := upd_nth a (\<lambda>act. act\<lparr>act_commands :=
          upd_nth c (\<lambda>cmd. cmd\<lparr>cmd_args := args\<rparr>) (act_commands act)\<rparr>) (action_list st)\<rparr>"

definition execute_one_command :: "platform \<Rightarrow> init_st \<Rightarrow> init_st option" where
  "execute_one_command P st =
     (let st = select_command st in
      case (cur_action st, cur_command st) of
        (Some a, Some c) \<Rightarrow>
          do {
            (ret, args, st) \<leftarrow> run_command P (act_commands (action_list st ! a) ! c) st;
            Some (set_command_args a c args st)
          }
      | _ \<Rightarrow> Some st)"

subsection \<open>The kernel command line\<close>

text \<open>
  The length of the name is taken before the equals sign is replaced, so it is the length of the
  whole word.
\<close>

definition import_kernel_nv :: "platform \<Rightarrow> string \<Rightarrow> bool \<Rightarrow> init_st \<Rightarrow> init_st" where
  "import_kernel_nv P word for_emulator st =
     (case split_first (CHR ''='') word of
        None \<Rightarrow> st
      | Some (name, value) \<Rightarrow>
          let name_len = length word in
          if name_len = 0 then st
          else if for_emulator then
            (let buff = ''ro.kernel.'' @ name in
             if length buff < PROP_NAME_MAX P then snd (property_set P buff value st) else st)
          else if name = ''qemu'' then st\<lparr>qemu := clip 32 value\<rparr>
          else if name = ''androidboot.emmc'' then (if value = ''true'' then st\<lparr>emmc_boot := True\<rparr> else st)
          else if name = ''androidboot.battchg_pause'' then st\<lparr>battchg_pause := clip 32 value\<rparr>
          else if has_prefix ''androidboot.'' name \<and> 12 < name_len then
            (let prop = ''ro.boot.'' @ drop 12 name in
             if length prop < PROP_NAME_MAX P then snd (property_set P prop value st) else st)
          else st)"

definition prop_map :: "(string \<times> string \<times> string) list" where
  "prop_map =
     [(''ro.boot.serialno'', ''ro.serialno'', []),
      (''ro.boot.mode'', ''ro.bootmode'', ''unknown''),
      (''ro.boot.baseband'', ''ro.baseband'', ''unknown''),
      (''ro.boot.bootloader'', ''ro.bootloader'', ''unknown'')]"

text \<open>Without \<open>ro.bootmode\<close> a null pointer is copied.\<close>

definition export_kernel_boot_props :: "platform \<Rightarrow> init_st \<Rightarrow> init_st option" where
  "export_kernel_boot_props P st =
     do {
       let put = (\<lambda>name value st. snd (property_set P name value st));
       let st = fold (\<lambda>(src, dest, def) st.
                  put dest (case property_get P src st of Some v \<Rightarrow> v | None \<Rightarrow> def) st) prop_map st;
       let st = (case property_get P ''ro.boot.console'' st of
                   Some v \<Rightarrow> st\<lparr>console := clip 32 v\<rparr> | None \<Rightarrow> st);
       mode \<leftarrow> property_get P ''ro.bootmode'' st;
       let st = st\<lparr>bootmode := clip 32 mode\<rparr>;
       let st = (case property_get P ''ro.boot.hardware'' st of
                   Some v \<Rightarrow> st\<lparr>hardware := clip 32 v\<rparr> | None \<Rightarrow> st);
       let st = put ''ro.hardware'' (hardware st) st;
       let st = put ''ro.revision'' (clip (PROP_VALUE_MAX P) (show_int (sint (revision st)))) st;
       let st = put ''ro.emmc'' (if emmc_boot st then ''1'' else ''0'') st;
       let st = put ''ro.boot.emmc'' (if emmc_boot st then ''1'' else ''0'') st;
       Some (put ''ro.factorytest''
              (if bootmode st = ''factory'' then ''1'' else if bootmode st = ''factory2'' then ''2'' else ''0'') st)
     }"

definition process_kernel_cmdline :: "platform \<Rightarrow> init_st \<Rightarrow> init_st option" where
  "process_kernel_cmdline P st =
     (let st = perform P (Sys_chmod ''/proc/cmdline'' 0x120) st;
          st = import_kernel_cmdline P False (import_kernel_nv P) st;
          st = (if qemu st \<noteq> [] then import_kernel_cmdline P True (import_kernel_nv P) st else st)
      in export_kernel_boot_props P st)"

text \<open>The file that says whether the device boots to charge its battery; it stays open if it is empty.\<close>

definition charging_mode_booting :: "platform \<Rightarrow> init_st \<Rightarrow> bool \<times> init_st" where
  "charging_mode_booting P st =
     (case charging_mode_lpm P of
        None \<Rightarrow> (False, st)
      | Some path \<Rightarrow>
          let (f, st) = sys P (Sys_open path [O_RDONLY] 0) st in
          if an_ret f < 0 then (False, st)
          else
            let (r, st) = sys P (Sys_read (an_ret f) 1) st in
            if an_ret r \<noteq> 1 then (False, st)
            else (got r = ''1'', perform P (Sys_close (an_ret f)) st))"

subsection \<open>Booting\<close>

definition running :: "(init_st \<Rightarrow> init_st option) \<Rightarrow> init_st \<Rightarrow> init_st option" where
  "running f st = (if exited st = None then f st else Some st)"

definition setup_filesystems :: "platform \<Rightarrow> init_st \<Rightarrow> init_st" where
  "setup_filesystems P st =
     (let st = fold (perform P)
            [Sys_umask 0, Sys_mkdir ''/dev'' 0x1ED, Sys_mkdir ''/proc'' 0x1ED, Sys_mkdir ''/sys'' 0x1ED,
             Sys_mount ''tmpfs'' ''/dev'' ''tmpfs'' MS_NOSUID (Some ''mode=0755''),
             Sys_mkdir ''/dev/pts'' 0x1ED, Sys_mkdir ''/dev/socket'' 0x1ED,
             Sys_mount ''devpts'' ''/dev/pts'' ''devpts'' 0 None,
             Sys_mount ''proc'' ''/proc'' ''proc'' 0 None,
             Sys_mount ''sysfs'' ''/sys'' ''sysfs'' 0 None] st;
          (f, st) = sys P (Sys_open ''/dev/.booting'' [O_WRONLY, O_CREAT] 0) st
      in perform P (Sys_close (an_ret f)) st)"

definition parse_optional :: "platform \<Rightarrow> string \<Rightarrow> init_st \<Rightarrow> init_st option" where
  "parse_optional P fn st =
     (let (a, st) = sys P (Sys_access fn) st in
      if an_ret a = 0 then map_option snd (init_parse_config_file P fn st) else Some st)"

definition read_configuration :: "platform \<Rightarrow> bool \<Rightarrow> init_st \<Rightarrow> init_st option" where
  "read_configuration P is_charger st =
     do {
       let st = (if \<not> is_charger then property_load_boot_defaults P st else st);
       let (lpm, st) = charging_mode_booting P st;
       (r, st) \<leftarrow> init_parse_config_file P (if \<not> lpm then ''/init.rc'' else ''/lpm.rc'') st;
       st \<leftarrow> (if emmc_boot st then parse_optional P ''/init.emmc.rc'' st else Some st);
       parse_optional P ''/init.target.rc'' st
     }"

definition queue_boot_actions :: "bool \<Rightarrow> init_st \<Rightarrow> init_st" where
  "queue_boot_actions is_charger st =
     (let trigger = (\<lambda>t. action_for_each_trigger t action_add_queue_tail);
          st = trigger ''early-init'' st;
          st = queue_builtin_action F_wait_for_coldboot_done_action ''wait_for_coldboot_done'' st;
          st = queue_builtin_action F_keychord_init_action ''keychord_init'' st;
          st = queue_builtin_action F_console_init_action ''console_init'' st;
          st = trigger ''init'' st;
          st = (if \<not> is_charger
                then trigger ''post-fs-data'' (trigger ''post-fs''
                       (trigger (if emmc_boot st then ''emmc-fs'' else ''fs'') (trigger ''early-fs'' st)))
                else st);
          st = queue_builtin_action F_property_service_init_action ''property_service_init'' st;
          st = queue_builtin_action F_signal_init_action ''signal_init'' st;
          st = queue_builtin_action F_check_startup_action ''check_startup'' st;
          st = (if is_charger \<or> battchg_pause st = ''true'' then trigger ''charger'' st
                else trigger ''boot'' (trigger ''early-boot'' st))
      in queue_builtin_action F_queue_property_triggers_action ''queue_property_triggers'' st)"

definition main_boot :: "platform \<Rightarrow> init_st \<Rightarrow> init_st option" where
  "main_boot P st =
     running (\<lambda>st.
       do {
         let st = property_init P (perform P Sys_klog_init st);
         st \<leftarrow> process_kernel_cmdline P (get_hardware_name P st);
         running (\<lambda>st.
           do {
             let is_charger = (bootmode st = ''charger'');
             st \<leftarrow> read_configuration P is_charger st;
             Some (queue_boot_actions is_charger st)
           }) st
       })
     (open_devnull_stdio P (setup_filesystems P st))"

subsection \<open>The loop\<close>

record loop_st =
  ufds :: "int list"
  property_set_fd_init :: bool
  signal_fd_init :: bool
  keychord_fd_init :: bool

definition loop_st0 :: loop_st where
  "loop_st0 = \<lparr>ufds = [], property_set_fd_init = False, signal_fd_init = False, keychord_fd_init = False\<rparr>"

text \<open>The array of descriptors to wait for has room for four.\<close>

definition register_fds :: "init_st \<Rightarrow> loop_st \<Rightarrow> loop_st" where
  "register_fds st ls =
     (let ls = (if \<not> property_set_fd_init ls \<and> 0 < property_set_fd st
                then ls\<lparr>ufds := ufds ls @ [property_set_fd st], property_set_fd_init := True\<rparr> else ls);
          ls = (if \<not> signal_fd_init ls \<and> 0 < get_signal_fd st
                then ls\<lparr>ufds := ufds ls @ [get_signal_fd st], signal_fd_init := True\<rparr> else ls)
      in if \<not> keychord_fd_init ls \<and> 0 < get_keychord_fd st
         then ls\<lparr>ufds := ufds ls @ [get_keychord_fd st], keychord_fd_init := True\<rparr> else ls)"

definition poll_timeout :: "platform \<Rightarrow> init_st \<Rightarrow> int \<times> init_st" where
  "poll_timeout P st =
     (let (timeout, st) =
            (if process_needs_restart st \<noteq> 0 then
               let (now, st) = gettime P st;
                   timeout = (process_needs_restart st - now) * 1000
               in (if timeout < 0 then 0 else timeout, st)
             else (- 1, st))
      in (if \<not> action_queue_empty st \<or> cur_action st \<noteq> None then 0 else timeout, st))"

abbreviation (input) POLLIN :: int where "POLLIN \<equiv> 1"

definition handle_event :: "platform \<Rightarrow> int \<times> int \<Rightarrow> init_st \<Rightarrow> init_st option" where
  "handle_event P = (\<lambda>(fd, revents) st.
     if revents = POLLIN then
       if fd = property_set_fd st then handle_property_set_fd P st
       else if fd = get_keychord_fd st then Some (handle_keychord P st)
       else if fd = get_signal_fd st then handle_signal P st
       else Some st
     else Some st)"

fun handle_events :: "platform \<Rightarrow> (int \<times> int) list \<Rightarrow> init_st \<Rightarrow> init_st option" where
  "handle_events P [] st = Some st"
| "handle_events P (e # es) st = do { st \<leftarrow> running (handle_event P e) st; handle_events P es st }"

definition poll_events :: "int list \<Rightarrow> answer \<Rightarrow> (int \<times> int) list" where
  "poll_events fds p = zip fds (map of_char (an_data p @ replicate (length fds) NUL))"

definition main_wait :: "platform \<Rightarrow> loop_st \<Rightarrow> init_st \<Rightarrow> init_st option" where
  "main_wait P ls st =
     (let (timeout, st) = poll_timeout P st;
          (p, st) = sys P (Sys_poll (ufds ls) timeout) st
      in if an_ret p \<le> 0 then Some st else handle_events P (poll_events (ufds ls) p) st)"

definition main_step :: "platform \<Rightarrow> init_st \<times> loop_st \<Rightarrow> (init_st \<times> loop_st) option" where
  "main_step P = (\<lambda>(st, ls).
     do {
       st \<leftarrow> execute_one_command P st;
       st \<leftarrow> running (\<lambda>st. Some (restart_processes P st)) st;
       let ls = register_fds st ls;
       st \<leftarrow> running (main_wait P ls) st;
       Some (st, ls)
     })"

subsection \<open>Commands keep the invariant\<close>

lemma step_queue_all [step_intros]: "step_ok P st s \<Longrightarrow> step_ok P st (queue_all_property_triggers P s)"
  unfolding queue_all_eq by (rule step_select)

lemma step_console_init:
  assumes "console_init_action P s = Some (r, s')" "step_ok P st s"
  shows "step_ok P st s'"
proof -
  have s0: "step_ok P st (if console s \<noteq> [] then s\<lparr>console_name := x\<rparr> else s)" for x
    using assms(2) by (auto elim: step_same)
  have h: "step_ok P st s \<Longrightarrow> step_ok P st (s\<lparr>have_console := True\<rparr>)" for s by (erule step_same) simp_all
  have "step_ok P st (probe_console P s)" unfolding probe_console_def run_simps case_prod_conv by (intro step_intros h s0)
  then have image: "step_ok P st s1" if "load_565rle_image P fn (probe_console P s) = Some (n, s1)" for fn n s1
    using that by (blast intro: step_traced traced_load_image)
  have "step_ok P st (console_message P s1)" if "step_ok P st s1" for s1
    unfolding console_message_def run_simps case_prod_conv by (intro step_intros that)
  with image assms(1) show ?thesis by (auto simp: console_init_action_def bind_eq_Some_conv)
qed

lemma step_startup_actions:
  assumes "step_ok P st s"
  shows "wait_for_coldboot_done_action P s = Some (r, s') \<Longrightarrow> step_ok P st s'"
    "keychord_init_action P s = Some (r, s') \<Longrightarrow> step_ok P st s'"
    "property_service_init_action P s = Some (r, s') \<Longrightarrow> step_ok P st s'"
    "signal_init_action P s = Some (r, s') \<Longrightarrow> step_ok P st s'"
    "check_startup_action P s = Some (r, s') \<Longrightarrow> step_ok P st s'"
    "queue_property_triggers_action P s = Some (r, s') \<Longrightarrow> step_ok P st s'"
proof -
  show "wait_for_coldboot_done_action P s = Some (r, s') \<Longrightarrow> step_ok P st s'"
    using assms by (auto simp: wait_for_coldboot_done_action_def intro: step_traced dest: traced_wait_for_file)
  show "keychord_init_action P s = Some (r, s') \<Longrightarrow> step_ok P st s'"
    using assms by (auto simp: keychord_init_action_def intro: step_keychord_init)
  show "property_service_init_action P s = Some (r, s') \<Longrightarrow> step_ok P st s'"
    using assms by (auto simp: property_service_init_action_def intro: load.after_start_property_service)
  show "signal_init_action P s = Some (r, s') \<Longrightarrow> step_ok P st s'"
    using assms by (auto simp: signal_init_action_def intro: step_signal_init)
  show "check_startup_action P s = Some (r, s') \<Longrightarrow> step_ok P st s'"
    using assms by (auto simp: check_startup_action_def split: if_splits intro!: step_perform step_exited)
  show "queue_property_triggers_action P s = Some (r, s') \<Longrightarrow> step_ok P st s'"
    using step_queue_all [OF assms] by (auto simp: queue_property_triggers_action_def elim: step_same)
qed

lemma step_init_action:
  assumes "init_action f = Some g" "g P s = Some (r, s')" "step_ok P st s"
  shows "step_ok P st s'"
proof -
  have "g \<in> {wait_for_coldboot_done_action, keychord_init_action, console_init_action, property_service_init_action,
      signal_init_action, check_startup_action, queue_property_triggers_action}"
    using assms(1) by (cases f) (simp_all add: init_action_def)
  then show ?thesis using assms(2) step_startup_actions [OF assms(3)] step_console_init [OF _ assms(3)] by blast
qed

lemma step_run_command:
  assumes "run_command P cmd s = Some (r, args, s')" "step_ok P st s"
  shows "step_ok P st s' \<and> length args = length (cmd_args cmd)"
proof (cases "init_action (cmd_func cmd)")
  case None
  then show ?thesis using assms step_run_builtin by (simp add: run_command_def)
next
  case (Some g)
  then show ?thesis using assms step_init_action [OF Some] by (auto simp: run_command_def)
qed

lemma act_static_commands: "act_static a = act_static a' \<Longrightarrow> map cmd_static (act_commands a) = map cmd_static (act_commands a')"
proof -
  assume "act_static a = act_static a'"
  moreover have "act_commands (act_static x) = map cmd_static (act_commands x)" for x by (simp add: act_static_def)
  ultimately show ?thesis by metis
qed

lemma act_static_ok: "act_static a = act_static a' \<Longrightarrow> act_ok a = act_ok a'"
proof -
  assume s: "act_static a = act_static a'"
  have "(cmd_ok x \<or> is_init_action (cmd_func x)) = (cmd_ok y \<or> is_init_action (cmd_func y))"
    if "cmd_static x = cmd_static y" for x y
    using cmd_static_ok [OF that] cmd_static_fields(1) [OF that] by simp
  from list_all_static [of cmd_static, OF this act_static_commands [OF s]] show ?thesis by (simp add: act_ok_def)
qed

lemma act_static_length: "act_static a = act_static a' \<Longrightarrow> length (act_commands a) = length (act_commands a')"
  by (metis act_static_commands length_map)

lemma step_actions:
  assumes "step_ok P st s" "map act_static acts = map act_static (action_list s)"
  shows "step_ok P st (s\<lparr>action_list := acts\<rparr>)"
proof (rule step_ok_trans [OF assms(1)])
  let ?s = "s\<lparr>action_list := acts\<rparr>"
  have len: "length acts = length (action_list s)" using assms(2) by (metis length_map)
  have nth: "length (act_commands (acts ! a)) = length (act_commands (action_list s ! a))" if "a < length acts" for a
    by (rule act_static_length) (metis assms(2) len nth_map that)
  have "list_all act_ok acts = list_all act_ok (action_list s)"
    by (rule list_all_static [OF act_static_ok assms(2)])
  moreover have "queue_ok ?s = queue_ok s" by (simp add: queue_ok_def len)
  moreover have "cur_ok s \<Longrightarrow> cur_ok ?s" using nth by (auto simp: cur_ok_def len split: option.splits)
  moreover have "area_inv P ?s = area_inv P s" by (rule area_inv_same) simp_all
  moreover have "pmap ?s = pmap s" by (simp add: pmap_def)
  ultimately show "step_ok P s ?s" using assms(2) by (simp add: step_ok_def init_inv_def ro_kept_def)
qed

lemma step_set_command_args:
  assumes "step_ok P st s"
    and "a < length (action_list s) \<Longrightarrow> c < length (act_commands (action_list s ! a)) \<Longrightarrow>
      length args = length (cmd_args (act_commands (action_list s ! a) ! c))"
  shows "step_ok P st (set_command_args a c args s)"
  unfolding set_command_args_def
proof (rule step_actions [OF assms(1)], rule map_upd_nth)
  assume a: "a < length (action_list s)"
  have "map cmd_static (upd_nth c (\<lambda>cmd. cmd\<lparr>cmd_args := args\<rparr>) (act_commands (action_list s ! a))) =
      map cmd_static (act_commands (action_list s ! a))"
    by (rule map_upd_nth) (simp add: cmd_static_args assms(2) [OF a])
  then show "act_static ((action_list s ! a)\<lparr>act_commands := upd_nth c (\<lambda>cmd. cmd\<lparr>cmd_args := args\<rparr>)
      (act_commands (action_list s ! a))\<rparr>) = act_static (action_list s ! a)"
    by (simp add: act_static_def)
qed

text \<open>The choice of the next command.\<close>

lemma next_action_cases:
  obtains "action_queue s = []" "next_action s = s\<lparr>cur_action := None, cur_command := None\<rparr>"
  | a q where "action_queue s = a # q"
      "next_action s = s\<lparr>action_queue := q, cur_action := Some a, cur_command := get_first_command (action_list s ! a)\<rparr>"
  by (cases "action_queue s") (auto simp: next_action_def action_remove_queue_head_def)

lemma step_cur:
  assumes "step_ok P st s" "cur_ok s \<Longrightarrow> queue_ok s \<Longrightarrow> cur_ok s' \<and> queue_ok s'"
    and "service_list s' = service_list s" "action_list s' = action_list s" "props s' = props s" "pa_toc s' = pa_toc s"
      "pa_mapped s' = pa_mapped s"
  shows "step_ok P st s'"
proof (rule step_ok_trans [OF assms(1)])
  have "area_inv P s' = area_inv P s" using assms(5-7) by (rule area_inv_same)
  moreover have "pmap s' = pmap s" using assms(5) by (rule pmap_cong)
  ultimately show "step_ok P s s'" using assms(2-4) by (simp add: step_ok_def init_inv_def ro_kept_def)
qed

lemma step_next_action: "step_ok P st s \<Longrightarrow> step_ok P st (next_action s)"
  by (cases s rule: next_action_cases)
     (erule step_cur; auto simp: cur_ok_def queue_ok_def get_first_command_def split: option.splits)+

lemma step_select_command: "step_ok P st s \<Longrightarrow> step_ok P st (select_command s)"
  unfolding select_command_def
  by (auto split: option.split simp: step_next_action
      elim!: step_cur simp: cur_ok_def queue_ok_def get_next_command_def)

lemma step_execute_one_command:
  assumes "execute_one_command P s = Some s'" "step_ok P st s"
  shows "step_ok P st s'"
proof (cases "init_inv P st")
  case True
  define s1 where "s1 = select_command s"
  have s1: "step_ok P st s1" unfolding s1_def by (rule step_select_command [OF assms(2)])
  show ?thesis
  proof (cases "cur_action s1 \<noteq> None \<and> cur_command s1 \<noteq> None")
    case False
    then have "s' = s1" using assms(1) by (auto simp: execute_one_command_def Let_def s1_def [symmetric] split: option.splits)
    then show ?thesis using s1 by simp
  next
    case cur: True
    then obtain a c where ac: "cur_action s1 = Some a" "cur_command s1 = Some c" by auto
    let ?cmd = "act_commands (action_list s1 ! a) ! c"
    obtain r args s2 where run: "run_command P ?cmd s1 = Some (r, args, s2)" and s': "s' = set_command_args a c args s2"
      using assms(1) ac by (auto simp: execute_one_command_def Let_def s1_def [symmetric] bind_eq_Some_conv)
    note s2 = step_run_command [OF run s1]
    have m: "map act_static (action_list s2) = map act_static (action_list s1)"
      using s1 s2 True by (simp add: step_ok_def)
    show ?thesis unfolding s'
    proof (rule step_set_command_args)
      show "step_ok P st s2" using s2 by simp
      assume a: "a < length (action_list s2)" and c: "c < length (act_commands (action_list s2 ! a))"
      have "act_static (action_list s2 ! a) = act_static (action_list s1 ! a)" using m a by (metis length_map nth_map)
      from act_static_commands [OF this] c
      have "cmd_static (act_commands (action_list s2 ! a) ! c) = cmd_static ?cmd" by (metis length_map nth_map)
      then show "length args = length (cmd_args (act_commands (action_list s2 ! a) ! c))"
        using s2 cmd_static_fields(3) by metis
    qed
  qed
qed (simp add: step_ok_def)

subsection \<open>The loop keeps the invariant\<close>

lemma step_running:
  assumes "running f s = Some s'" "step_ok P st s" "\<And>s s'. f s = Some s' \<Longrightarrow> step_ok P st s \<Longrightarrow> step_ok P st s'"
  shows "step_ok P st s'"
  using assms by (auto simp: running_def split: if_splits)

lemma step_handle_event: "handle_event P e s = Some s' \<Longrightarrow> step_ok P st s \<Longrightarrow> step_ok P st s'"
  by (auto simp: handle_event_def split: prod.splits if_splits
      intro: step_property_set_fd step_handle_signal step_handle_keychord)

lemma step_handle_events: "handle_events P es s = Some s' \<Longrightarrow> step_ok P st s \<Longrightarrow> step_ok P st s'"
  by (induction es arbitrary: s) (auto simp: bind_eq_Some_conv dest!: step_running intro: step_handle_event)

lemma poll_timeout_traced: "traced s (snd (poll_timeout P s))"
  by (simp add: poll_timeout_def gettime_split Let_def)

lemma step_main_wait:
  assumes "main_wait P ls s = Some s'" "step_ok P st s"
  shows "step_ok P st s'"
proof -
  obtain t s1 where t: "poll_timeout P s = (t, s1)" by force
  have "step_ok P st s1" using step_traced [OF assms(2) poll_timeout_traced] t by (metis snd_conv)
  then show ?thesis using assms(1)
    by (auto simp: main_wait_def t run_simps split: if_splits intro: step_perform step_handle_events)
qed

lemma step_main_step:
  assumes "main_step P (s, ls) = Some (s', ls')" "step_ok P st s"
  shows "step_ok P st s'"
proof -
  obtain s1 s2 where s: "execute_one_command P s = Some s1" "running (\<lambda>st. Some (restart_processes P st)) s1 = Some s2"
    "running (main_wait P (register_fds s2 ls)) s2 = Some s'"
    using assms(1) by (auto simp: main_step_def Let_def bind_eq_Some_conv)
  have "step_ok P st s1" by (rule step_execute_one_command [OF s(1) assms(2)])
  then have "step_ok P st s2" by (rule step_running [OF s(2)]) (auto intro: step_restart_processes)
  then show ?thesis by (rule step_running [OF s(3)]) (auto intro: step_main_wait)
qed

end
