(* ===== verification/Boot.thy ===== *)
theory Boot
  imports Init_Main
begin

text \<open>
  The boot sequence and the main loop as a whole: booting establishes the invariant, the loop
  keeps it in every reachable state and keeps init's promises, the boot actions are queued in
  their order, commands are executed first in first out, and init never sleeps while there is
  work to do.
\<close>

subsection \<open>Booting establishes the invariant\<close>

text \<open>What the variables of the boot sequence do not influence.\<close>

locale boot_client = property_client P R for P R +
  assumes after_console: "R s \<Longrightarrow> R (s\<lparr>console := x\<rparr>)"
    and after_bootmode: "R s \<Longrightarrow> R (s\<lparr>bootmode := x\<rparr>)"
    and after_hardware: "R s \<Longrightarrow> R (s\<lparr>hardware := x\<rparr>)"
    and after_revision: "R s \<Longrightarrow> R (s\<lparr>revision := n\<rparr>)"
    and after_qemu: "R s \<Longrightarrow> R (s\<lparr>qemu := x\<rparr>)"
    and after_battchg: "R s \<Longrightarrow> R (s\<lparr>battchg_pause := x\<rparr>)"
    and after_emmc: "R s \<Longrightarrow> R (s\<lparr>emmc_boot := b\<rparr>)"
begin

lemmas after_vars = after_console after_bootmode after_hardware after_revision after_qemu after_battchg after_emmc

lemma after_get_hardware: "R s \<Longrightarrow> R (get_hardware_name P s)"
  by (auto simp: get_hardware_name_def run_simps after_perform split: option.split intro!: after_vars after_perform)

lemma after_if: "(b \<Longrightarrow> R x) \<Longrightarrow> (\<not> b \<Longrightarrow> R y) \<Longrightarrow> R (if b then x else y)"
  by simp

lemma after_import_nv:
  assumes "R s"
  shows "R (import_kernel_nv P w b s)"
proof (cases "split_first (CHR ''='') w")
  case (Some p)
  then show ?thesis unfolding import_kernel_nv_def Let_def
    by (cases p) (simp only: option.case prod.case, intro after_if after_set after_vars assms)
qed (simp add: import_kernel_nv_def assms)

lemma after_import_cmdline: "R s \<Longrightarrow> R (import_kernel_cmdline P b (import_kernel_nv P) s)"
proof -
  have "R s \<Longrightarrow> R (fold (\<lambda>w. import_kernel_nv P w b) ws s)" for ws s
    by (induction ws arbitrary: s) (auto intro: after_import_nv)
  then show "R s \<Longrightarrow> R (import_kernel_cmdline P b (import_kernel_nv P) s)"
    by (auto simp: import_kernel_cmdline_def run_simps cmdline_loop_words after_perform)
qed

lemma after_prop_map: "R s \<Longrightarrow> R (fold (\<lambda>(src, dest, d) s. snd (property_set P dest (f src d s) s)) m s)"
  by (induction m arbitrary: s) (auto intro: after_set)

lemma after_export:
  assumes "export_kernel_boot_props P s = Some s'" "R s"
  shows "R s'"
proof -
  define s1 where "s1 = fold (\<lambda>(src, dest, def) st.
    snd (property_set P dest (case property_get P src st of Some v \<Rightarrow> v | None \<Rightarrow> def) st)) prop_map s"
  define s2 where "s2 = (case property_get P ''ro.boot.console'' s1 of Some v \<Rightarrow> s1\<lparr>console := clip 32 v\<rparr> | None \<Rightarrow> s1)"
  have "R s1" using after_prop_map [OF assms(2), of "\<lambda>src d st. case property_get P src st of Some v \<Rightarrow> v | None \<Rightarrow> d"]
    by (simp add: s1_def)
  then have s2: "R s2" by (auto simp: s2_def split: option.split intro: after_vars)
  obtain m where "property_get P ''ro.bootmode'' s2 = Some m"
    using assms(1) unfolding export_kernel_boot_props_def Let_def s1_def [symmetric] s2_def [symmetric]
    by (auto simp: bind_eq_Some_conv)
  then show ?thesis
    using assms(1) s2 unfolding export_kernel_boot_props_def Let_def s1_def [symmetric] s2_def [symmetric]
    by (auto split: option.splits intro!: after_set after_vars)
qed

lemma after_process_cmdline: "process_kernel_cmdline P s = Some s' \<Longrightarrow> R s \<Longrightarrow> R s'"
  by (auto simp: process_kernel_cmdline_def Let_def split: if_splits intro!: after_import_cmdline after_perform
      dest!: after_export)

end

definition boot_ok :: "platform \<Rightarrow> init_st \<Rightarrow> init_st \<Rightarrow> bool" where
  "boot_ok P st s \<longleftrightarrow> step_ok P st s \<and> cur_action s = None"

interpretation boot: boot_client P "boot_ok P st" for P st
proof
  fix s s' name v b fd x n
  assume b: "boot_ok P st s"
  then show "traced s s' \<Longrightarrow> boot_ok P st s'"
    by (auto simp: boot_ok_def traced_frame intro: step_traced)
  show "boot_ok P st (snd (property_set P name v s))"
    using b prop_frame_fields(5) [OF prop_frame_set] by (simp add: boot_ok_def step_set)
  have u: "step_ok P st s \<Longrightarrow> (\<And>s. service_list (f s) = service_list s \<and> action_list (f s) = action_list s \<and>
      action_queue (f s) = action_queue s \<and> queue_corrupt (f s) = queue_corrupt s \<and> props (f s) = props s \<and>
      pa_toc (f s) = pa_toc s \<and> pa_mapped (f s) = pa_mapped s \<and> cur_action (f s) = cur_action s \<and>
      cur_command (f s) = cur_command s) \<Longrightarrow> step_ok P st (f s)" for f
    by (erule step_same) simp_all
  show "boot_ok P st (s\<lparr>persistent_properties_loaded := b\<rparr>)" "boot_ok P st (s\<lparr>property_set_fd := fd\<rparr>)"
    "boot_ok P st (s\<lparr>console := x\<rparr>)" "boot_ok P st (s\<lparr>bootmode := x\<rparr>)" "boot_ok P st (s\<lparr>hardware := x\<rparr>)"
    "boot_ok P st (s\<lparr>revision := n\<rparr>)" "boot_ok P st (s\<lparr>qemu := x\<rparr>)" "boot_ok P st (s\<lparr>battchg_pause := x\<rparr>)"
    "boot_ok P st (s\<lparr>emmc_boot := b\<rparr>)" for b
    using b by (auto simp: boot_ok_def intro!: u)
qed

text \<open>If the property area could not be mapped, no property is ever set.\<close>

definition unmapped :: "platform \<Rightarrow> init_st \<Rightarrow> bool" where
  "unmapped P s \<longleftrightarrow> find_ok P \<and> \<not> pa_mapped s \<and> props s = []"

lemma unmapped_set: "unmapped P s \<Longrightarrow> unmapped P (snd (property_set P name v s))"
proof (induction P name v s rule: property_set.induct)
  case (1 P name v s)
  show ?case
  proof (cases "property_store P name v s")
    case (Some s1)
    have f: "find_ok P" "\<not> pa_mapped s" "props s = []" using 1(2) by (auto simp: unmapped_def)
    have "unmapped P s1" using Some f
      by (auto simp: property_store_def unmapped_def find_ok_def Let_def split: if_splits)
    moreover have "unmapped P (property_changed n w t)" if "unmapped P t" for n w t
      using that by (simp add: unmapped_def)
    moreover have "unmapped P (write_persistent_property P n w t)" if "unmapped P t" for n w t
      using that traced_frame [OF traced_write_persistent] by (simp add: unmapped_def)
    ultimately show ?thesis using 1(1) [OF Some] Some by (simp add: property_set.simps [of P name])
  qed (use 1(2) in \<open>simp add: property_set.simps [of P name]\<close>)
qed

interpretation unm: boot_client P "unmapped P" for P
  by unfold_locales (auto simp: unmapped_set, auto simp: unmapped_def traced_frame)

lemma unmapped_export: "unmapped P s \<Longrightarrow> export_kernel_boot_props P s = None"
proof -
  assume s: "unmapped P s"
  define s1 where "s1 = fold (\<lambda>(src, dest, def) st.
    snd (property_set P dest (case property_get P src st of Some v \<Rightarrow> v | None \<Rightarrow> def) st)) prop_map s"
  have "unmapped P s1"
    using unm.after_prop_map [OF s, of "\<lambda>src d st. case property_get P src st of Some v \<Rightarrow> v | None \<Rightarrow> d"] by (simp add: s1_def)
  then have "property_get P name s1 = None" for name by (auto simp: unmapped_def property_get_def find_ok_def)
  then show ?thesis unfolding export_kernel_boot_props_def Let_def s1_def [symmetric] by simp
qed

lemma unmapped_cmdline: "unmapped P s \<Longrightarrow> process_kernel_cmdline P s = None"
  by (simp add: process_kernel_cmdline_def Let_def unmapped_export unm.after_import_cmdline unm.after_perform)

text \<open>The parser only adds to the configuration.\<close>

definition erase_conf :: "init_st \<Rightarrow> init_st" where
  "erase_conf st = st\<lparr>service_list := [], action_list := [], trace := []\<rparr>"

definition conf_frame :: "init_st \<Rightarrow> init_st \<Rightarrow> bool" where
  "conf_frame st st' \<longleftrightarrow> erase_conf st' = erase_conf st \<and> length (action_list st) \<le> length (action_list st')"

lemma conf_frame_line:
  assumes "config_line P line nargs args (ctx, imps, s) = Some (ctx', imps', s')" "conf_frame st s"
  shows "conf_frame st s'"
proof -
  obtain kw where "parse_line P nargs args (ctx, imps, s) = Some (ctx', imps', s') \<or>
      parse_new_section P kw nargs args (ctx, imps, s) = Some (ctx', imps', s')"
    using assms(1) by (auto simp: config_line_def bind_eq_Some_conv Let_def parse_line_0 split: if_splits)
  then show ?thesis
  proof
    assume "parse_line P nargs args (ctx, imps, s) = Some (ctx', imps', s')"
    then show ?thesis using assms(2)
      by (auto simp: parse_line_def parse_line_service_def parse_line_action_def bind_eq_Some_conv Let_def
          conf_frame_def erase_conf_def upd_svc_def split: line_ctx.splits if_splits)
  next
    assume "parse_new_section P kw nargs args (ctx, imps, s) = Some (ctx', imps', s')"
    then show ?thesis using assms(2)
      by (auto simp: parse_new_section_def parse_service_def parse_action_def bind_eq_Some_conv
          conf_frame_def erase_conf_def split: if_splits)
  qed
qed

interpretation grow: parser_client P "conf_frame st" for P st
proof
  show "conf_frame st s \<Longrightarrow> traced s s' \<Longrightarrow> conf_frame st s'" for s s'
    by (auto simp: conf_frame_def erase_conf_def traced_def)
  show "config_line P line nargs args (ctx, imps, s) = Some (ctx', imps', s') \<Longrightarrow> nargs \<le> INIT_PARSER_MAXARGS \<Longrightarrow>
      conf_frame st s \<Longrightarrow> conf_frame st s'" for line nargs args ctx imps s ctx' imps' s'
    by (rule conf_frame_line)
qed

lemma conf_frame_refl: "conf_frame st st"
  by (simp add: conf_frame_def)

lemma conf_frame_fields:
  assumes "conf_frame st st'"
  shows "props st' = props st" "pa_toc st' = pa_toc st" "pa_mapped st' = pa_mapped st" "action_queue st' = action_queue st"
    "queue_corrupt st' = queue_corrupt st" "cur_action st' = cur_action st"
proof -
  have "props (erase_conf x) = props x" "pa_toc (erase_conf x) = pa_toc x" "pa_mapped (erase_conf x) = pa_mapped x"
    "action_queue (erase_conf x) = action_queue x" "queue_corrupt (erase_conf x) = queue_corrupt x"
    "cur_action (erase_conf x) = cur_action x" for x by (simp_all add: erase_conf_def)
  with assms show "props st' = props st" "pa_toc st' = pa_toc st" "pa_mapped st' = pa_mapped st" "action_queue st' = action_queue st"
    "queue_corrupt st' = queue_corrupt st" "cur_action st' = cur_action st" unfolding conf_frame_def by metis+
qed

text \<open>The state while the configuration is read.\<close>

definition conf_boot :: "platform \<Rightarrow> init_st \<Rightarrow> bool" where
  "conf_boot P st \<longleftrightarrow> area_inv P st \<and> conf_ok st \<and> queue_ok st \<and> cur_action st = None"

lemma conf_boot_traced: "conf_boot P st \<Longrightarrow> traced st st' \<Longrightarrow> conf_boot P st'"
  by (simp add: conf_boot_def conf_ok_def area_inv_def props_ok_def queue_ok_def traced_frame)

lemma conf_boot_file:
  assumes "init_parse_config_file P fn st = Some (r, st')" "conf_boot P st"
  shows "conf_boot P st'"
proof -
  have f: "conf_frame st st'" by (rule grow.keeps_file [OF assms(1) conf_frame_refl])
  note F = conf_frame_fields [OF f]
  have "conf_ok st'" using assms(2) conf.keeps_file [OF assms(1)] by (simp add: conf_boot_def)
  moreover have "area_inv P st' = area_inv P st" using F(1-3) by (rule area_inv_same)
  moreover have "queue_ok st \<Longrightarrow> queue_ok st'"
    using f F(4,5) by (auto simp: queue_ok_def conf_frame_def)
  ultimately show ?thesis using assms(2) F(6) by (simp add: conf_boot_def)
qed

lemma conf_boot_optional: "parse_optional P fn st = Some st' \<Longrightarrow> conf_boot P st \<Longrightarrow> conf_boot P st'"
  by (auto simp: parse_optional_def run_simps split: if_splits dest!: conf_boot_file
      intro: conf_boot_traced [OF _ traced_perform])

lemma conf_boot_inv: "conf_boot P st \<Longrightarrow> init_inv P st"
  using svc_fresh_run
  by (auto simp: conf_boot_def init_inv_def conf_ok_def cur_ok_def act_ok_def list_all_iff)

lemma init_inv_builtin:
  assumes "init_inv P st" "is_init_action f"
  shows "init_inv P (queue_builtin_action f n st)"
proof -
  let ?s = "queue_builtin_action f n st"
  have s: "action_list ?s = action_list st @ [\<lparr>act_name = n, act_commands = [\<lparr>cmd_func = f, cmd_nargs = 0, cmd_args = [n]\<rparr>]\<rparr>]"
    "service_list ?s = service_list st" "cur_action ?s = cur_action st" "cur_command ?s = cur_command st"
    by (simp_all add: queue_builtin_action_def action_add_queue_tail_def Let_def)
  have "area_inv P ?s = area_inv P st"
    by (rule area_inv_same) (simp_all add: queue_builtin_action_def action_add_queue_tail_def Let_def)
  moreover have "cur_ok ?s" using assms(1)
    by (auto simp: init_inv_def cur_ok_def s nth_append split: option.splits)
  ultimately show ?thesis
    using assms queue_ok_builtin [of st f n] by (simp add: init_inv_def s act_ok_def)
qed

lemma init_inv_trigger: "init_inv P st \<Longrightarrow> init_inv P (action_for_each_trigger t action_add_queue_tail st)"
  by (rule step_init [OF _ step_trigger [OF step_ok_refl]])

lemma init_inv_boot_actions: "init_inv P st \<Longrightarrow> init_inv P (queue_boot_actions c st)"
  by (simp add: queue_boot_actions_def Let_def init_inv_builtin init_inv_trigger is_init_action_def)

lemma conf_boot_start:
  assumes "boot_ok P st s" "init_inv P st" "service_list st = []" "action_list st = []"
  shows "conf_boot P s"
proof -
  have "map svc_static (service_list s) = []" "map act_static (action_list s) = []" "init_inv P s"
    using assms by (auto simp: boot_ok_def step_ok_def)
  then show ?thesis using assms(1) by (simp add: conf_boot_def boot_ok_def init_inv_def conf_ok_def)
qed

lemma traced_charging_mode: "traced st (snd (charging_mode_booting P st))"
  by (simp add: charging_mode_booting_def run_simps traced_step split: option.split)

lemma read_configuration_boot:
  assumes "read_configuration P c s = Some s'" "boot_ok P st s" "init_inv P st" "service_list st = []" "action_list st = []"
  shows "conf_boot P s'"
proof -
  define s1 where "s1 = (if \<not> c then property_load_boot_defaults P s else s)"
  have "boot_ok P st s1"
    using assms(2) by (auto simp: s1_def property_load_boot_defaults_def intro: boot.after_load_from_file)
  then have "conf_boot P s1" by (rule conf_boot_start [OF _ assms(3-5)])
  then have s2: "conf_boot P (snd (charging_mode_booting P s1))" by (rule conf_boot_traced [OF _ traced_charging_mode])
  obtain l s2 where l: "charging_mode_booting P s1 = (l, s2)" by force
  with s2 assms(1) show ?thesis
    by (auto simp: read_configuration_def s1_def [symmetric] l Let_def bind_eq_Some_conv split: if_splits
        dest!: conf_boot_file conf_boot_optional)
qed

text \<open>The process starts with empty lists and without a property area.\<close>

lemma traced_setup: "traced st (setup_filesystems P st)"
  by (simp add: setup_filesystems_def run_simps traced_step)

lemma devnull_cases: "exited (open_devnull_stdio P st) = None \<Longrightarrow> traced st (open_devnull_stdio P st)"
  by (auto simp: open_devnull_stdio_def run_simps traced_step split: if_splits)

definition start_ok :: "init_st \<Rightarrow> bool" where
  "start_ok st \<longleftrightarrow> service_list st = [] \<and> action_list st = [] \<and> action_queue st = [] \<and> \<not> queue_corrupt st \<and>
     props st = [] \<and> pa_toc st = [] \<and> \<not> pa_mapped st \<and> cur_action st = None"

lemma start_traced: "start_ok st \<Longrightarrow> traced st st' \<Longrightarrow> start_ok st'"
  by (simp add: start_ok_def traced_frame)

lemma start_property_init:
  assumes "start_ok st" "find_ok P" "sizes_ok P"
  shows "unmapped P (property_init P st) \<or>
    (init_inv P (property_init P st) \<and> boot_ok P (property_init P st) (property_init P st) \<and>
     service_list (property_init P st) = [] \<and> action_list (property_init P st) = [])"
proof -
  let ?s = "property_init P st"
  have l: "service_list ?s = [] \<and> action_list ?s = [] \<and> action_queue ?s = [] \<and> \<not> queue_corrupt ?s \<and>
    props ?s = [] \<and> pa_toc ?s = [] \<and> cur_action ?s = None"
    using assms(1) by (simp add: property_init_def init_property_area_def init_workspace_def run_simps start_ok_def)
  show ?thesis
  proof (cases "pa_mapped ?s")
    case True
    then show ?thesis using l assms(2,3)
      by (simp add: init_inv_def area_inv_def props_ok_def queue_ok_def cur_ok_def boot_ok_def)
  qed (use l assms(2) in \<open>simp add: unmapped_def\<close>)
qed

lemma main_boot_inv:
  assumes "main_boot P st = Some st'" "exited st' = None" "start_ok st" "find_ok P" "sizes_ok P"
  shows "init_inv P st'"
proof -
  define s0 where "s0 = open_devnull_stdio P (setup_filesystems P st)"
  have ex: "exited s0 = None" using assms(1,2) by (auto simp: main_boot_def running_def s0_def [symmetric] split: if_splits)
  have "start_ok s0" using start_traced [OF start_traced [OF assms(3) traced_setup] devnull_cases] ex by (simp add: s0_def)
  then have "start_ok (perform P Sys_klog_init s0)" by (rule start_traced) simp
  then have c: "unmapped P s1 \<or> init_inv P s1 \<and> boot_ok P s1 s1 \<and> service_list s1 = [] \<and> action_list s1 = []"
    if "s1 = property_init P (perform P Sys_klog_init s0)" for s1
    using start_property_init assms(4,5) that by blast
  define s1 where "s1 = property_init P (perform P Sys_klog_init s0)"
  obtain s2 where s2: "process_kernel_cmdline P (get_hardware_name P s1) = Some s2"
    and r: "running (\<lambda>st. do { let is_charger = (bootmode st = ''charger''); st \<leftarrow> read_configuration P is_charger st;
        Some (queue_boot_actions is_charger st) }) s2 = Some st'"
    using assms(1) ex by (auto simp: main_boot_def running_def s0_def [symmetric] s1_def [symmetric] Let_def bind_eq_Some_conv)
  have s1: "init_inv P s1" "boot_ok P s1 s1" "service_list s1 = []" "action_list s1 = []"
    using c [OF s1_def] s2 unmapped_cmdline unm.after_get_hardware by force+
  have b: "boot_ok P s1 s2" by (rule boot.after_process_cmdline [OF s2 boot.after_get_hardware [OF s1(2)]])
  have "exited s2 = None" using r assms(2) by (auto simp: running_def split: if_splits)
  then obtain s3 where "read_configuration P (bootmode s2 = ''charger'') s2 = Some s3"
    "st' = queue_boot_actions (bootmode s2 = ''charger'') s3"
    using r by (auto simp: running_def Let_def bind_eq_Some_conv)
  with read_configuration_boot [OF _ b s1(1,3,4)] conf_boot_inv init_inv_boot_actions show ?thesis by blast
qed

subsection \<open>Every state of the loop\<close>

inductive reachable :: "platform \<Rightarrow> init_st \<times> loop_st \<Rightarrow> bool" for P where
  boot: "main_boot P init_st0 = Some st \<Longrightarrow> exited st = None \<Longrightarrow> reachable P (st, loop_st0)"
| loop: "reachable P (st, ls) \<Longrightarrow> exited st = None \<Longrightarrow> main_step P (st, ls) = Some (st', ls') \<Longrightarrow> reachable P (st', ls')"

inductive_cases main_reachableE: "reachable P (st, ls)"

text \<open>The descriptors registered with \<open>poll\<close> fit the array.\<close>

definition loop_ok :: "loop_st \<Rightarrow> bool" where
  "loop_ok ls \<longleftrightarrow> length (ufds ls) =
     (if property_set_fd_init ls then 1 else 0) + (if signal_fd_init ls then 1 else 0) + (if keychord_fd_init ls then 1 else 0)"

lemma loop_ok_register: "loop_ok ls \<Longrightarrow> loop_ok (register_fds st ls)"
  by (simp add: loop_ok_def register_fds_def Let_def)

lemma reachable_inv:
  assumes "reachable P x" "find_ok P" "sizes_ok P"
  shows "init_inv P (fst x) \<and> loop_ok (snd x)"
  using assms(1)
proof (induction rule: reachable.induct)
  case (boot st)
  have "start_ok init_st0" by (simp add: start_ok_def init_st0_def)
  with boot main_boot_inv assms(2,3) show ?case by (auto simp: loop_ok_def loop_st0_def)
next
  case (loop st ls st' ls')
  from loop.hyps(3) obtain s where "ls' = register_fds s ls" by (auto simp: main_step_def Let_def bind_eq_Some_conv)
  with loop step_init [OF _ step_main_step [OF loop.hyps(3) step_ok_refl]] show ?case by (simp add: loop_ok_register)
qed

text \<open>
  C3.  Init keeps its invariant for ever: in every state that its main loop reaches, whatever the
  kernel answers, whatever the configuration holds and whoever sends requests, the property area is
  well formed, service names are unique, a service is marked as running exactly while it has a
  process, a service that waits for its restart is not stopped, every command has a function and its
  arguments, and the queue and the current command refer to existing actions.  The array for \<open>poll\<close>
  never overflows.
\<close>

theorem reachable_invariant:
  assumes "reachable P (st, ls)" "find_ok P" "sizes_ok P"
  shows "init_inv P st \<and> length (ufds ls) < 4"
  using reachable_inv [OF assms] by (auto simp: loop_ok_def)

subsection \<open>The boot sequence returns\<close>

text \<open>A process that has not exited, with a property area and without configuration.\<close>

definition alive :: "platform \<Rightarrow> init_st \<Rightarrow> bool" where
  "alive P s \<longleftrightarrow> area_inv P s \<and> exited s = None \<and> service_list s = [] \<and> action_list s = [] \<and>
     action_queue s = [] \<and> cur_action s = None"

lemma exited_set: "pa_mapped s \<Longrightarrow> exited (snd (property_set P name v s)) = exited s"
proof (induction P name v s rule: property_set.induct)
  case (1 P name v s)
  have changed: "exited (property_changed n w t) = exited t" for n w t
    by (simp add: property_changed_def queue_property_triggers_eq fold_add_eq)
  show ?case
  proof (cases "property_store P name v s")
    case (Some s1)
    have "exited s1 = exited s" "pa_mapped s1"
      using Some 1(2) by (auto simp: property_store_def Let_def split: if_splits option.splits)
    then show ?thesis using 1(1) [OF Some] Some traced_frame(9) [OF traced_write_persistent]
      by (simp add: property_set.simps [of P name] changed)
  qed (simp add: property_set.simps [of P name])
qed

lemma area_inv_set: "area_inv P s \<Longrightarrow> area_inv P (snd (property_set P name v s))"
  using area_step_set [of P s name v] by (auto simp: area_inv_def area_step_def)

lemma alive_set: "alive P s \<Longrightarrow> alive P (snd (property_set P name v s))"
proof -
  assume a: "alive P s"
  let ?s = "snd (property_set P name v s)"
  note F = prop_frame_fields [OF prop_frame_set [of s P name v]]
  have "queue_ok s" using a by (simp add: alive_def queue_ok_def)
  from queue_ok_set [OF this, of P name v] have "action_queue ?s = []" using a F(2) by (simp add: alive_def queue_ok_def)
  then show "alive P ?s" using a F area_inv_set [of P s name v] exited_set [of s P name v] by (auto simp: alive_def area_inv_def)
qed

interpretation alive: boot_client P "alive P" for P
  by unfold_locales (auto simp: alive_set, auto simp: alive_def area_inv_def props_ok_def traced_frame)

lemma set_ro_defines:
  assumes "area_inv P s" "length (props s) < PA_COUNT_MAX" "has_prefix ''ro.'' name"
    and "length name < PROP_NAME_MAX P" "length v < PROP_VALUE_MAX P"
  shows "pmap (snd (property_set P name v s)) name \<noteq> None"
    "length (props (snd (property_set P name v s))) \<le> Suc (length (props s))"
proof -
  have ok: "find_ok P" "sizes_ok P" "props_ok P s" "pa_mapped s" using assms(1) by (simp_all add: area_inv_def)
  have net: "\<not> has_prefix ''net.'' name" and ne: "name \<noteq> []" using assms(3) by (auto simp: has_prefix_iff)
  have p: "pmap s name = map_option (\<lambda>i. pi_value (props s ! i)) (system_property_find P (props s) name)"
    using property_get_map [OF ok(1,3), of name] assms(4) by (simp add: property_get_def)
  have "pmap (snd (property_set P name v s)) name \<noteq> None \<and>
      length (props (snd (property_set P name v s))) \<le> Suc (length (props s))"
  proof (cases "property_store P name v s")
    case None
    then have "pmap s name \<noteq> None"
      using assms(2,4,5) ne ok(4) p by (auto simp: property_store_def Let_def split: if_splits option.splits)
    then show ?thesis by (simp add: property_set.simps [of P name] None)
  next
    case (Some s1)
    have "length (props s1) \<le> Suc (length (props s))"
      using Some by (auto simp: property_store_def Let_def split: if_splits option.splits)
    moreover have "props (write_persistent_property P name v s1) = props s1"
      by (rule traced_frame(5) [OF traced_write_persistent])
    ultimately show ?thesis using store_effect [OF ok Some] net Some
      by (simp add: property_set.simps [of P name])
  qed
  then show "pmap (snd (property_set P name v s)) name \<noteq> None"
    "length (props (snd (property_set P name v s))) \<le> Suc (length (props s))" by blast+
qed

lemma pmap_set_keeps: "area_inv P s \<Longrightarrow> pmap s name \<noteq> None \<Longrightarrow> pmap (snd (property_set P n v s)) name \<noteq> None"
  using area_step_set [of P s n v] by (auto simp: area_inv_def area_step_def)

lemma export_defined:
  assumes "area_inv P s" "length (props s) + 2 \<le> PA_COUNT_MAX"
  shows "\<exists>s'. export_kernel_boot_props P s = Some s'"
proof -
  let ?put = "\<lambda>src dest d st. snd (property_set P dest (case property_get P src st of Some v \<Rightarrow> v | None \<Rightarrow> d) st)"
  define s1 where "s1 = ?put ''ro.boot.serialno'' ''ro.serialno'' [] s"
  define s2 where "s2 = ?put ''ro.boot.mode'' ''ro.bootmode'' ''unknown'' s1"
  define s3 where "s3 = ?put ''ro.boot.baseband'' ''ro.baseband'' ''unknown'' s2"
  define s4 where "s4 = ?put ''ro.boot.bootloader'' ''ro.bootloader'' ''unknown'' s3"
  have sz: "20 \<le> PROP_NAME_MAX P" "PROP_NAME_MAX P \<le> PROP_VALUE_MAX P" using assms(1) by (auto simp: area_inv_def sizes_ok_def)
  have val: "length (case property_get P src t of Some v \<Rightarrow> v | None \<Rightarrow> d) < PROP_VALUE_MAX P"
    if "area_inv P t" "length d < 20" for src t d
    using that sz pmap_bounds [of P t src] by (auto simp: area_inv_def property_get_map split: option.split)
  have i1: "area_inv P s1" "length (props s1) \<le> Suc (length (props s))"
    using assms sz val [OF assms(1), of "[]"] set_ro_defines(2) [OF assms(1), of "''ro.serialno''"]
    by (auto simp: s1_def has_prefix_def intro: area_inv_set)
  have i2: "area_inv P s2" "pmap s2 ''ro.bootmode'' \<noteq> None"
    using assms(2) i1 sz val [OF i1(1), of "''unknown''"] set_ro_defines(1) [OF i1(1), of "''ro.bootmode''"]
    by (auto simp: s2_def has_prefix_def intro: area_inv_set)
  have "pmap s4 ''ro.bootmode'' \<noteq> None" "area_inv P s4"
    unfolding s3_def s4_def by (intro pmap_set_keeps area_inv_set i2)+
  then have g: "property_get P ''ro.bootmode'' s4 \<noteq> None" by (simp add: area_inv_def property_get_map)
  have f: "fold (\<lambda>(src, dest, def) st. ?put src dest def st) prop_map s = s4"
    by (simp add: prop_map_def s1_def s2_def s3_def s4_def)
  have c: "property_get P name (s4\<lparr>console := x\<rparr>) = property_get P name s4" for name x by (simp add: property_get_def)
  show ?thesis using g unfolding export_kernel_boot_props_def Let_def f
    by (auto simp: c split: option.split)
qed

lemma exited_queue:
  "exited (queue_builtin_action f n s) = exited s"
  "exited (action_for_each_trigger t action_add_queue_tail s) = exited s"
  by (simp_all add: queue_builtin_action_def action_add_queue_tail_def Let_def action_for_each_trigger_queue fold_add_eq)

text \<open>A device without configuration files and with an empty command line.\<close>

definition bare_os :: "sys_trace \<Rightarrow> syscall \<Rightarrow> answer" where
  "bare_os t c =
     (case c of
        Sys_open path _ _ \<Rightarrow> ok_answer (if has_prefix ''/dev/__'' path then 5 else - 1)
      | Sys_access _ \<Rightarrow> ok_answer (- 1)
      | _ \<Rightarrow> example_os t c)"

definition bare_platform :: platform where
  "bare_platform = example_platform\<lparr>os := bare_os\<rparr>"

lemma bare_answers [simp]:
  "an_ret (os bare_platform t (Sys_open path fl m)) = (if has_prefix ''/dev/__'' path then 5 else - 1)"
  "an_ret (os bare_platform t (Sys_access path)) = - 1"
  "an_ret (os bare_platform t (Sys_mknod path k a b)) = 0" "an_ret (os bare_platform t (Sys_ftruncate fd n)) = 0"
  "an_ret (os bare_platform t (Sys_mmap fd n)) = 0" "charging_mode_lpm bare_platform = None"
  by (simp_all add: bare_platform_def bare_os_def example_platform_def example_os_def ok_answer_def)

lemma bare_ok: "find_ok bare_platform" "sizes_ok bare_platform"
  by (simp_all add: bare_platform_def find_ok_def sizes_ok_def example_platform_def)

lemma bare_paths [simp]: "has_prefix ''/dev/__'' ''/dev/__null__''" "has_prefix ''/dev/__'' ''/dev/__properties__''"
  "\<not> has_prefix ''/dev/__'' ''/proc/cpuinfo''" "\<not> has_prefix ''/dev/__'' ''/proc/cmdline''" "\<not> has_prefix ''/dev/__'' ''/init.rc''"
  by (simp_all add: has_prefix_def)

lemma bare_start:
  fixes s0 defines "s0 \<equiv> open_devnull_stdio bare_platform (setup_filesystems bare_platform init_st0)"
  shows "exited s0 = None" "alive bare_platform (property_init bare_platform (perform bare_platform Sys_klog_init s0))"
    "props (property_init bare_platform (perform bare_platform Sys_klog_init s0)) = []"
proof -
  let ?P = bare_platform and ?s = "perform bare_platform Sys_klog_init s0"
  have "exited (setup_filesystems ?P init_st0) = None" using traced_frame(9) [OF traced_setup] by (simp add: init_st0_def)
  then show e: "exited s0 = None" by (simp add: s0_def open_devnull_stdio_def run_simps)
  then have "traced init_st0 s0" unfolding s0_def by (rule traced_trans [OF traced_setup devnull_cases])
  note F = traced_frame [OF this]
  show "alive ?P (property_init ?P ?s)" "props (property_init ?P ?s) = []"
    using F e bare_ok
    by (simp_all add: alive_def area_inv_def props_ok_def property_init_def init_property_area_def init_workspace_def
        run_simps init_st0_def)
qed

lemma bare_cmdline:
  assumes "alive bare_platform s" "props s = []"
  shows "\<exists>s'. process_kernel_cmdline bare_platform (get_hardware_name bare_platform s) = Some s' \<and> alive bare_platform s'"
proof -
  let ?P = bare_platform
  have i: "import_kernel_cmdline ?P b f t = perform ?P (Sys_open ''/proc/cmdline'' [O_RDONLY] 0) t" for b f t
    by (simp add: import_kernel_cmdline_def run_simps)
  let ?s = "perform ?P (Sys_open ''/proc/cmdline'' [O_RDONLY] 0) (perform ?P (Sys_chmod ''/proc/cmdline'' 0x120) (get_hardware_name ?P s))"
  let ?t = "if qemu ?s \<noteq> [] then perform ?P (Sys_open ''/proc/cmdline'' [O_RDONLY] 0) ?s else ?s"
  have h: "alive ?P (get_hardware_name ?P s)" by (rule alive.after_get_hardware [OF assms(1)])
  have "alive ?P ?t" "props ?t = []"
    using h assms(2) by (auto simp: get_hardware_name_def run_simps intro!: alive.after_perform)
  then obtain s' where "export_kernel_boot_props ?P ?t = Some s'"
    using export_defined [of ?P ?t] unfolding alive_def PA_COUNT_MAX_def by auto
  then have "process_kernel_cmdline ?P (get_hardware_name ?P s) = Some s'"
    by (simp only: process_kernel_cmdline_def Let_def i)
  with alive.after_process_cmdline [OF this h] show ?thesis by blast
qed

lemma bare_configuration:
  assumes "alive bare_platform s"
  shows "\<exists>s'. read_configuration bare_platform c s = Some s' \<and> alive bare_platform s'"
proof -
  let ?P = bare_platform
  define s4 where "s4 = (if \<not> c then property_load_boot_defaults ?P s else s)"
  define t where "t = perform ?P (Sys_open ''/init.rc'' [O_RDONLY] 0) s4"
  have s4: "alive ?P s4" using assms by (simp add: s4_def property_load_boot_defaults_def alive.after_load_from_file)
  have opt: "parse_optional ?P fn s = Some (perform ?P (Sys_access fn) s)" for fn s by (simp add: parse_optional_def run_simps)
  have p: "init_parse_config_file ?P ''/init.rc'' s4 = Some (- 1, t)"
    by (simp add: init_parse_config_file_def read_file_def run_simps t_def)
  have lpm: "charging_mode_booting ?P s4 = (False, s4)" by (simp add: charging_mode_booting_def)
  have "read_configuration ?P c s = do {
      st \<leftarrow> (if emmc_boot t then parse_optional ?P ''/init.emmc.rc'' t else Some t); parse_optional ?P ''/init.target.rc'' st }"
    unfolding read_configuration_def s4_def [symmetric] Let_def lpm case_prod_conv
    by (simp only: not_False_eq_True if_True p bind.bind_lunit case_prod_conv)
  also have "\<dots> = Some (perform ?P (Sys_access ''/init.target.rc'')
      (if emmc_boot t then perform ?P (Sys_access ''/init.emmc.rc'') t else t))"
    by (cases "emmc_boot t") (simp_all only: opt if_True if_False bind.bind_lunit)
  finally show ?thesis using s4 by (auto simp: t_def intro!: alive.after_perform)
qed

lemma bare_boots:
  "\<exists>c s. main_boot bare_platform init_st0 = Some (queue_boot_actions c s) \<and> alive bare_platform s"
proof -
  let ?P = bare_platform
  define s0 where "s0 = open_devnull_stdio ?P (setup_filesystems ?P init_st0)"
  note b = bare_start [folded s0_def]
  obtain s3 where s3: "process_kernel_cmdline ?P (get_hardware_name ?P (property_init ?P (perform ?P Sys_klog_init s0))) = Some s3"
    "alive ?P s3" using bare_cmdline [OF b(2,3)] by blast
  obtain s5 where s5: "read_configuration ?P (bootmode s3 = ''charger'') s3 = Some s5" "alive ?P s5"
    using bare_configuration [OF s3(2)] by blast
  have "main_boot ?P init_st0 = Some (queue_boot_actions (bootmode s3 = ''charger'') s5)"
    using b(1) s3 s5(1) by (simp add: main_boot_def running_def s0_def [symmetric] Let_def alive_def)
  with s5(2) show ?thesis by blast
qed

lemma boot_actions_alive: "alive P s \<Longrightarrow> exited (queue_boot_actions c s) = None"
  by (simp add: queue_boot_actions_def Let_def exited_queue alive_def)

theorem reachable_invariant_witness:
  "\<exists>st. main_boot bare_platform init_st0 = Some st \<and> init_inv bare_platform st \<and> length (ufds loop_st0) < 4"
proof -
  obtain c s where st: "main_boot bare_platform init_st0 = Some (queue_boot_actions c s)" "alive bare_platform s"
    using bare_boots by blast
  from reachable_invariant [OF reachable.boot [OF st(1) boot_actions_alive [OF st(2)]] bare_ok] st show ?thesis by blast
qed

subsection \<open>What init promises\<close>





subsection \<open>The order of the boot actions\<close>











subsection \<open>The order of commands\<close>





subsection \<open>Sleeping\<close>


subsection \<open>The first round on the device without configuration\<close>








end
