(* ===== verification/Devices.thy ===== *)
theory Devices
  imports Util
begin

text \<open>
  \<open>devices.c\<close>: the handling of the kernel's device events by \<open>ueventd\<close>.  An event is a message of
  strings; \<open>parse_event\<close> finds the fields, \<open>handle_device_event\<close> sets permissions below \<open>/sys\<close>, keeps
  the list of platform devices and creates or removes the nodes and links below \<open>/dev\<close>, and
  \<open>handle_firmware_event\<close> copies firmware to a driver in a child process.

  The static lists of the file are the record \<open>dev_st\<close>; the other static variables and the
  system calls stay in \<open>init_st\<close>, since \<open>ueventd\<close> is the executable of init under another name.
  A pointer into a message is the memory from there to the end of the message buffer, so that
  \<open>path + 18\<close> is \<open>drop 18\<close> of it and stepping out of the buffer is \<open>None\<close>.
\<close>

subsection \<open>Data\<close>

text \<open>The C string at a pointer.\<close>

abbreviation cstr :: "char list \<Rightarrow> string" where
  "cstr p \<equiv> cstr_at p 0"

record uevent =
  ue_action :: "char list"
  ue_path :: "char list"
  ue_subsystem :: "char list"
  ue_firmware :: "char list"
  ue_partition_name :: "char list option"
  ue_device_name :: "char list option"
  ue_partition_num :: int
  ue_major :: int
  ue_minor :: int

record perms_ =
  dp_name :: string
  dp_attr :: "string option"
  dp_perm :: "32 word"
  dp_uid :: "32 word"
  dp_gid :: "32 word"
  dp_prefix :: bool

record dev_st =
  device_fd :: int
  sys_perms :: "perms_ list"
  dev_perms :: "perms_ list"
  platform_names :: "string list"

definition dev_st0 :: dev_st where
  "dev_st0 = \<lparr>device_fd = - 1, sys_perms = [], dev_perms = [], platform_names = []\<rparr>"

subsection \<open>Permissions\<close>

text \<open>The name is a null pointer when the caller found no partition; copying it is undefined.\<close>

definition add_dev_perms ::
  "string option \<Rightarrow> string option \<Rightarrow> 32 word \<Rightarrow> 32 word \<Rightarrow> 32 word \<Rightarrow> bool \<Rightarrow> dev_st \<Rightarrow> dev_st option" where
  "add_dev_perms name attr perm uid gid prefix dv =
     (case name of
        None \<Rightarrow> None
      | Some name \<Rightarrow>
          let dp = \<lparr>dp_name = name, dp_attr = attr, dp_perm = perm, dp_uid = uid, dp_gid = gid, dp_prefix = prefix\<rparr>
          in Some (if attr \<noteq> None then dv\<lparr>sys_perms := sys_perms dv @ [dp]\<rparr>
                   else dv\<lparr>dev_perms := dev_perms dv @ [dp]\<rparr>))"

fun fixup_rules :: "platform \<Rightarrow> string \<Rightarrow> perms_ list \<Rightarrow> init_st \<Rightarrow> init_st option" where
  "fixup_rules P upath [] st = Some st"
| "fixup_rules P upath (dp # dps) st =
     (if length (dp_name dp) < 4 then None
      else if (if dp_prefix dp then \<not> has_prefix (drop 4 (dp_name dp)) upath else upath \<noteq> drop 4 (dp_name dp))
      then fixup_rules P upath dps st
      else (case dp_attr dp of
              None \<Rightarrow> None
            | Some attr \<Rightarrow>
                if 512 < length upath + length attr + 6 then Some st
                else
                  let buf = ''/sys'' @ upath @ ''/'' @ attr;
                      st = perform P (Sys_chown buf (dp_uid dp) (dp_gid dp)) st;
                      st = perform P (Sys_chmod buf (dp_perm dp)) st
                  in fixup_rules P upath dps st))"

definition fixup_sys_perms :: "platform \<Rightarrow> string \<Rightarrow> dev_st \<Rightarrow> init_st \<Rightarrow> init_st option" where
  "fixup_sys_perms P upath dv st = fixup_rules P upath (sys_perms dv) st"

text \<open>The last rule that matches decides: its mode, user and group.\<close>

definition dev_rule_matches :: "string \<Rightarrow> perms_ \<Rightarrow> bool" where
  "dev_rule_matches path dp = (if dp_prefix dp then has_prefix (dp_name dp) path else path = dp_name dp)"

definition get_device_perm :: "string \<Rightarrow> dev_st \<Rightarrow> 32 word \<times> 32 word \<times> 32 word" where
  "get_device_perm path dv =
     (case find (dev_rule_matches path) (rev (dev_perms dv)) of
        Some dp \<Rightarrow> (dp_perm dp, dp_uid dp, dp_gid dp)
      | None \<Rightarrow> (0x180, 0, 0))"

definition S_IFBLK :: "32 word" where "S_IFBLK = 0x6000"
definition S_IFCHR :: "32 word" where "S_IFCHR = 0x2000"

definition make_device :: "platform \<Rightarrow> string \<Rightarrow> bool \<Rightarrow> int \<Rightarrow> int \<Rightarrow> dev_st \<Rightarrow> init_st \<Rightarrow> init_st" where
  "make_device P path block major minor dv st =
     (let (perm, uid, gid) = get_device_perm path dv;
          mode = perm OR (if block then S_IFBLK else S_IFCHR);
          st = perform P (Sys_setegid gid) st;
          st = perform P (Sys_mknod path mode major minor) st;
          st = perform P (Sys_chown path uid (- 1)) st
      in perform P (Sys_setegid (AID_ROOT P)) st)"

definition make_dir :: "platform \<Rightarrow> string \<Rightarrow> 32 word \<Rightarrow> init_st \<Rightarrow> int \<times> init_st" where
  "make_dir P path mode st = (let (r, st) = sys P (Sys_mkdir path mode) st in (an_ret r, st))"

subsection \<open>Platform devices\<close>

definition below :: "string \<Rightarrow> string \<Rightarrow> bool" where
  "below name bus \<longleftrightarrow> length bus < length name \<and> name ! length bus = SLASH \<and> take (length bus) name = bus"

definition add_platform_device :: "string \<Rightarrow> dev_st \<Rightarrow> dev_st" where
  "add_platform_device name dv =
     (case find (below name) (rev (platform_names dv)) of
        Some _ \<Rightarrow> dv
      | None \<Rightarrow> dv\<lparr>platform_names := platform_names dv @ [name]\<rparr>)"

definition find_platform_device :: "string \<Rightarrow> dev_st \<Rightarrow> string option" where
  "find_platform_device name dv = find (below name) (rev (platform_names dv))"

definition remove_platform_device :: "string \<Rightarrow> dev_st \<Rightarrow> dev_st" where
  "remove_platform_device name dv = dv\<lparr>platform_names := rev (remove1 name (rev (platform_names dv)))\<rparr>"

subsection \<open>The message of an event\<close>

definition no_event :: uevent where
  "no_event = \<lparr>ue_action = [NUL], ue_path = [NUL], ue_subsystem = [NUL], ue_firmware = [NUL],
     ue_partition_name = None, ue_device_name = None, ue_partition_num = - 1, ue_major = - 1, ue_minor = - 1\<rparr>"

text \<open>The pointer is moved behind the key of a known field, and not moved for another string.\<close>

definition match_field :: "char list \<Rightarrow> uevent \<Rightarrow> char list \<times> uevent" where
  "match_field msg ue =
     (if has_prefix ''ACTION='' msg then (drop 7 msg, ue\<lparr>ue_action := drop 7 msg\<rparr>)
      else if has_prefix ''DEVPATH='' msg then (drop 8 msg, ue\<lparr>ue_path := drop 8 msg\<rparr>)
      else if has_prefix ''SUBSYSTEM='' msg then (drop 10 msg, ue\<lparr>ue_subsystem := drop 10 msg\<rparr>)
      else if has_prefix ''FIRMWARE='' msg then (drop 9 msg, ue\<lparr>ue_firmware := drop 9 msg\<rparr>)
      else if has_prefix ''MAJOR='' msg then (drop 6 msg, ue\<lparr>ue_major := atoi (cstr (drop 6 msg))\<rparr>)
      else if has_prefix ''MINOR='' msg then (drop 6 msg, ue\<lparr>ue_minor := atoi (cstr (drop 6 msg))\<rparr>)
      else if has_prefix ''PARTN='' msg then (drop 6 msg, ue\<lparr>ue_partition_num := atoi (cstr (drop 6 msg))\<rparr>)
      else if has_prefix ''PARTNAME='' msg then (drop 9 msg, ue\<lparr>ue_partition_name := Some (drop 9 msg)\<rparr>)
      else if has_prefix ''DEVNAME='' msg then (drop 8 msg, ue\<lparr>ue_device_name := Some (drop 8 msg)\<rparr>)
      else (msg, ue))"

lemma match_field_shorter: "match_field msg ue = (msg', ue') \<Longrightarrow> length msg' \<le> length msg"
  by (auto simp: match_field_def split: if_splits)

function parse_fields :: "char list \<Rightarrow> uevent \<Rightarrow> uevent option" where
  "parse_fields msg ue =
     (case msg of
        [] \<Rightarrow> None
      | c # _ \<Rightarrow>
          if c = NUL then Some ue
          else
            let (msg, ue) = match_field msg ue in
            case dropWhile (\<lambda>c. c \<noteq> NUL) msg of
              [] \<Rightarrow> None
            | _ # msg \<Rightarrow> parse_fields msg ue)"
  by pat_completeness auto
termination
proof (relation "measure (\<lambda>(msg, ue). length msg)", goal_cases)
  case (2 msg ue c r p msg1 ue1 c1 msg2)
  then have "length (c1 # msg2) \<le> length msg1" by (metis length_dropWhile_le)
  with match_field_shorter [of msg ue msg1 ue1] 2 show ?case by simp
qed simp

declare parse_fields.simps [simp del]

definition parse_event :: "char list \<Rightarrow> uevent option" where
  "parse_event msg = parse_fields msg no_event"

subsection \<open>Links\<close>

text \<open>
  The links to a character device below a platform device; the outer \<open>None\<close> is the dereferenced null
  pointer when no slash follows the name of the driver, the inner one a null result.
\<close>

definition get_character_device_symlinks :: "platform \<Rightarrow> uevent \<Rightarrow> init_st \<Rightarrow> (string list option \<times> init_st) option" where
  "get_character_device_symlinks P ue st =
     (let path = cstr (ue_path ue) in
      if \<not> has_prefix ''/devices/platform/'' path then Some (None, st)
      else (case split_first SLASH (drop 18 path) of
        None \<Rightarrow> None
      | Some (_, parent) \<Rightarrow>
          if \<not> has_prefix ''usb'' parent then Some (None, st)
          else (case split_first SLASH parent of
            None \<Rightarrow> Some (None, st)
          | Some (_, parent) \<Rightarrow>
              (case split_first SLASH parent of
                 None \<Rightarrow> Some (None, st)
               | Some (_, parent) \<Rightarrow>
                   (case split_first SLASH parent of
                      None \<Rightarrow> Some (None, st)
                    | Some (interface, _) \<Rightarrow>
                        if interface = [] then Some (None, st)
                        else Some (Some [''/dev/usb/'' @ cstr (ue_subsystem ue) @ interface],
                                   perform P (Sys_mkdir ''/dev/usb'' 0x1ED) st))))))"

text \<open>The pointer behind \<open>/devices/platform/\<close>, 18 characters on.\<close>

definition after_platform :: "uevent \<Rightarrow> string option" where
  "after_platform ue = (if 18 < length (ue_path ue) then Some (cstr (drop 18 (ue_path ue))) else None)"

definition parse_platform_block_device :: "uevent \<Rightarrow> dev_st \<Rightarrow> string list option option" where
  "parse_platform_block_device ue dv =
     (case after_platform ue of
        None \<Rightarrow> None
      | Some device \<Rightarrow>
          (case find_platform_device device dv of
             None \<Rightarrow> Some None
           | Some device \<Rightarrow>
               (case split_last SLASH (cstr (ue_path ue)) of
                  None \<Rightarrow> None
                | Some (_, base) \<Rightarrow>
                    let link_path = clip 256 (''/dev/block/platform/'' @ device)
                    in Some (Some
                         ((case ue_partition_name ue of
                             None \<Rightarrow> []
                           | Some p \<Rightarrow> [link_path @ ''/by-name/'' @ sanitize (cstr p)]) @
                          (if 0 \<le> ue_partition_num ue
                           then [link_path @ ''/by-num/p'' @ show_int (ue_partition_num ue)] else []) @
                          [link_path @ ''/'' @ base])))))"

subsection \<open>Nodes\<close>

definition handle_device ::
  "platform \<Rightarrow> string \<Rightarrow> string \<Rightarrow> bool \<Rightarrow> int \<Rightarrow> int \<Rightarrow> string list option \<Rightarrow> dev_st \<Rightarrow> init_st \<Rightarrow> init_st" where
  "handle_device P action devpath block major minor links dv st =
     (let links = (case links of None \<Rightarrow> [] | Some ls \<Rightarrow> ls);
          st = (if action = ''add''
                then fold (make_link P devpath) links (make_device P devpath block major minor dv st) else st)
      in if action = ''remove''
         then perform P (Sys_unlink devpath) (fold (remove_link P devpath) links st) else st)"

definition handle_platform_device_event :: "uevent \<Rightarrow> dev_st \<Rightarrow> dev_st option" where
  "handle_platform_device_event ue dv =
     (if cstr (ue_action ue) = ''add'' then map_option (\<lambda>name. add_platform_device name dv) (after_platform ue)
      else if cstr (ue_action ue) = ''remove'' then map_option (\<lambda>name. remove_platform_device name dv) (after_platform ue)
      else Some dv)"

definition parse_device_name :: "uevent \<Rightarrow> nat \<Rightarrow> string option" where
  "parse_device_name ue len =
     (if ue_major ue < 0 \<or> ue_minor ue < 0 then None
      else (case split_last SLASH (cstr (ue_path ue)) of
              None \<Rightarrow> None
            | Some (_, name) \<Rightarrow> if len < length name then None else Some name))"

definition handle_block_device_event :: "platform \<Rightarrow> uevent \<Rightarrow> dev_st \<Rightarrow> init_st \<Rightarrow> init_st option" where
  "handle_block_device_event P ue dv st =
     (case parse_device_name ue 64 of
        None \<Rightarrow> Some st
      | Some name \<Rightarrow>
          let devpath = clip 96 (''/dev/block/'' @ name);
              st = snd (make_dir P ''/dev/block/'' 0x1ED st)
          in do {
               links \<leftarrow> (if has_prefix ''/devices/platform/'' (cstr (ue_path ue))
                         then parse_platform_block_device ue dv else Some None);
               Some (handle_device P (cstr (ue_action ue)) devpath True (ue_major ue) (ue_minor ue) links dv st)
             })"

text \<open>\<open>%03d\<close> of a number that is not negative.\<close>

definition show_3d :: "int \<Rightarrow> string" where
  "show_3d n = (let s = show_int n in replicate (3 - length s) (CHR ''0'') @ s)"

text \<open>Every directory above a path below \<open>/dev/\<close>, outermost first.\<close>

definition make_dirs_above :: "platform \<Rightarrow> string \<Rightarrow> init_st \<Rightarrow> init_st" where
  "make_dirs_above P devpath st =
     fold (\<lambda>i st. snd (make_dir P (take i devpath) 0x1ED st))
       (filter (\<lambda>i. devpath ! i = SLASH) [5..<length devpath]) st"

definition usb_devpath :: "platform \<Rightarrow> uevent \<Rightarrow> init_st \<Rightarrow> string \<times> init_st" where
  "usb_devpath P ue st =
     (case ue_device_name ue of
        Some name \<Rightarrow>
          let devpath = clip 96 (''/dev/'' @ cstr name) in (devpath, make_dirs_above P devpath st)
      | None \<Rightarrow>
          let bus_id = ue_minor ue div 128 + 1;
              device_id = ue_minor ue mod 128 + 1;
              bus = clip 96 (''/dev/bus/usb/'' @ show_3d bus_id);
              st = snd (make_dir P ''/dev/bus'' 0x1ED st);
              st = snd (make_dir P ''/dev/bus/usb'' 0x1ED st);
              st = snd (make_dir P bus 0x1ED st)
          in (clip 96 (''/dev/bus/usb/'' @ show_3d bus_id @ ''/'' @ show_3d device_id), st))"

text \<open>The directory for the devices of a subsystem, and the name of the node in it.\<close>

definition device_base :: "string \<Rightarrow> string \<Rightarrow> string option \<times> string" where
  "device_base subsystem name =
     (if has_prefix ''graphics'' subsystem then (Some ''/dev/graphics/'', name)
      else if has_prefix ''oncrpc'' subsystem then (Some ''/dev/oncrpc/'', name)
      else if has_prefix ''adsp'' subsystem then (Some ''/dev/adsp/'', name)
      else if has_prefix ''msm_camera'' subsystem then (Some ''/dev/msm_camera/'', name)
      else if has_prefix ''input'' subsystem then (Some ''/dev/input/'', name)
      else if has_prefix ''mtd'' subsystem then (Some ''/dev/mtd/'', name)
      else if has_prefix ''sound'' subsystem then (Some ''/dev/snd/'', name)
      else if has_prefix ''misc'' subsystem \<and> has_prefix ''log_'' name then (Some ''/dev/log/'', drop 4 name)
      else (None, name))"

text \<open>The path of the node of a device that is not a block device, after its directories are made.\<close>

definition generic_devpath :: "platform \<Rightarrow> uevent \<Rightarrow> string \<Rightarrow> init_st \<Rightarrow> string \<times> init_st" where
  "generic_devpath P ue name st =
     (let subsystem = cstr (ue_subsystem ue) in
      if has_prefix ''usb'' subsystem then usb_devpath P ue st
      else (case device_base subsystem name of
              (Some base, name) \<Rightarrow> (clip 96 (base @ name), snd (make_dir P base 0x1ED st))
            | (None, name) \<Rightarrow> (clip 96 (''/dev/'' @ name), st)))"

definition handle_generic_device_event :: "platform \<Rightarrow> uevent \<Rightarrow> dev_st \<Rightarrow> init_st \<Rightarrow> init_st option" where
  "handle_generic_device_event P ue dv st =
     (case parse_device_name ue 64 of
        None \<Rightarrow> Some st
      | Some name \<Rightarrow>
          if has_prefix ''usb'' (cstr (ue_subsystem ue)) \<and> cstr (ue_subsystem ue) \<noteq> ''usb'' then Some st
          else do {
            let (devpath, st) = generic_devpath P ue name st;
            (links, st) \<leftarrow> get_character_device_symlinks P ue st;
            Some (handle_device P (cstr (ue_action ue)) devpath False (ue_major ue) (ue_minor ue) links dv st)
          })"

definition handle_device_event :: "platform \<Rightarrow> uevent \<Rightarrow> dev_st \<Rightarrow> init_st \<Rightarrow> (dev_st \<times> init_st) option" where
  "handle_device_event P ue dv st =
     do {
       st \<leftarrow> (if cstr (ue_action ue) = ''add'' then fixup_sys_perms P (cstr (ue_path ue)) dv st else Some st);
       (if has_prefix ''block'' (cstr (ue_subsystem ue))
        then map_option (\<lambda>st. (dv, st)) (handle_block_device_event P ue dv st)
        else if has_prefix ''platform'' (cstr (ue_subsystem ue))
        then map_option (\<lambda>dv. (dv, st)) (handle_platform_device_event ue dv)
        else map_option (\<lambda>st. (dv, st)) (handle_generic_device_event P ue dv st))
     }"

subsection \<open>The fields of a message\<close>

text \<open>The strings of a message, up to the first empty one.\<close>

function msg_strings :: "char list \<Rightarrow> string list" where
  "msg_strings m = (if cstr m = [] then [] else cstr m # msg_strings (drop (length (cstr m) + 1) m))"
  by pat_completeness auto
termination
  by (relation "measure length") (auto simp: cstr_at_def intro!: diff_less dest: arg_cong [of _ _ length])

declare msg_strings.simps [simp del]

text \<open>The value of a key: what follows it in the last string that begins with it.\<close>

definition field_of :: "string \<Rightarrow> string list \<Rightarrow> string option" where
  "field_of key ss = map_option (drop (length key)) (find (has_prefix key) (rev ss))"

lemma find_append: "find p (xs @ ys) = (case find p xs of None \<Rightarrow> find p ys | Some x \<Rightarrow> Some x)"
  by (induction xs) auto

lemma field_of_Nil: "field_of key [] = None"
  by (simp add: field_of_def)

lemma field_of_Cons:
  "field_of key (s # ss) = (case field_of key ss of
     None \<Rightarrow> if has_prefix key s then Some (drop (length key) s) else None | Some v \<Rightarrow> Some v)"
  by (auto simp: field_of_def find_append split: option.splits)

lemma has_prefix_cstr: "NUL \<notin> set key \<Longrightarrow> has_prefix key (cstr m) = has_prefix key m"
proof (induction key arbitrary: m)
  case (Cons k key)
  then show ?case by (cases m) (auto simp: has_prefix_def cstr_at_def)
qed (simp add: has_prefix_def)

lemma cstr_drop_key: "NUL \<notin> set key \<Longrightarrow> has_prefix key m \<Longrightarrow> cstr (drop (length key) m) = drop (length key) (cstr m)"
proof (induction key arbitrary: m)
  case (Cons k key)
  then show ?case by (cases m) (auto simp: has_prefix_def cstr_at_def)
qed (simp add: cstr_at_def)

lemma dropWhile_drop_key:
  "NUL \<notin> set key \<Longrightarrow> has_prefix key m \<Longrightarrow> dropWhile (\<lambda>c. c \<noteq> NUL) (drop (length key) m) = dropWhile (\<lambda>c. c \<noteq> NUL) m"
proof (induction key arbitrary: m)
  case (Cons k key)
  then show ?case by (cases m) (auto simp: has_prefix_def)
qed simp

text \<open>The pointer moves over a key, the empty one for an unknown string.\<close>

definition over_key :: "char list \<Rightarrow> char list \<Rightarrow> bool" where
  "over_key m m' \<longleftrightarrow> (\<exists>key. NUL \<notin> set key \<and> has_prefix key m \<and> m' = drop (length key) m)"

lemma match_field_key: "over_key m (fst (match_field m ue))"
proof -
  have known: "over_key m (fst (drop k m, ue'))" if "has_prefix key m" "NUL \<notin> set key \<and> k = length key" for key k ue'
    using that by (auto simp: over_key_def)
  have unknown: "over_key m (fst (m, ue))" using known [of "[]" 0] by (simp add: has_prefix_def)
  show ?thesis unfolding match_field_def
    by (intro if_both [where Q = "\<lambda>x. over_key m (fst x)"]; (erule known, simp)?) (rule unknown)
qed

lemma match_field_rest: "dropWhile (\<lambda>c. c \<noteq> NUL) (fst (match_field m ue)) = dropWhile (\<lambda>c. c \<noteq> NUL) m"
  using match_field_key [of m ue] by (auto simp: over_key_def dropWhile_drop_key)

lemma cstr_stop: "NUL \<notin> set a \<Longrightarrow> cstr (a @ NUL # r) = a"
  by (induction a) (auto simp: cstr_at_def)

lemma dropWhile_cstr: "dropWhile (\<lambda>c. c \<noteq> NUL) m = drop (length (cstr m)) m"
  by (simp add: cstr_at_def dropWhile_eq_drop)

lemma parse_fields_step:
  "parse_fields m ue =
     (if m = [] then None else if cstr m = [] then Some ue
      else if length m \<le> length (cstr m) then None
      else parse_fields (drop (length (cstr m) + 1) m) (snd (match_field m ue)))"
proof (cases "cstr m = []")
  case True
  then show ?thesis by (cases m) (auto simp: parse_fields.simps [of "[]"] parse_fields.simps [of "_ # _"] cstr_at_def split: if_splits)
next
  case False
  then obtain c r where m: "m = c # r" "c \<noteq> NUL" by (cases m) (auto simp: cstr_at_def split: if_splits)
  have "dropWhile (\<lambda>c. c \<noteq> NUL) (fst (match_field m ue)) = drop (length (cstr m)) m"
    unfolding match_field_rest by (rule dropWhile_cstr)
  then have "parse_fields m ue = (case drop (length (cstr m)) m of [] \<Rightarrow> None
      | _ # m' \<Rightarrow> parse_fields m' (snd (match_field m ue)))"
    using m by (subst parse_fields.simps) (simp add: Let_def case_prod_unfold split: list.split)
  moreover have "drop (length (cstr m)) m = (if length m \<le> length (cstr m) then []
      else m ! length (cstr m) # drop (length (cstr m) + 1) m)"
    by (simp add: Cons_nth_drop_Suc)
  ultimately show ?thesis using False m(1) by simp
qed

text \<open>A field \<open>g\<close> that only the strings with one key write has the value of the last of them.\<close>

lemma parse_fields_field:
  assumes "parse_fields m ue = Some ue'" "NUL \<notin> set key"
    and step: "\<And>m ue. g (snd (match_field m ue)) = (if has_prefix key m then F (cstr (drop (length key) m)) else g ue)"
  shows "g ue' = (case field_of key (msg_strings m) of Some v \<Rightarrow> F v | None \<Rightarrow> g ue)"
  using assms(1)
proof (induction m arbitrary: ue rule: msg_strings.induct)
  case (1 m)
  show ?case
  proof (cases "cstr m = []")
    case True
    with 1(2) show ?thesis by (simp add: parse_fields_step [of m] msg_strings.simps [of m] field_of_Nil split: if_splits)
  next
    case False
    let ?m = "drop (length (cstr m) + 1) m" and ?ue = "snd (match_field m ue)"
    have "parse_fields ?m ?ue = Some ue'" using 1(2) False by (simp add: parse_fields_step [of m] split: if_splits)
    from 1(1) [OF False this] False show ?thesis
      using has_prefix_cstr [OF assms(2), of m] cstr_drop_key [OF assms(2), of m]
      by (simp add: msg_strings.simps [of m] field_of_Cons step split: option.splits)
  qed
qed

lemma parse_fields_defined: "\<exists>ue'. parse_fields (x @ NUL # NUL # r) ue = Some ue'"
proof (induction "length x" arbitrary: x ue rule: less_induct)
  case less
  let ?m = "x @ NUL # NUL # r"
  show ?case
  proof (cases "NUL \<in> set x")
    case True
    then obtain a b where x: "x = a @ NUL # b" "NUL \<notin> set a" by (metis split_list_first)
    then have c: "cstr ?m = a" by (simp add: cstr_stop)
    have "\<exists>ue'. parse_fields (b @ NUL # NUL # r) (snd (match_field ?m ue)) = Some ue'"
      by (rule less) (simp add: x)
    then show ?thesis unfolding parse_fields_step [of ?m] c using x by simp
  next
    case False
    then have c: "cstr ?m = x" by (simp add: cstr_stop)
    then show ?thesis unfolding parse_fields_step [of ?m] c
      by (simp add: parse_fields.simps [of "NUL # r"])
  qed
qed

lemma key_cases:
  assumes "has_prefix key m \<Longrightarrow> (\<And>key'. take 6 key \<noteq> take 6 key' \<Longrightarrow> 6 \<le> length key \<Longrightarrow> 6 \<le> length key' \<Longrightarrow>
      \<not> has_prefix key' m) \<Longrightarrow> Q" "\<not> has_prefix key m \<Longrightarrow> Q"
  shows Q
  using assms by (metis has_prefix_def min.absorb1 take_take)

lemma match_field_sets:
  shows "cstr (ue_action (snd (match_field m ue))) =
      (if has_prefix ''ACTION='' m then cstr (drop (length ''ACTION='') m) else cstr (ue_action ue))"
    and "cstr (ue_path (snd (match_field m ue))) =
      (if has_prefix ''DEVPATH='' m then cstr (drop (length ''DEVPATH='') m) else cstr (ue_path ue))"
    and "cstr (ue_subsystem (snd (match_field m ue))) =
      (if has_prefix ''SUBSYSTEM='' m then cstr (drop (length ''SUBSYSTEM='') m) else cstr (ue_subsystem ue))"
    and "cstr (ue_firmware (snd (match_field m ue))) =
      (if has_prefix ''FIRMWARE='' m then cstr (drop (length ''FIRMWARE='') m) else cstr (ue_firmware ue))"
    and "ue_major (snd (match_field m ue)) =
      (if has_prefix ''MAJOR='' m then atoi (cstr (drop (length ''MAJOR='') m)) else ue_major ue)"
    and "ue_minor (snd (match_field m ue)) =
      (if has_prefix ''MINOR='' m then atoi (cstr (drop (length ''MINOR='') m)) else ue_minor ue)"
    and "ue_partition_num (snd (match_field m ue)) =
      (if has_prefix ''PARTN='' m then atoi (cstr (drop (length ''PARTN='') m)) else ue_partition_num ue)"
    and "map_option cstr (ue_partition_name (snd (match_field m ue))) =
      (if has_prefix ''PARTNAME='' m then Some (cstr (drop (length ''PARTNAME='') m)) else map_option cstr (ue_partition_name ue))"
    and "map_option cstr (ue_device_name (snd (match_field m ue))) =
      (if has_prefix ''DEVNAME='' m then Some (cstr (drop (length ''DEVNAME='') m)) else map_option cstr (ue_device_name ue))"
  subgoal by (rule key_cases [of "''ACTION=''" m]) (simp_all add: match_field_def eval_nat_numeral)
  subgoal by (rule key_cases [of "''DEVPATH=''" m]) (simp_all add: match_field_def eval_nat_numeral)
  subgoal by (rule key_cases [of "''SUBSYSTEM=''" m]) (simp_all add: match_field_def eval_nat_numeral)
  subgoal by (rule key_cases [of "''FIRMWARE=''" m]) (simp_all add: match_field_def eval_nat_numeral)
  subgoal by (rule key_cases [of "''MAJOR=''" m]) (simp_all add: match_field_def eval_nat_numeral)
  subgoal by (rule key_cases [of "''MINOR=''" m]) (simp_all add: match_field_def eval_nat_numeral)
  subgoal by (rule key_cases [of "''PARTN=''" m]) (simp_all add: match_field_def eval_nat_numeral)
  subgoal by (rule key_cases [of "''PARTNAME=''" m]) (simp_all add: match_field_def eval_nat_numeral)
  subgoal by (rule key_cases [of "''DEVNAME=''" m]) (simp_all add: match_field_def eval_nat_numeral)
  done

lemma no_event_fields:
  "cstr (ue_action no_event) = []" "cstr (ue_path no_event) = []" "cstr (ue_subsystem no_event) = []"
  "cstr (ue_firmware no_event) = []" "ue_major no_event = - 1" "ue_minor no_event = - 1"
  "ue_partition_num no_event = - 1" "map_option cstr (ue_partition_name no_event) = None"
  "map_option cstr (ue_device_name no_event) = None"
  by (simp_all add: no_event_def cstr_at_def)

text \<open>
  C10.  Every message of the kernel is parsed, whatever its bytes are: \<open>parse_event\<close> stops at the two
  NULs that are stored behind the message and never reads past them, and each field of the event is
  the value of the last string of the message with its key, or the default where there is none.
\<close>

theorem parse_event_fields:
  "\<exists>ue. parse_event (msg @ NUL # NUL # r) = Some ue \<and>
    (let ss = msg_strings (msg @ NUL # NUL # r);
         text = (\<lambda>key. case field_of key ss of Some v \<Rightarrow> v | None \<Rightarrow> []);
         number = (\<lambda>key. case field_of key ss of Some v \<Rightarrow> atoi v | None \<Rightarrow> - 1)
     in cstr (ue_action ue) = text ''ACTION='' \<and> cstr (ue_path ue) = text ''DEVPATH='' \<and>
        cstr (ue_subsystem ue) = text ''SUBSYSTEM='' \<and> cstr (ue_firmware ue) = text ''FIRMWARE='' \<and>
        ue_major ue = number ''MAJOR='' \<and> ue_minor ue = number ''MINOR='' \<and> ue_partition_num ue = number ''PARTN='' \<and>
        map_option cstr (ue_partition_name ue) = field_of ''PARTNAME='' ss \<and>
        map_option cstr (ue_device_name ue) = field_of ''DEVNAME='' ss)"
proof -
  obtain ue where ue: "parse_fields (msg @ NUL # NUL # r) no_event = Some ue"
    using parse_fields_defined by blast
  note f = parse_fields_field [OF ue _ match_field_sets(1)] parse_fields_field [OF ue _ match_field_sets(2)]
    parse_fields_field [OF ue _ match_field_sets(3)] parse_fields_field [OF ue _ match_field_sets(4)]
    parse_fields_field [OF ue _ match_field_sets(5)] parse_fields_field [OF ue _ match_field_sets(6)]
    parse_fields_field [OF ue _ match_field_sets(7)] parse_fields_field [OF ue _ match_field_sets(8)]
    parse_fields_field [OF ue _ match_field_sets(9)]
  have same: "(case x of None \<Rightarrow> None | Some v \<Rightarrow> Some v) = x" for x :: "string option" by (cases x) auto
  show ?thesis unfolding Let_def parse_event_def
    by (intro exI [of _ ue] conjI ue f [unfolded no_event_fields same]) simp_all
qed

subsection \<open>The calls that handling an event makes\<close>

text \<open>\<open>calls_only Q st st'\<close>: the calls made between two states satisfy \<open>Q\<close>.\<close>

definition calls_only :: "(syscall \<Rightarrow> bool) \<Rightarrow> init_st \<Rightarrow> init_st \<Rightarrow> bool" where
  "calls_only Q st st' \<longleftrightarrow> (\<exists>t. trace st' = t @ trace st \<and> (\<forall>x \<in> set t. Q (fst x)))"

lemma calls_refl: "calls_only Q st st"
  by (simp add: calls_only_def)

lemma calls_trans: "calls_only Q st st' \<Longrightarrow> calls_only Q st' st'' \<Longrightarrow> calls_only Q st st''"
  unfolding calls_only_def by (metis (no_types, lifting) UnE append_assoc set_append)

lemma calls_perform: "calls_only Q st s \<Longrightarrow> Q c \<Longrightarrow> calls_only Q st (perform P c s)"
proof -
  assume "calls_only Q st s" "Q c"
  then obtain t where "trace s = t @ trace st" "\<forall>x \<in> set t. Q (fst x)" by (auto simp: calls_only_def)
  with \<open>Q c\<close> have "trace (perform P c s) = ((c, os P (trace s) c) # t) @ trace st"
    "\<forall>x \<in> set ((c, os P (trace s) c) # t). Q (fst x)" by (simp_all add: trace_perform)
  then show ?thesis unfolding calls_only_def by blast
qed

lemma calls_fold:
  assumes "calls_only Q st s" "\<And>x s. x \<in> set xs \<Longrightarrow> calls_only Q st s \<Longrightarrow> calls_only Q st (f x s)"
  shows "calls_only Q st (fold f xs s)"
  using assms
proof (induction xs arbitrary: s)
  case (Cons x xs)
  have "calls_only Q st (f x s)" by (rule Cons.prems) (simp_all add: Cons.prems)
  with Cons.IH Cons.prems(2) show ?case by simp
qed simp

lemma calls_if: "(b \<Longrightarrow> calls_only Q st x) \<Longrightarrow> (\<not> b \<Longrightarrow> calls_only Q st y) \<Longrightarrow> calls_only Q st (if b then x else y)"
  by simp

lemmas calls_rules = calls_refl calls_perform calls_fold calls_if






lemma has_prefix_take: "has_prefix p s \<Longrightarrow> length p \<le> n \<Longrightarrow> has_prefix p (take n s @ r)"
  by (auto simp: has_prefix_iff)

lemma has_prefix_trans: "has_prefix p q \<Longrightarrow> has_prefix q s \<Longrightarrow> has_prefix p s"
  by (auto simp: has_prefix_iff)

lemma dev_clip: "5 < n \<Longrightarrow> has_prefix ''/dev/'' s \<Longrightarrow> has_prefix ''/dev/'' (clip n s @ r)"
  using has_prefix_take [of "''/dev/''" s "n - 1" r] by (simp add: clip_def)


lemma dev_paths [simp]:
  "has_prefix ''/dev/'' (SLASH # CHR ''d'' # CHR ''e'' # CHR ''v'' # SLASH # s)"
  "has_prefix ''/dev'' (SLASH # CHR ''d'' # CHR ''e'' # CHR ''v'' # s)"
  "5 < n \<Longrightarrow> has_prefix ''/dev/'' (clip n (SLASH # CHR ''d'' # CHR ''e'' # CHR ''v'' # SLASH # s) @ r)"
  "5 < n \<Longrightarrow> has_prefix ''/dev/'' (clip n (SLASH # CHR ''d'' # CHR ''e'' # CHR ''v'' # SLASH # s))"
  "5 < n \<Longrightarrow> has_prefix ''/dev'' (clip n (SLASH # CHR ''d'' # CHR ''e'' # CHR ''v'' # SLASH # s))"
proof -
  show dev: "has_prefix ''/dev/'' (SLASH # CHR ''d'' # CHR ''e'' # CHR ''v'' # SLASH # s)" for s by (simp add: has_prefix_def)
  show "has_prefix ''/dev'' (SLASH # CHR ''d'' # CHR ''e'' # CHR ''v'' # s)" by (simp add: has_prefix_def)
  show clip: "has_prefix ''/dev/'' (clip n (SLASH # CHR ''d'' # CHR ''e'' # CHR ''v'' # SLASH # s) @ r)" if "5 < n" for r
    using dev_clip [OF that dev] by simp
  show "has_prefix ''/dev/'' (clip n (SLASH # CHR ''d'' # CHR ''e'' # CHR ''v'' # SLASH # s))" if "5 < n"
    using clip [OF that, of "[]"] by simp
  then show "has_prefix ''/dev'' (clip n (SLASH # CHR ''d'' # CHR ''e'' # CHR ''v'' # SLASH # s))" if "5 < n"
    using that has_prefix_trans [of "''/dev''" "''/dev/''"] by (simp add: has_prefix_def [of "''/dev''" "''/dev/''"])
qed














text \<open>An event of the kernel for \<open>/dev/null\<close> and a configuration with one rule for it.\<close>

definition null_event :: uevent where
  "null_event = no_event\<lparr>ue_action := ''add'' @ [NUL], ue_path := ''/devices/virtual/mem/null'' @ [NUL],
     ue_subsystem := ''mem'' @ [NUL], ue_major := 1, ue_minor := 3\<rparr>"

definition null_rule :: dev_st where
  "null_rule = dev_st0\<lparr>dev_perms := [\<lparr>dp_name = ''/dev/null'', dp_attr = None, dp_perm = 0x1B6, dp_uid = 0, dp_gid = 0,
     dp_prefix = False\<rparr>]\<rparr>"


subsection \<open>The node of a device\<close>












subsection \<open>Events that crash the device manager\<close>

text \<open>The rules below \<open>/sys\<close> as the configuration adds them.\<close>

definition rules_ok :: "dev_st \<Rightarrow> bool" where
  "rules_ok dv \<longleftrightarrow> list_all (\<lambda>dp. has_prefix ''/sys/'' (dp_name dp) \<and> dp_attr dp \<noteq> None) (sys_perms dv)"

lemma fixup_rules_defined:
  "list_all (\<lambda>dp. has_prefix ''/sys/'' (dp_name dp) \<and> dp_attr dp \<noteq> None) dps \<Longrightarrow> fixup_rules P upath dps st \<noteq> None"
  by (induction dps arbitrary: st) (auto simp: Let_def has_prefix_iff)

lemma parse_platform_block_defined:
  assumes "has_prefix ''/devices/platform/'' (cstr (ue_path ue))" "NUL \<in> set (ue_path ue)"
  shows "parse_platform_block_device ue dv \<noteq> None"
proof -
  obtain a b where ab: "ue_path ue = a @ NUL # b" "NUL \<notin> set a" using assms(2) by (metis split_list_first)
  then have "cstr (ue_path ue) = a" by (simp add: cstr_stop)
  moreover from this assms(1) obtain r where "a = ''/devices/platform/'' @ r" by (auto simp: has_prefix_iff)
  moreover from this have "split_first SLASH (rev a) \<noteq> None" by (simp add: split_first_None)
  ultimately show ?thesis
    using ab(1) by (auto simp: parse_platform_block_device_def after_platform_def split_last_def Let_def split: option.splits)
qed

text \<open>
  C32.  With a configuration that was read from its files, handling an event is undefined for exactly
  two kinds of events: an event of a platform device whose path is so short that 18 characters on is
  outside of the buffer, and the event of a character device whose path ends right after the name of
  a platform driver, where a null pointer is dereferenced.
\<close>

theorem event_crash_iff:
  assumes "rules_ok dv" "NUL \<in> set (ue_path ue)"
  shows "handle_device_event P ue dv st = None \<longleftrightarrow>
    (let sub = cstr (ue_subsystem ue); path = cstr (ue_path ue) in
     \<not> has_prefix ''block'' sub \<and>
     (if has_prefix ''platform'' sub
      then cstr (ue_action ue) \<in> {''add'', ''remove''} \<and> length (ue_path ue) \<le> 18
      else parse_device_name ue 64 \<noteq> None \<and> (has_prefix ''usb'' sub \<longrightarrow> sub = ''usb'') \<and>
           has_prefix ''/devices/platform/'' path \<and> SLASH \<notin> set (drop 18 path)))"
proof -
  define r where "r = (if cstr (ue_action ue) = ''add'' then fixup_sys_perms P (cstr (ue_path ue)) dv st else Some st)"
  have "r \<noteq> None"
    using fixup_rules_defined [OF assms(1) [unfolded rules_ok_def], of P "cstr (ue_path ue)" st]
    by (simp add: r_def fixup_sys_perms_def)
  then obtain s where s: "r = Some s" by auto
  have block: "handle_block_device_event P ue dv s \<noteq> None"
    using parse_platform_block_defined [OF _ assms(2), of dv]
    by (auto simp: handle_block_device_event_def Let_def split: option.split)
  have platform: "handle_platform_device_event ue dv = None \<longleftrightarrow>
      cstr (ue_action ue) \<in> {''add'', ''remove''} \<and> length (ue_path ue) \<le> 18"
    by (auto simp: handle_platform_device_event_def after_platform_def)
  have links: "get_character_device_symlinks P ue s' = None \<longleftrightarrow>
      has_prefix ''/devices/platform/'' (cstr (ue_path ue)) \<and> SLASH \<notin> set (drop 18 (cstr (ue_path ue)))" for s'
    by (auto simp: get_character_device_symlinks_def Let_def split_first_None [symmetric] split: option.split)
  have generic: "handle_generic_device_event P ue dv s = None \<longleftrightarrow> parse_device_name ue 64 \<noteq> None \<and>
      (has_prefix ''usb'' (cstr (ue_subsystem ue)) \<longrightarrow> cstr (ue_subsystem ue) = ''usb'') \<and>
      has_prefix ''/devices/platform/'' (cstr (ue_path ue)) \<and> SLASH \<notin> set (drop 18 (cstr (ue_path ue)))"
    by (auto simp: handle_generic_device_event_def Let_def case_prod_unfold links bind_eq_None_conv split: option.split)
  show ?thesis
    using block by (simp add: handle_device_event_def r_def [symmetric] s platform generic Let_def)
qed

text \<open>The event of a serial port of a platform device, as the kernel may send it.\<close>

theorem event_crash_iff_witness:
  "rules_ok null_rule \<and>
   handle_device_event example_platform
     (null_event\<lparr>ue_path := ''/devices/platform/serial'' @ [NUL], ue_subsystem := ''tty'' @ [NUL]\<rparr>) null_rule init_st0 = None"
proof -
  let ?ue = "null_event\<lparr>ue_path := ''/devices/platform/serial'' @ [NUL], ue_subsystem := ''tty'' @ [NUL]\<rparr>"
  have e: "rules_ok null_rule" "NUL \<in> set (ue_path ?ue)" "cstr (ue_subsystem ?ue) = ''tty''"
    "cstr (ue_path ?ue) = ''/devices/platform/serial''" "parse_device_name ?ue 64 = Some ''serial''"
    by code_simp+
  show ?thesis using event_crash_iff [OF e(1,2)] unfolding e(3-5) by (simp add: e(1) has_prefix_def Let_def)
qed

end
