(* ===== verification/Firmware.thy ===== *)
theory Firmware
  imports Devices
begin

text \<open>
  The firmware events of \<open>devices.c\<close>: a child process of \<open>ueventd\<close> copies the file that a driver asks
  for into the driver's \<open>data\<close> file and reports the end of the transfer in its \<open>loading\<close> file.
\<close>

subsection \<open>The copy\<close>

text \<open>
  \<open>while (nr > 0)\<close>: the variable \<open>nw\<close> is set to 0 before each write, so that each write starts at the
  beginning of the buffer again.
\<close>

function fw_write :: "platform \<Rightarrow> int \<Rightarrow> char list \<Rightarrow> int \<Rightarrow> init_st \<Rightarrow> int \<times> init_st" where
  "fw_write P data_fd buf nr st =
     (if 0 < nr then
        let (w, st) = sys P (Sys_write data_fd (take (nat nr) buf)) st; nw = an_ret w in
        if nw \<le> 0 then (- 1, st) else fw_write P data_fd buf (nr - nw) st
      else (0, st))"
  by pat_completeness auto
termination
  by (relation "measure (\<lambda>(P, data_fd, buf, nr, st). nat nr)") auto

function fw_copy :: "platform \<Rightarrow> int \<Rightarrow> int \<Rightarrow> int \<Rightarrow> init_st \<Rightarrow> int \<times> init_st" where
  "fw_copy P fw_fd data_fd len_to_copy st =
     (if 0 < len_to_copy then
        let (r, st) = sys P (Sys_read fw_fd (PAGE_SIZE P)) st; nr = an_ret r in
        if nr = 0 then (0, st)
        else if nr < 0 then (- 1, st)
        else
          let (ret, st) = fw_write P data_fd (got r) nr st in
          if ret = 0 then fw_copy P fw_fd data_fd (len_to_copy - nr) st else (ret, st)
      else (0, st))"
  by pat_completeness auto
termination
  by (relation "measure (\<lambda>(P, fw_fd, data_fd, len, st). nat len)") auto

declare fw_write.simps [simp del] fw_copy.simps [simp del]

definition load_firmware :: "platform \<Rightarrow> int \<Rightarrow> int \<Rightarrow> int \<Rightarrow> init_st \<Rightarrow> int \<times> init_st" where
  "load_firmware P fw_fd loading_fd data_fd st =
     (let (s, st) = sys P (Sys_fstat fw_fd) st in
      if an_ret s < 0 then (- 1, st)
      else
        let st = perform P (Sys_write loading_fd ''1'') st;
            (ret, st) = fw_copy P fw_fd data_fd (an_size s) st
        in (ret, perform P (Sys_write loading_fd (if ret = 0 then ''0'' else ''-1'')) st))"

subsection \<open>The request of a driver\<close>

definition is_booting :: "platform \<Rightarrow> init_st \<Rightarrow> bool \<times> init_st" where
  "is_booting P st = (let (a, st) = sys P (Sys_access ''/dev/.booting'') st in (an_ret a = 0, st))"

text \<open>The file is looked for in two directories, again and again while the system boots.\<close>

partial_function (option) open_firmware ::
  "platform \<Rightarrow> string \<Rightarrow> string \<Rightarrow> bool \<Rightarrow> init_st \<Rightarrow> (int \<times> init_st) option" where
  "open_firmware P file1 file2 booting st =
     (let (f, st) = sys P (Sys_open file1 [O_RDONLY] 0) st in
      if 0 \<le> an_ret f then Some (an_ret f, st)
      else
        let (f, st) = sys P (Sys_open file2 [O_RDONLY] 0) st in
        if 0 \<le> an_ret f then Some (an_ret f, st)
        else if booting then
          let st = perform P (Sys_usleep 100000) st;
              (booting, st) = is_booting P st
          in open_firmware P file1 file2 booting st
        else Some (- 1, st))"

declare open_firmware.simps [code]

definition process_firmware_event :: "platform \<Rightarrow> uevent \<Rightarrow> init_st \<Rightarrow> init_st option" where
  "process_firmware_event P ue st =
     (let (booting, st) = is_booting P st;
          root = ''/sys'' @ cstr (ue_path ue) @ ''/'';
          file1 = ''/etc/firmware/'' @ cstr (ue_firmware ue);
          file2 = ''/vendor/firmware/'' @ cstr (ue_firmware ue);
          (l, st) = sys P (Sys_open (root @ ''loading'') [O_WRONLY] 0) st; loading_fd = an_ret l in
      if loading_fd < 0 then Some st
      else
        let (d, st) = sys P (Sys_open (root @ ''data'') [O_WRONLY] 0) st; data_fd = an_ret d in
        if data_fd < 0 then Some (perform P (Sys_close loading_fd) st)
        else do {
          (fw_fd, st) \<leftarrow> open_firmware P file1 file2 booting st;
          let st = (if fw_fd < 0 then perform P (Sys_write loading_fd ''-1'') st
                    else perform P (Sys_close fw_fd) (snd (load_firmware P fw_fd loading_fd data_fd st)));
          Some (perform P (Sys_close loading_fd) (perform P (Sys_close data_fd) st))
        })"

text \<open>The answer 0 of \<open>fork\<close> is the view of the child, which exits when it is done.\<close>

definition handle_firmware_event :: "platform \<Rightarrow> uevent \<Rightarrow> init_st \<Rightarrow> init_st option" where
  "handle_firmware_event P ue st =
     (if cstr (ue_subsystem ue) \<noteq> ''firmware'' then Some st
      else if cstr (ue_action ue) \<noteq> ''add'' then Some st
      else
        let (f, st) = sys P Sys_fork st in
        if an_ret f = 0
        then map_option (\<lambda>st. (perform P (Sys_exit 0) st)\<lparr>exited := Some 0\<rparr>) (process_firmware_event P ue st)
        else Some st)"

subsection \<open>What reaches the driver\<close>

lemma io_Cons [simp]:
  "written fd ((Sys_write fd' buf, a) # t) = written fd t @ (if fd' = fd then buf else [])"
  "accepted fd ((Sys_write fd' buf, a) # t) = accepted fd t @ (if fd' = fd then take (nat (an_ret a)) buf else [])"
  "delivered fd ((Sys_write fd' buf, a) # t) = delivered fd t"
  "written fd ((Sys_read fd' n, a) # t) = written fd t"
  "accepted fd ((Sys_read fd' n, a) # t) = accepted fd t"
  "delivered fd ((Sys_read fd' n, a) # t) = delivered fd t @ (if fd' = fd then got a else [])"
  "written fd ((Sys_fstat fd', a) # t) = written fd t"
  "accepted fd ((Sys_fstat fd', a) # t) = accepted fd t"
  "delivered fd ((Sys_fstat fd', a) # t) = delivered fd t"
  by (simp_all add: written_def accepted_def delivered_def)

text \<open>A driver that takes what it is given.\<close>

definition takes_all :: "platform \<Rightarrow> int \<Rightarrow> bool" where
  "takes_all P fd \<longleftrightarrow> (\<forall>t buf. an_ret (os P t (Sys_write fd buf)) = int (length buf))"

lemma fw_write_all:
  assumes "takes_all P fd" "nr = int (length buf)" "buf \<noteq> []"
  shows "fw_write P fd buf nr st = (0, perform P (Sys_write fd buf) st)"
  using assms by (simp add: takes_all_def fw_write.simps [of P fd buf "int (length buf)"] run_simps fw_write.simps [of P fd buf 0])

lemma fw_copy_io:
  assumes "takes_all P data_fd" "loading_fd \<noteq> data_fd" "fw_copy P fw_fd data_fd len st = (ret, st')"
  shows "\<exists>t. trace st' = t @ trace st \<and> accepted data_fd t = delivered fw_fd t \<and> written loading_fd t = []"
  using assms(3)
proof (induction "nat len" arbitrary: len st rule: less_induct)
  case less
  define r where "r = os P (trace st) (Sys_read fw_fd (PAGE_SIZE P))"
  let ?s1 = "perform P (Sys_read fw_fd (PAGE_SIZE P)) st"
  let ?s2 = "perform P (Sys_write data_fd (got r)) ?s1"
  show ?case
  proof (cases "0 < len")
    case False
    with less.prems show ?thesis by (simp add: fw_copy.simps [of P fw_fd data_fd len] written_def accepted_def delivered_def)
  next
    case True
    show ?thesis
    proof (cases "0 < an_ret r")
      case False
      then have "st' = ?s1" "got r = []" using less.prems True
        by (auto simp: fw_copy.simps [of P fw_fd data_fd len] run_simps r_def [symmetric] simp flip: length_0_conv split: if_splits)
      then show ?thesis
        by (intro exI [of _ "[(Sys_read fw_fd (PAGE_SIZE P), r)]"])
           (simp add: trace_perform r_def written_def accepted_def delivered_def)
    next
      case pos: True
      then have "got r \<noteq> []" by (simp flip: length_0_conv)
      then have w: "fw_write P data_fd (got r) (an_ret r) ?s1 = (0, ?s2)"
        using fw_write_all [OF assms(1), of "an_ret r" "got r"] pos by simp
      have "fw_copy P fw_fd data_fd (len - an_ret r) ?s2 = (ret, st')"
        using less.prems True pos w by (simp add: fw_copy.simps [of P fw_fd data_fd len] run_simps r_def [symmetric])
      from less.hyps [OF _ this] True pos obtain t where t: "trace st' = t @ trace ?s2"
        "accepted data_fd t = delivered fw_fd t" "written loading_fd t = []" by auto
      let ?w = "os P (trace ?s1) (Sys_write data_fd (got r))"
      have "nat (an_ret ?w) = length (got r)" using assms(1) by (simp add: takes_all_def)
      then show ?thesis using t assms(2)
        by (intro exI [of _ "t @ [(Sys_write data_fd (got r), ?w), (Sys_read fw_fd (PAGE_SIZE P), r)]"])
           (simp add: trace_perform r_def [symmetric] written_def [of _ "[]"] accepted_def [of _ "[]"] delivered_def [of _ "[]"])
    qed
  qed
qed

text \<open>
  C33.  When the driver takes what each write gives it, the bytes that reach its \<open>data\<close> file are the
  bytes read from the firmware file, in their order, also when reading fails on the way.  The
  transfer is announced in its \<open>loading\<close> file and ended there with \<open>0\<close> or, after an error, \<open>-1\<close>; without
  the size of the file nothing is announced and nothing is copied.
\<close>

theorem firmware_copied:
  assumes "takes_all P data_fd" "loading_fd \<noteq> data_fd" "load_firmware P fw_fd loading_fd data_fd st = (ret, st')"
  shows "\<exists>t. trace st' = t @ trace st \<and> accepted data_fd t = delivered fw_fd t \<and>
    (written loading_fd t = ''1'' @ (if ret = 0 then ''0'' else ''-1'') \<or>
     written loading_fd t = [] \<and> ret = - 1 \<and> delivered fw_fd t = [])"
proof -
  define s where "s = os P (trace st) (Sys_fstat fw_fd)"
  let ?s1 = "perform P (Sys_fstat fw_fd) st" and ?s2 = "perform P (Sys_write loading_fd ''1'') (perform P (Sys_fstat fw_fd) st)"
  note nils = written_def [of _ "[]"] accepted_def [of _ "[]"] delivered_def [of _ "[]"]
  show ?thesis
  proof (cases "an_ret s < 0")
    case True
    with assms(3) have "st' = ?s1" "ret = - 1" by (auto simp: load_firmware_def run_simps s_def)
    then show ?thesis by (intro exI [of _ "[(Sys_fstat fw_fd, s)]"]) (simp add: trace_perform s_def nils)
  next
    case False
    obtain ret' s3 where c: "fw_copy P fw_fd data_fd (an_size s) ?s2 = (ret', s3)" by force
    with assms(3) False have st': "ret' = ret" "st' = perform P (Sys_write loading_fd (if ret = 0 then ''0'' else ''-1'')) s3"
      by (auto simp: load_firmware_def run_simps s_def)
    from fw_copy_io [OF assms(1,2) c] obtain t where "trace s3 = t @ trace ?s2" "accepted data_fd t = delivered fw_fd t"
      "written loading_fd t = []" by blast
    then show ?thesis using st' assms(2)
      by (intro exI [of _ "(Sys_write loading_fd (if ret = 0 then ''0'' else ''-1''), _) # t @
          [(Sys_write loading_fd ''1'', _), (Sys_fstat fw_fd, _)]"]) (simp add: trace_perform nils)
  qed
qed

text \<open>A kernel with a firmware file of two bytes and a driver that takes what it is given.\<close>

definition firmware_os :: "sys_trace \<Rightarrow> syscall \<Rightarrow> answer" where
  "firmware_os t c =
     (case c of
        Sys_fstat _ \<Rightarrow> (ok_answer 0)\<lparr>an_size := 2\<rparr>
      | Sys_read _ _ \<Rightarrow> (ok_answer 2)\<lparr>an_data := ''AB''\<rparr>
      | Sys_write _ buf \<Rightarrow> ok_answer (int (length buf))
      | _ \<Rightarrow> ok_answer 0)"

theorem firmware_copied_witness:
  "\<exists>ret st' t. load_firmware (example_platform\<lparr>os := firmware_os\<rparr>) 5 6 7 init_st0 = (ret, st') \<and> ret = 0 \<and>
     trace st' = t @ trace init_st0 \<and> accepted 7 t = delivered 5 t \<and> accepted 7 t = ''AB'' \<and> written 6 t = ''10''"
proof -
  let ?P = "example_platform\<lparr>os := firmware_os\<rparr>"
  let ?r = "load_firmware ?P 5 6 7 init_st0"
  have all: "takes_all ?P 7" by (simp add: takes_all_def firmware_os_def ok_answer_def)
  have r: "fst ?r = 0" "delivered 5 (trace (snd ?r)) = ''AB''" "trace init_st0 = []" by code_simp+
  have "load_firmware ?P 5 6 7 init_st0 = (fst ?r, snd ?r)" by simp
  from firmware_copied [OF all _ this] obtain t where t: "trace (snd ?r) = t @ trace init_st0" "accepted 7 t = delivered 5 t"
    "written 6 t = ''1'' @ (if fst ?r = 0 then ''0'' else ''-1'') \<or> written 6 t = [] \<and> fst ?r = - 1 \<and> delivered 5 t = []"
    by auto
  have "delivered 5 t = ''AB''" using r(2,3) t(1) by simp
  with t r(1) show ?thesis by (intro exI [of _ "fst ?r"] exI [of _ "snd ?r"] exI [of _ t]) (simp add: prod_eq_iff)
qed

text \<open>
  C34.  A write that the driver accepts only in part is not continued but repeated from the beginning
  of the buffer: after \<open>k\<close> of its bytes the driver gets the first bytes again and the last \<open>k\<close> bytes
  never.
\<close>

theorem firmware_short_write:
  assumes "an_ret (os P (trace st) (Sys_write fd buf)) = int k" "0 < k" "k < length buf"
    "an_ret (os P ((Sys_write fd buf, os P (trace st) (Sys_write fd buf)) # trace st)
       (Sys_write fd (take (length buf - k) buf))) = int (length buf - k)"
  shows "\<exists>t. fw_write P fd buf (int (length buf)) st = (0, st\<lparr>trace := t @ trace st\<rparr>) \<and>
    accepted fd t = take k buf @ take (length buf - k) buf"
proof -
  let ?s1 = "perform P (Sys_write fd buf) st" and ?b = "take (length buf - k) buf"
  let ?w = "os P (trace ?s1) (Sys_write fd ?b)"
  have a: "an_ret ?w = int (length buf - k)"
    using assms(4) by (simp add: trace_perform)
  have n: "nat (int (length buf) - int k) = length buf - k" by simp
  have "fw_write P fd buf (int (length buf)) st = fw_write P fd buf (int (length buf) - int k) ?s1"
    using assms(1-3) by (subst fw_write.simps) (auto simp: run_simps)
  also have "\<dots> = (0, perform P (Sys_write fd ?b) ?s1)"
    using a assms(2,3) by (subst fw_write.simps) (simp add: run_simps n of_nat_diff fw_write.simps [of P fd buf 0])
  finally have e: "fw_write P fd buf (int (length buf)) st = (0, perform P (Sys_write fd ?b) ?s1)" .
  have "perform P (Sys_write fd ?b) ?s1 = st\<lparr>trace := [(Sys_write fd ?b, ?w), (Sys_write fd buf, os P (trace st) (Sys_write fd buf))] @ trace st\<rparr>"
    by (simp add: perform_def sys_def Let_def)
  with e a assms(1) show ?thesis
    by (intro exI [of _ "[(Sys_write fd ?b, ?w), (Sys_write fd buf, os P (trace st) (Sys_write fd buf))]"])
       (simp add: accepted_def [of _ "[]"])
qed

text \<open>A driver that takes one byte at a time gets \<open>AA\<close> for the firmware \<open>AB\<close>.\<close>

definition bytewise_os :: "sys_trace \<Rightarrow> syscall \<Rightarrow> answer" where
  "bytewise_os t c = (case c of Sys_write _ buf \<Rightarrow> if t = [] then ok_answer 1 else ok_answer (int (length buf)) | _ \<Rightarrow> ok_answer 0)"

theorem firmware_short_write_witness:
  "\<exists>t. fw_write (example_platform\<lparr>os := bytewise_os\<rparr>) 7 ''AB'' 2 init_st0 = (0, init_st0\<lparr>trace := t @ trace init_st0\<rparr>) \<and>
     accepted 7 t = ''AA''"
  using firmware_short_write [of "example_platform\<lparr>os := bytewise_os\<rparr>" init_st0 7 "''AB''" 1]
  by (simp add: bytewise_os_def ok_answer_def init_st0_def)

end
