(* ===== verification/Ueventd.thy ===== *)
theory Ueventd
  imports Firmware Line_Parser
begin

text \<open>
  The program \<open>ueventd\<close>: its configuration (\<open>ueventd_parser.c\<close> and \<open>set_device_permission\<close> of
  \<open>ueventd.c\<close>), the events of the kernel and the cold boot (\<open>devices.c\<close>), and its main loop
  (\<open>ueventd.c\<close>).  The static \<open>hardware\<close> and \<open>revision\<close> of \<open>ueventd.c\<close> are the fields of \<open>init_st\<close> with
  these names: the variables of \<open>init.c\<close> are not used in this program.
\<close>

subsection \<open>Events\<close>






subsection \<open>The cold boot\<close>









subsection \<open>Configuration\<close>

text \<open>The id of a user or group; an unknown name gets 0.\<close>

definition get_android_id :: "platform \<Rightarrow> string \<Rightarrow> int" where
  "get_android_id P name =
     (case find (\<lambda>(n, aid). n = name) (android_ids P) of Some (n, aid) \<Rightarrow> sint aid | None \<Rightarrow> 0)"

definition uarg :: "arg_array \<Rightarrow> nat \<Rightarrow> string option" where
  "uarg args i = (if i < length args then args ! i else None)"

text \<open>
  The name of the nodes a rule is for, and whether it is the beginning of a name.  For \<open>mtd@\<close> it is
  the device of a partition, a null pointer when there is none.  The outer \<open>None\<close> is the look at the
  character before an empty name.
\<close>

definition rule_name :: "platform \<Rightarrow> string \<Rightarrow> init_st \<Rightarrow> ((string option \<times> bool) \<times> init_st) option" where
  "rule_name P name st =
     (if has_prefix ''mtd@'' name then
        let (n, st) = mtd_name_to_number P (drop 4 name) st
        in Some ((if 0 \<le> n then Some (''/dev/mtd/mtd'' @ show_int n) else None, False), st)
      else if name = [] then None
      else if last name = CHR ''*'' then Some ((Some (butlast name), True), st)
      else Some ((Some name, False), st))"

text \<open>A line with the right number of words; the array of arguments starts at \<open>k\<close>.\<close>

definition set_rule ::
  "platform \<Rightarrow> string \<Rightarrow> string option \<Rightarrow> nat \<Rightarrow> arg_array \<Rightarrow> dev_st \<times> init_st \<Rightarrow> (dev_st \<times> init_st) option" where
  "set_rule P name attr k args = (\<lambda>(dv, st).
     do {
       ((name, prefix), st) \<leftarrow> rule_name P name st;
       a1 \<leftarrow> uarg args (k + 1);
       let (perm, endptr) = strtol 8 a1;
       if endptr \<noteq> [] then Some (dv, st)
       else do {
         a2 \<leftarrow> uarg args (k + 2);
         let uid = get_android_id P a2;
         if uid < 0 then Some (dv, st)
         else do {
           a3 \<leftarrow> uarg args (k + 3);
           let gid = get_android_id P a3;
           if gid < 0 then Some (dv, st)
           else map_option (\<lambda>dv. (dv, st)) (add_dev_perms name attr (of_int perm) (of_int uid) (of_int gid) prefix dv)
         }
       }
     })"

definition set_device_permission ::
  "platform \<Rightarrow> nat \<Rightarrow> arg_array \<Rightarrow> dev_st \<times> init_st \<Rightarrow> (dev_st \<times> init_st) option" where
  "set_device_permission P nargs args h =
     (if nargs = 0 then Some h
      else do {
        name \<leftarrow> uarg args 0;
        if take 1 name = [HASH] then Some h
        else if has_prefix ''/sys/'' name \<and> nargs = 5 then do {
          attr \<leftarrow> uarg args 1;
          set_rule P name (Some attr) 1 args h
        }
        else if nargs \<noteq> 4 then Some h
        else set_rule P name None 0 args h
      })"

definition UEVENTD_PARSER_MAXARGS :: nat where "UEVENTD_PARSER_MAXARGS = 5"

definition parse_line_device ::
  "platform \<Rightarrow> nat \<Rightarrow> nat \<Rightarrow> arg_array \<Rightarrow> dev_st \<times> init_st \<Rightarrow> (dev_st \<times> init_st) option" where
  "parse_line_device P line nargs args = set_device_permission P nargs args"

partial_function (option) rules_loop ::
  "platform \<Rightarrow> parse_state \<Rightarrow> arg_array \<Rightarrow> nat \<Rightarrow> dev_st \<times> init_st \<Rightarrow> (dev_st \<times> init_st) option" where
  "rules_loop P ps args nargs h =
     (case next_token ps of
        None \<Rightarrow> None
      | Some (tok, ps) \<Rightarrow>
          (case tok of
             T_EOF \<Rightarrow> parse_line_device P (ps_line ps) 0 [] h
           | T_NEWLINE \<Rightarrow>
               if nargs \<noteq> 0 then
                 (case parse_line_device P (ps_line ps) nargs args h of
                    None \<Rightarrow> None
                  | Some h \<Rightarrow> rules_loop P ps args 0 h)
               else rules_loop P ps args nargs h
           | T_TEXT \<Rightarrow>
               (let a = store_arg UEVENTD_PARSER_MAXARGS (cstr_at (ps_buf ps) (ps_text ps)) (args, nargs)
                in rules_loop P ps (fst a) (snd a) h)))"

declare rules_loop.simps [code]

definition ueventd_parse_config :: "platform \<Rightarrow> char list \<Rightarrow> dev_st \<times> init_st \<Rightarrow> (dev_st \<times> init_st) option" where
  "ueventd_parse_config P data h =
     rules_loop P \<lparr>ps_buf = data, ps_ptr = 0, ps_text = 0, ps_line = 1, ps_nexttoken = T_EOF\<rparr>
       (replicate UEVENTD_PARSER_MAXARGS None) 0 h"

definition ueventd_parse_config_file :: "platform \<Rightarrow> string \<Rightarrow> dev_st \<times> init_st \<Rightarrow> (int \<times> dev_st \<times> init_st) option" where
  "ueventd_parse_config_file P fn = (\<lambda>(dv, st).
     case read_file P fn st of
       (None, st) \<Rightarrow> Some (- 1, dv, st)
     | (Some data, st) \<Rightarrow> map_option (\<lambda>h. (0, h)) (ueventd_parse_config P data (dv, st)))"

subsection \<open>The program\<close>





subsection \<open>Routines that only make calls and handle events\<close>


subsection \<open>The configuration\<close>

interpretation rules: line_parser "parse_line_device P" "rules_loop P" "\<lambda>n. n" UEVENTD_PARSER_MAXARGS for P
proof
  fix ps args nargs h
  show "rules_loop P ps args nargs h =
     (case next_token ps of None \<Rightarrow> None
      | Some (tok, ps1) \<Rightarrow>
          (case tok of T_EOF \<Rightarrow> Some h
           | T_NEWLINE \<Rightarrow>
               (let ps2 = ps1\<lparr>ps_line := ps_line ps1\<rparr> in
                if nargs \<noteq> 0 then (case parse_line_device P (ps_line ps2) nargs args h of None \<Rightarrow> None | Some h' \<Rightarrow> rules_loop P ps2 args 0 h')
                else rules_loop P ps2 args 0 h)
           | T_TEXT \<Rightarrow> (let a = store_arg UEVENTD_PARSER_MAXARGS (cstr_at (ps_buf ps1) (ps_text ps1)) (args, nargs)
                in rules_loop P ps1 (fst a) (snd a) h)))"
    by (subst rules_loop.simps)
       (auto simp: Let_def parse_line_device_def set_device_permission_def split: option.split prod.split token.split)
qed

lemma parse_config_lines:
  assumes "NUL \<notin> set inp"
  shows "ueventd_parse_config P (inp @ NUL # post) h =
    fold_lines (parse_line_device P) (spec_lines (\<lambda>n. n) UEVENTD_PARSER_MAXARGS 1 (replicate UEVENTD_PARSER_MAXARGS None, 0) False inp) h"
  unfolding ueventd_parse_config_def by (subst rules.loop_spec) (auto simp: remaining_def assms)

text \<open>What a line of the configuration does: at most one rule is added, and a rule for an attribute is below \<open>/sys/\<close>.\<close>

definition add_rule :: "perms_ \<Rightarrow> dev_st \<Rightarrow> dev_st" where
  "add_rule dp dv = (if dp_attr dp \<noteq> None then dv\<lparr>sys_perms := sys_perms dv @ [dp]\<rparr> else dv\<lparr>dev_perms := dev_perms dv @ [dp]\<rparr>)"

lemma add_dev_perms_rule:
  "add_dev_perms (Some name) attr perm uid gid prefix dv =
     Some (add_rule \<lparr>dp_name = name, dp_attr = attr, dp_perm = perm, dp_uid = uid, dp_gid = gid, dp_prefix = prefix\<rparr> dv)"
  by (simp add: add_dev_perms_def add_rule_def Let_def)

lemma rule_name_sys: "rule_name P name st = Some ((Some n, prefix), st') \<Longrightarrow> has_prefix ''/sys/'' name \<Longrightarrow> has_prefix ''/sys/'' n"
  by (auto simp: rule_name_def has_prefix_iff split: if_splits)

lemma set_rule_cases:
  assumes "set_rule P name attr k args (dv, st) = Some (dv', st')" "attr \<noteq> None \<longrightarrow> has_prefix ''/sys/'' name"
  shows "(st' = st \<or> (\<exists>name. st' = snd (mtd_name_to_number P name st))) \<and>
    (dv' = dv \<or> (\<exists>dp. dv' = add_rule dp dv \<and> (dp_attr dp \<noteq> None \<longrightarrow> has_prefix ''/sys/'' (dp_name dp))))"
proof -
  obtain n prefix where n: "rule_name P name st = Some ((n, prefix), st')"
    and dv: "dv' = dv \<or> (\<exists>perm uid gid. add_dev_perms n attr perm uid gid prefix dv = Some dv')"
    using assms(1) unfolding set_rule_def
    by (auto simp: Let_def bind_eq_Some_conv case_prod_unfold split: if_splits)
  have "st' = st \<or> (\<exists>name. st' = snd (mtd_name_to_number P name st))"
    using n by (auto simp: rule_name_def Let_def case_prod_unfold split: if_splits)
  moreover have "\<exists>dp. dv' = add_rule dp dv \<and> (dp_attr dp \<noteq> None \<longrightarrow> has_prefix ''/sys/'' (dp_name dp))"
    if add: "add_dev_perms n attr perm uid gid prefix dv = Some dv'" for perm uid gid
  proof (cases n)
    case (Some m)
    let ?dp = "\<lparr>dp_name = m, dp_attr = attr, dp_perm = perm, dp_uid = uid, dp_gid = gid, dp_prefix = prefix\<rparr>"
    have "dv' = add_rule ?dp dv" using add by (simp add: Some add_dev_perms_rule)
    moreover have "attr \<noteq> None \<longrightarrow> has_prefix ''/sys/'' m" using n rule_name_sys [of P name st] Some assms(2) by blast
    ultimately show ?thesis by (intro exI [of _ ?dp]) simp
  qed (use add in \<open>simp add: add_dev_perms_def\<close>)
  ultimately show ?thesis using dv by blast
qed

lemma set_device_permission_cases:
  assumes "set_device_permission P nargs args (dv, st) = Some (dv', st')"
  shows "(st' = st \<or> (\<exists>name. st' = snd (mtd_name_to_number P name st))) \<and>
    (dv' = dv \<or> (\<exists>dp. dv' = add_rule dp dv \<and> (dp_attr dp \<noteq> None \<longrightarrow> has_prefix ''/sys/'' (dp_name dp))))"
  using assms unfolding set_device_permission_def
  by (auto simp: bind_eq_Some_conv split: if_splits dest!: set_rule_cases)












lemma fold_lines_keeps:
  assumes "fold_lines f ls h = Some h'" "I h" "\<And>line n a h h'. f line n a h = Some h' \<Longrightarrow> I h \<Longrightarrow> I h'"
  shows "I h'"
  using assms(1,2)
proof (induction ls arbitrary: h)
  case (Cons l ls)
  then show ?case by (cases l) (auto split: option.splits dest: assms(3))
qed simp



subsection \<open>Every state of the program\<close>











subsection \<open>Printing rules and reading them back\<close>

fun show_oct :: "nat \<Rightarrow> string" where
  "show_oct n = (if n < 8 then [digit_char n] else show_oct (n div 8) @ [digit_char (n mod 8)])"

declare show_oct.simps [simp del]

lemma oct_digit: "d < 8 \<Longrightarrow> is_digit_in 8 (digit_char d) \<and> the (digit_val (digit_char d)) = d \<and>
    digit_char d \<noteq> DQ \<and> digit_char d \<noteq> NUL \<and> \<not> isspace (digit_char d) \<and> digit_char d \<noteq> CHR ''-'' \<and> digit_char d \<noteq> CHR ''+''"
proof -
  assume d: "d < 8"
  then have "(of_char (digit_char d) :: nat) = 48 + d" by (simp add: of_char_digit_char)
  with d show ?thesis by (auto simp: is_digit_in_def digit_val_digit_char isspace_def)
qed

lemma show_oct_digits: "\<forall>c \<in> set (show_oct n). \<exists>d < 8. c = digit_char d"
proof (induction n rule: show_oct.induct)
  case (1 n)
  then show ?case by (cases "n < 8") (auto simp: show_oct.simps [of n] intro!: exI [of _ "n mod 8"])
qed

lemma scan_show_oct: "scan_digits 8 0 (show_oct n) = (n, [])"
proof (induction n rule: show_oct.induct)
  case (1 n)
  show ?case
  proof (cases "n < 8")
    case True
    then show ?thesis using oct_digit [of n] by (simp add: show_oct.simps [of n])
  next
    case False
    have all: "\<forall>c \<in> set (show_oct (n div 8)). is_digit_in 8 c"
    proof
      fix c assume "c \<in> set (show_oct (n div 8))"
      then obtain d where "d < 8" "c = digit_char d" using show_oct_digits by blast
      then show "is_digit_in 8 c" by (simp add: oct_digit)
    qed
    have "show_oct n = show_oct (n div 8) @ [digit_char (n mod 8)]" using False by (simp add: show_oct.simps [of n])
    then have "scan_digits 8 0 (show_oct n) = scan_digits 8 (n div 8) [digit_char (n mod 8)]"
      using scan_digits_append [OF all, of 0] 1 [OF False] by simp
    then show ?thesis using oct_digit [of "n mod 8"] by simp
  qed
qed

lemma strtol_show_oct: "n < 2 ^ 31 \<Longrightarrow> strtol 8 (show_oct n) = (int n, [])"
proof -
  assume n: "n < 2 ^ 31"
  obtain c r where cr: "show_oct n = c # r" by (cases "show_oct n") (auto simp: show_oct.simps [of n] split: if_splits)
  with show_oct_digits [of n] obtain d where "d < 8" "c = digit_char d" by auto
  with oct_digit [of d] have "scan_sign (dropWhile isspace (show_oct n)) = (False, show_oct n)" by (simp add: cr scan_sign_def)
  moreover have "[] \<noteq> show_oct n" by (simp add: cr)
  ultimately show ?thesis using n unfolding strtol_def by (simp add: scan_show_oct)
qed

text \<open>The words of a rule, with the names of its user and group, and what the words may be.\<close>

definition rule_text :: "perms_ \<Rightarrow> string" where
  "rule_text dp = dp_name dp @ (if dp_prefix dp then ''*'' else [])"

definition rule_words :: "perms_ \<times> string \<times> string \<Rightarrow> string list" where
  "rule_words = (\<lambda>(dp, user, grp).
     rule_text dp # (case dp_attr dp of None \<Rightarrow> [] | Some a \<Rightarrow> [a]) @ [show_oct (unat (dp_perm dp)), user, grp])"

definition plain :: "string \<Rightarrow> bool" where
  "plain w \<longleftrightarrow> DQ \<notin> set w \<and> NUL \<notin> set w"

definition rule_printable :: "platform \<Rightarrow> perms_ \<times> string \<times> string \<Rightarrow> bool" where
  "rule_printable P = (\<lambda>(dp, user, grp).
     list_all plain (rule_words (dp, user, grp)) \<and> rule_text dp \<noteq> [] \<and> take 1 (rule_text dp) \<noteq> [HASH] \<and>
     \<not> has_prefix ''mtd@'' (rule_text dp) \<and> (dp_prefix dp \<or> last (rule_text dp) \<noteq> CHR ''*'') \<and>
     (dp_attr dp = None \<or> has_prefix ''/sys/'' (rule_text dp)) \<and> uint (dp_perm dp) < 0x80000000 \<and>
     0 \<le> get_android_id P user \<and> of_int (get_android_id P user) = dp_uid dp \<and>
     0 \<le> get_android_id P grp \<and> of_int (get_android_id P grp) = dp_gid dp)"

lemma set_printed_rule:
  assumes "rule_printable P r" "r = (dp, user, grp)"
  shows "set_device_permission P (length (rule_words r)) (map Some (rule_words r) @ rest) (dv, st) = Some (add_rule dp dv, st)"
proof -
  note p = assms(1) [unfolded assms(2) rule_printable_def case_prod_conv]
  have name: "rule_name P (rule_text dp) st = Some ((Some (dp_name dp), dp_prefix dp), st)"
    using p by (auto simp: rule_name_def rule_text_def split: if_splits)
  have "uint (dp_perm dp) < 2147483648" using p by blast
  then have "nat (uint (dp_perm dp)) < nat 2147483648" by (subst nat_mono_iff) simp_all
  then have "unat (dp_perm dp) < 2 ^ 31" by simp
  note oct = strtol_show_oct [OF this]
  have perm: "of_int (int (unat (dp_perm dp))) = dp_perm dp" by simp
  have dp: "\<lparr>dp_name = dp_name dp, dp_attr = a, dp_perm = dp_perm dp, dp_uid = dp_uid dp, dp_gid = dp_gid dp, dp_prefix = dp_prefix dp\<rparr> = dp"
    if "dp_attr dp = a" for a using that by simp
  show ?thesis
  proof (cases "dp_attr dp")
    case None
    then show ?thesis using p name
      by (simp add: set_device_permission_def set_rule_def rule_words_def assms(2) uarg_def oct Let_def add_dev_perms_rule dp not_less)
  next
    case (Some a)
    then show ?thesis using p name
      by (simp add: set_device_permission_def set_rule_def rule_words_def assms(2) uarg_def oct Let_def add_dev_perms_rule dp not_less)
  qed
qed

lemma rule_words_bounds: "rule_words r \<noteq> [] \<and> length (rule_words r) \<le> 5"
  by (auto simp: rule_words_def split: prod.split option.split)

lemma fold_printed_rules:
  assumes "list_all (rule_printable P) rs" "length args = UEVENTD_PARSER_MAXARGS"
  shows "fold_lines (parse_line_device P)
      (spec_lines (\<lambda>n. n) UEVENTD_PARSER_MAXARGS line (args, 0) False (concat (map (\<lambda>r. print_line (rule_words r)) rs))) (dv, st) =
    Some (fold (\<lambda>r. add_rule (fst r)) rs dv, st)"
  using assms
proof (induction rs arbitrary: args dv line)
  case Nil
  then show ?case by (simp add: spec_lines.simps(2))
next
  case (Cons r rs)
  let ?ws = "rule_words r" and ?args = "map Some (rule_words r) @ drop (length (rule_words r)) args"
  obtain dp user grp where r: "r = (dp, user, grp)" by (cases r) auto
  have ws: "\<forall>w \<in> set ?ws. DQ \<notin> set w" "?ws \<noteq> []" "length ?ws \<le> length args"
    using Cons.prems rule_words_bounds [of r]
    by (auto simp: r rule_printable_def plain_def list_all_iff UEVENTD_PARSER_MAXARGS_def)
  have "fold_lines (parse_line_device P)
      (spec_lines (\<lambda>n. n) UEVENTD_PARSER_MAXARGS line (?args, 0) False (concat (map (\<lambda>r. print_line (rule_words r)) rs)))
      (add_rule dp dv, st) = Some (fold (\<lambda>r. add_rule (fst r)) rs (add_rule dp dv), st)"
    by (rule Cons.IH) (use Cons.prems ws in simp_all)
  moreover have "parse_line_device P line (length ?ws) ?args (dv, st) = Some (add_rule dp dv, st)"
    unfolding parse_line_device_def by (rule set_printed_rule [OF _ r]) (use Cons.prems in simp)
  ultimately show ?case
    using spec_lines_print_line [OF ws, of "\<lambda>n. n" line "concat (map (\<lambda>r. print_line (rule_words r)) rs)"] Cons.prems
    by (simp add: r)
qed

text \<open>
  C35.  A configuration that is printed from a list of rules, one line for each, is read back as these
  rules: they are added in their order, the ones with an attribute to the rules for \<open>/sys\<close> and the
  others to the rules for \<open>/dev\<close>, with mode, user, group and the mark for beginnings of names.
\<close>

theorem rules_roundtrip:
  assumes "list_all (rule_printable P) rs"
  shows "ueventd_parse_config P (concat (map (\<lambda>r. print_line (rule_words r)) rs) @ [NUL]) (dv, st) =
    Some (dv\<lparr>sys_perms := sys_perms dv @ filter (\<lambda>dp. dp_attr dp \<noteq> None) (map fst rs),
             dev_perms := dev_perms dv @ filter (\<lambda>dp. dp_attr dp = None) (map fst rs)\<rparr>, st)"
proof -
  have "NUL \<notin> set (concat (map (\<lambda>r. print_line (rule_words r)) rs))"
    using assms by (auto simp: list_all_iff rule_printable_def plain_def print_line_def print_word_def split: prod.splits)
  moreover have "fold (\<lambda>r. add_rule (fst r)) rs dv =
    dv\<lparr>sys_perms := sys_perms dv @ filter (\<lambda>dp. dp_attr dp \<noteq> None) (map fst rs),
       dev_perms := dev_perms dv @ filter (\<lambda>dp. dp_attr dp = None) (map fst rs)\<rparr>"
    by (induction rs arbitrary: dv) (auto simp: add_rule_def)
  ultimately show ?thesis by (simp add: parse_config_lines fold_printed_rules [OF assms])
qed

theorem rules_roundtrip_witness:
  "ueventd_parse_config example_platform
     (concat (map (\<lambda>r. print_line (rule_words r))
        [(\<lparr>dp_name = ''/dev/input/'', dp_attr = None, dp_perm = 0x1B0, dp_uid = 1000, dp_gid = 1001, dp_prefix = True\<rparr>, ''system'', ''radio''),
         (\<lparr>dp_name = ''/sys/power'', dp_attr = Some ''state'', dp_perm = 0x180, dp_uid = 0, dp_gid = 1000, dp_prefix = False\<rparr>, ''root'', ''system'')]) @
      [NUL]) (dev_st0, init_st0) =
   Some (dev_st0\<lparr>
     sys_perms := [\<lparr>dp_name = ''/sys/power'', dp_attr = Some ''state'', dp_perm = 0x180, dp_uid = 0, dp_gid = 1000, dp_prefix = False\<rparr>],
     dev_perms := [\<lparr>dp_name = ''/dev/input/'', dp_attr = None, dp_perm = 0x1B0, dp_uid = 1000, dp_gid = 1001, dp_prefix = True\<rparr>]\<rparr>, init_st0)"
proof -
  let ?rs = "[(\<lparr>dp_name = ''/dev/input/'', dp_attr = None, dp_perm = 0x1B0, dp_uid = 1000, dp_gid = 1001, dp_prefix = True\<rparr>, ''system'', ''radio''),
         (\<lparr>dp_name = ''/sys/power'', dp_attr = Some ''state'', dp_perm = 0x180, dp_uid = 0, dp_gid = 1000, dp_prefix = False\<rparr>, ''root'', ''system'')]"
  have "list_all (rule_printable example_platform) ?rs" by code_simp
  from rules_roundtrip [OF this, of dev_st0 init_st0] show ?thesis by (simp add: dev_st0_def)
qed

subsection \<open>Later files override earlier ones\<close>

lemma get_device_perm_append:
  "get_device_perm path (dv\<lparr>dev_perms := r1 @ r2\<rparr>) =
     (if list_ex (dev_rule_matches path) r2 then get_device_perm path (dv\<lparr>dev_perms := r2\<rparr>)
      else get_device_perm path (dv\<lparr>dev_perms := r1\<rparr>))"
proof -
  have "find (dev_rule_matches path) (rev r2) = None \<longleftrightarrow> \<not> list_ex (dev_rule_matches path) r2"
    by (auto simp: find_None_iff list_ex_iff)
  then show ?thesis by (auto simp: get_device_perm_def find_append split: option.split)
qed

lemma file_appends_rules:
  assumes "ueventd_parse_config_file P fn (dv, st) = Some (ret, dv', st')"
  shows "\<exists>r. dev_perms dv' = dev_perms dv @ r"
proof -
  obtain d s1 where f: "read_file P fn st = (d, s1)" by force
  show ?thesis
  proof (cases d)
    case None
    with assms f show ?thesis by (auto simp: ueventd_parse_config_file_def)
  next
    case (Some data)
    let ?I = "\<lambda>h :: dev_st \<times> init_st. \<exists>r. dev_perms (fst h) = dev_perms dv @ r"
    have line: "?I h'" if "parse_line_device P l n a h = Some h'" "?I h" for l n a h h'
      using that set_device_permission_cases [of P n a "fst h" "snd h" "fst h'" "snd h'"]
      by (auto simp: parse_line_device_def add_rule_def)
    have "NUL \<in> set data" using f Some by (auto simp: read_file_def run_simps split: if_splits)
    then obtain inp post where "data = inp @ NUL # post" "NUL \<notin> set inp" by (metis split_list_first)
    with assms f Some parse_config_lines have "fold_lines (parse_line_device P) (spec_lines (\<lambda>n. n) UEVENTD_PARSER_MAXARGS 1
        (replicate UEVENTD_PARSER_MAXARGS None, 0) False inp) (dv, s1) = Some (dv', st')"
      by (auto simp: ueventd_parse_config_file_def)
    from fold_lines_keeps [where I = ?I, OF this _ line] show ?thesis by simp
  qed
qed

text \<open>
  The rules of a later configuration file override the ones of an earlier file: where a rule of
  the file matches the path of a node, the rules of this file alone decide on its permissions, and
  for all other paths nothing changes.
\<close>

lemma later_file_overrides:
  assumes "ueventd_parse_config_file P fn (dv, st) = Some (ret, dv', st')"
  shows "\<exists>r. dev_perms dv' = dev_perms dv @ r \<and>
    get_device_perm path dv' = (if list_ex (dev_rule_matches path) r then get_device_perm path (dv\<lparr>dev_perms := r\<rparr>)
                                else get_device_perm path dv)"
proof -
  from file_appends_rules [OF assms] obtain r where r: "dev_perms dv' = dev_perms dv @ r" by blast
  have "get_device_perm path dv' = get_device_perm path (dv\<lparr>dev_perms := dev_perms dv @ r\<rparr>)" by (simp add: get_device_perm_def r)
  with r get_device_perm_append [where path = path and dv = dv and ?r1.0 = "dev_perms dv" and ?r2.0 = r] show ?thesis by auto
qed

lemma later_file_overrides_witness:
  "\<exists>dv' st' r. ueventd_parse_config_file example_platform ''/ueventd.rc'' (null_rule, init_st0) = Some (0, dv', st') \<and>
     dev_perms dv' = dev_perms null_rule @ r \<and> get_device_perm ''/dev/null'' dv' =
       (if list_ex (dev_rule_matches ''/dev/null'') r then get_device_perm ''/dev/null'' (null_rule\<lparr>dev_perms := r\<rparr>)
        else get_device_perm ''/dev/null'' null_rule)"
proof -
  have "map_option fst (ueventd_parse_config_file example_platform ''/ueventd.rc'' (null_rule, init_st0)) = Some 0" by code_simp
  then obtain dv' st' where f: "ueventd_parse_config_file example_platform ''/ueventd.rc'' (null_rule, init_st0) = Some (0, dv', st')" by auto
  from later_file_overrides [OF f, of "''/dev/null''"] f show ?thesis by blast
qed

subsection \<open>Rules for partitions that do not exist\<close>

text \<open>
  C36.  A rule for a partition \<open>mtd@name\<close> that the flash memory does not have crashes the program: the name of
  the rule is a null pointer, which is copied as a string.  Other faults of a rule are reported and
  skipped.
\<close>

theorem unknown_partition_crashes:
  assumes "mtd_name_to_number P part st = (n, st')" "n < 0" "strtol 8 mode = (perm, [])"
    "0 \<le> get_android_id P user" "0 \<le> get_android_id P grp"
  shows "set_device_permission P 4 (map Some [''mtd@'' @ part, mode, user, grp] @ rest) (dv, st) = None"
proof -
  have "rule_name P (''mtd@'' @ part) st = Some ((None, False), st')"
    using assms(1,2) by (simp add: rule_name_def has_prefix_def)
  with assms show ?thesis
    by (simp add: set_device_permission_def set_rule_def uarg_def add_dev_perms_def not_less has_prefix_def)
qed

theorem unknown_partition_crashes_witness:
  "set_device_permission example_platform 4 (map Some [''mtd@misc'', ''0660'', ''root'', ''system''] @ [None]) (dev_st0, init_st0) = None"
proof -
  have m: "fst (mtd_name_to_number example_platform ''misc'' init_st0) = - 1" "strtol 8 ''0660'' = (432, [])"
    "0 \<le> get_android_id example_platform ''root''" "0 \<le> get_android_id example_platform ''system''" by code_simp+
  obtain n s where n: "mtd_name_to_number example_platform ''misc'' init_st0 = (n, s)" by force
  with m(1) have "n < 0" by simp
  from unknown_partition_crashes [OF n this m(2-4)] show ?thesis by simp
qed

end
