(* ===== verification/Retry.thy ===== *)
theory Retry
  imports Util
begin

text \<open>
  System calls that are made again while a signal interrupts them: the loop
  \<open>do { ret = read(fd, buff, len); } while (ret < 0 && errno == EINTR);\<close> and its like, which
  \<open>bootchart.c\<close> and busybox have around \<open>read\<close>, \<open>write\<close> and \<open>mkdir\<close>.
\<close>

abbreviation (input) interrupted :: "answer \<Rightarrow> bool" where
  "interrupted a \<equiv> an_ret a < 0 \<and> an_errno a = EINTR"

partial_function (option) retry :: "platform \<Rightarrow> syscall \<Rightarrow> init_st \<Rightarrow> (answer \<times> init_st) option" where
  "retry P c st = (let (ret, st) = sys P c st in if interrupted ret then retry P c st else Some (ret, st))"

declare retry.simps [code]

text \<open>
  The calls made after \<open>k\<close> interrupted attempts, a kernel that does not interrupt a call for ever, and
  the bytes of the writes that were not interrupted.
\<close>

fun retries :: "platform \<Rightarrow> syscall \<Rightarrow> nat \<Rightarrow> sys_trace \<Rightarrow> sys_trace" where
  "retries P c 0 t = t"
| "retries P c (Suc k) t = retries P c k ((c, os P t c) # t)"

definition settles :: "platform \<Rightarrow> bool" where
  "settles P \<longleftrightarrow> (\<forall>t c. \<exists>k. \<not> interrupted (os P (retries P c k t) c))"

definition completed :: "int \<Rightarrow> sys_trace \<Rightarrow> string" where
  "completed fd t =
     concat (map (\<lambda>(c, a). case c of Sys_write fd' buf \<Rightarrow> if fd' = fd \<and> \<not> interrupted a then buf else [] | _ \<Rightarrow> []) (rev t))"

text \<open>A trace of writes, and of reads from one descriptor.\<close>

definition io_only :: "int \<Rightarrow> sys_trace \<Rightarrow> bool" where
  "io_only fd t \<longleftrightarrow> list_all (\<lambda>(c, a). case c of Sys_read fd' n \<Rightarrow> fd' = fd | Sys_write fd' b \<Rightarrow> True | _ \<Rightarrow> False) t"

lemma completed_simps [simp]:
  "completed fd [] = []" "completed fd (t @ u) = completed fd u @ completed fd t"
  "completed fd ((c, a) # t) = completed fd t @
     (case c of Sys_write fd' buf \<Rightarrow> if fd' = fd \<and> \<not> interrupted a then buf else [] | _ \<Rightarrow> [])"
  by (simp_all add: completed_def)

lemma delivered_simps [simp]:
  "delivered fd [] = []"
  "delivered fd ((c, a) # t) = delivered fd t @ (case c of Sys_read fd' n \<Rightarrow> if fd' = fd then got a else [] | _ \<Rightarrow> [])"
  by (simp_all add: delivered_def)

lemma io_only_simps [simp]:
  "io_only fd []" "io_only fd (t @ u) \<longleftrightarrow> io_only fd t \<and> io_only fd u"
  "io_only fd ((c, a) # t) \<longleftrightarrow> (case c of Sys_read fd' n \<Rightarrow> fd' = fd | Sys_write fd' b \<Rightarrow> True | _ \<Rightarrow> False) \<and> io_only fd t"
  by (simp_all add: io_only_def)

lemma perform_trace: "perform P c st = st\<lparr>trace := [(c, os P (trace st) c)] @ trace st\<rparr>"
  by (simp add: perform_def sys_def Let_def)

lemma got_failed: "an_ret a < 0 \<Longrightarrow> got a = []"
  by (simp add: got_def)

text \<open>Interrupted attempts of the call \<open>c\<close>.\<close>

definition failed_attempts :: "syscall \<Rightarrow> sys_trace \<Rightarrow> bool" where
  "failed_attempts c t \<longleftrightarrow> list_all (\<lambda>(c', a). c' = c \<and> interrupted a) t"

lemma retry_once:
  "\<not> interrupted (os P (trace st) c) \<Longrightarrow> retry P c st = Some (os P (trace st) c, perform P c st)"
  by (subst retry.simps) (auto simp: run_simps)

lemma retry_again:
  "interrupted (os P (trace st) c) \<Longrightarrow> retry P c st = retry P c (perform P c st)"
  by (subst retry.simps) (simp add: run_simps)

lemma retry_settles:
  assumes "settles P"
  shows "\<exists>r t. retry P c st = Some (r, st\<lparr>trace := ((c, r) # t) @ trace st\<rparr>) \<and> r = os P (t @ trace st) c \<and>
    \<not> interrupted r \<and> failed_attempts c t"
proof -
  obtain k where "\<not> interrupted (os P (retries P c k (trace st)) c)" using assms unfolding settles_def by blast
  then show ?thesis
  proof (induction k arbitrary: st)
    case 0
    then have "\<not> interrupted (os P (trace st) c)" by simp
    from retry_once [OF this] this show ?case
      unfolding perform_trace by (intro exI [of _ "os P (trace st) c"] exI [of _ "[]"]) (simp add: failed_attempts_def)
  next
    case (Suc k)
    let ?a = "os P (trace st) c"
    show ?case
    proof (cases "interrupted ?a")
      case False
      from retry_once [OF this] this show ?thesis
        unfolding perform_trace by (intro exI [of _ ?a] exI [of _ "[]"]) (simp add: failed_attempts_def)
    next
      case True
      let ?s = "perform P c st"
      have "\<not> interrupted (os P (retries P c k (trace ?s)) c)" using Suc.prems by (simp add: trace_perform)
      from Suc.IH [OF this] obtain r t where "retry P c ?s = Some (r, ?s\<lparr>trace := ((c, r) # t) @ trace ?s\<rparr>)"
        "r = os P (t @ trace ?s) c" "\<not> interrupted r" "failed_attempts c t" by blast
      then show ?thesis using retry_again [OF True] True
        by (intro exI [of _ r] exI [of _ "t @ [(c, ?a)]"]) (simp add: perform_trace failed_attempts_def)
    qed
  qed
qed

lemma failed_reads: "failed_attempts (Sys_read fd n) t \<Longrightarrow> delivered fd' t = [] \<and> completed fd' t = [] \<and> io_only fd t"
  by (induction t) (auto simp: failed_attempts_def got_failed)

lemma failed_writes: "failed_attempts (Sys_write fd b) t \<Longrightarrow> delivered fd' t = [] \<and> completed fd' t = [] \<and> io_only fd' t"
  by (induction t) (auto simp: failed_attempts_def)

lemma retry_read:
  assumes "settles P"
  shows "\<exists>r t. retry P (Sys_read fd n) st = Some (r, st\<lparr>trace := ((Sys_read fd n, r) # t) @ trace st\<rparr>) \<and>
    r = os P (t @ trace st) (Sys_read fd n) \<and> (\<forall>fd'. delivered fd' t = []) \<and> (\<forall>fd'. completed fd' t = []) \<and> io_only fd t"
proof -
  obtain r t where "retry P (Sys_read fd n) st = Some (r, st\<lparr>trace := ((Sys_read fd n, r) # t) @ trace st\<rparr>)"
    "r = os P (t @ trace st) (Sys_read fd n)" "failed_attempts (Sys_read fd n) t" using retry_settles [OF assms] by blast
  with failed_reads [OF this(3)] show ?thesis by blast
qed

lemma settles_positive: "(\<And>t c. 0 \<le> an_ret (os P t c)) \<Longrightarrow> settles P"
  by (simp add: settles_def not_less)

end
