(* ===== verification/Bootchart.thy ===== *)
theory Bootchart
  imports Retry
begin

text \<open>
  \<open>bootchart.c\<close>, which is compiled with \<open>BOOTCHART\<close>: five times a second the process list and the
  statistics of the kernel are appended to three log files, through buffers of 64 kB.  The theory also
  has the two places of \<open>init.c\<close> that call it.

  The state is the three buffers and the number of samples that are left.  A result \<open>None\<close> is a null
  pointer, an access outside of an array, an overflow of \<open>int\<close>, or a call that is interrupted for ever.
\<close>

subsection \<open>Reading and writing\<close>

definition BOOTCHART_POLLING_MS :: int where "BOOTCHART_POLLING_MS = 200"
definition BOOTCHART_MAX_TIME_SEC :: int where "BOOTCHART_MAX_TIME_SEC = 10 * 60"
definition FILE_BUFF_SIZE :: nat where "FILE_BUFF_SIZE = 65536"

definition unix_read :: "platform \<Rightarrow> int \<Rightarrow> int \<Rightarrow> init_st \<Rightarrow> (answer \<times> init_st) option" where
  "unix_read P fd len st = retry P (Sys_read fd len) st"

definition unix_write :: "platform \<Rightarrow> int \<Rightarrow> string \<Rightarrow> init_st \<Rightarrow> (answer \<times> init_st) option" where
  "unix_write P fd buff st = retry P (Sys_write fd buff) st"

text \<open>\<open>proc_read\<close> into an array: its result and the array.\<close>

definition proc_read :: "platform \<Rightarrow> string \<Rightarrow> char list \<Rightarrow> init_st \<Rightarrow> (int \<times> char list \<times> init_st) option" where
  "proc_read P filename buff st =
     (let (f, st) = sys P (Sys_open filename [O_RDONLY] 0) st; fd = an_ret f in
      if 0 \<le> fd then do {
        (r, st) \<leftarrow> unix_read P fd (int (length buff) - 1) st;
        let st = perform P (Sys_close fd) st;
        Some (an_ret r, got r @ NUL # drop (length (got r) + 1) buff, st)
      }
      else Some (0, NUL # drop 1 buff, st))"

record FileBuffRec =
  buff_count :: nat
  buff_fd :: int
  buff_data :: "char list"

definition file_buff_open :: "platform \<Rightarrow> string \<Rightarrow> FileBuffRec \<Rightarrow> init_st \<Rightarrow> FileBuffRec \<times> init_st" where
  "file_buff_open P path buff st =
     (let (f, st) = sys P (Sys_open path [O_WRONLY, O_CREAT, O_TRUNC] 0x1ED) st
      in (buff\<lparr>buff_count := 0, buff_fd := an_ret f\<rparr>, st))"

partial_function (option) file_buff_write ::
    "platform \<Rightarrow> string \<Rightarrow> FileBuffRec \<Rightarrow> init_st \<Rightarrow> (FileBuffRec \<times> init_st) option" where
  "file_buff_write P src buff st =
     (if src = [] then Some (buff, st)
      else
        let count = buff_count buff;
            avail = min (FILE_BUFF_SIZE - count) (length src);
            data = take count (buff_data buff) @ take avail src @ drop (count + avail) (buff_data buff);
            src = drop avail src;
            buff = buff\<lparr>buff_data := data, buff_count := count + avail\<rparr>
        in if buff_count buff = FILE_BUFF_SIZE then
             Option.bind (unix_write P (buff_fd buff) (take FILE_BUFF_SIZE data) st)
               (\<lambda>(r, st). file_buff_write P src (buff\<lparr>buff_count := 0\<rparr>) st)
           else file_buff_write P src buff st)"

definition file_buff_done :: "platform \<Rightarrow> FileBuffRec \<Rightarrow> init_st \<Rightarrow> (FileBuffRec \<times> init_st) option" where
  "file_buff_done P buff st =
     (if 0 < buff_count buff then
        map_option (\<lambda>(r, st). (buff\<lparr>buff_count := 0\<rparr>, st))
          (unix_write P (buff_fd buff) (take (buff_count buff) (buff_data buff)) st)
      else Some (buff, st))"

subsection \<open>The header\<close>

text \<open>
  The text at \<open>cpu\<close>: two characters behind the first colon of the array, to the end of the line.
  When there is no colon the pointer is null, and bionic prints \<open>(null)\<close>.
\<close>

definition header_cpu :: "char list \<Rightarrow> string option" where
  "header_cpu cpuinfo =
     (case split_first (CHR '':'') (cstr_at cpuinfo 0) of
        None \<Rightarrow> Some ''(null)''
      | Some (a, r) \<Rightarrow>
          let cpuinfo = (case split_first NL r of None \<Rightarrow> cpuinfo | Some (l, _) \<Rightarrow> cpuinfo[length a + 1 + length l := NUL]);
              cpu = length a + 2
          in if NUL \<in> set (drop cpu cpuinfo) then Some (cstr_at cpuinfo cpu) else None)"

text \<open>The stream \<open>out\<close> is written when it is closed.\<close>

definition log_header :: "platform \<Rightarrow> init_st \<Rightarrow> init_st option" where
  "log_header P st =
     (let (d, st) = sys P (Sys_strftime 32) st; date = clip 32 (an_data d);
          (f, st) = sys P (Sys_open ''/data/bootchart/header'' [O_WRONLY, O_CREAT, O_TRUNC] 0x1B6) st; out = an_ret f in
      if out < 0 then Some st
      else do {
        (_, cmdline, st) \<leftarrow> proc_read P ''/proc/cmdline'' (fresh_buf P 1024) st;
        (_, uname, st) \<leftarrow> proc_read P ''/proc/version'' (fresh_buf P 128) st;
        (_, cpuinfo, st) \<leftarrow> proc_read P ''/proc/cpuinfo'' (fresh_buf P 128) st;
        cpu \<leftarrow> header_cpu cpuinfo;
        let text = ''version = 0.8'' @ NL # ''title = Boot chart for Android ( '' @ date @ '' )'' @
          NL # ''system.uname = '' @ cstr_at uname 0 @ NL # ''system.release = 0.0'' @
          NL # ''system.cpu = '' @ cpu @ NL # ''system.kernel.options = '' @ cstr_at cmdline 0 @ [NL];
        Some (perform P (Sys_close out) (perform P (Sys_write out text) st))
      })"

definition close_on_exec :: "platform \<Rightarrow> int \<Rightarrow> init_st \<Rightarrow> init_st" where
  "close_on_exec P fd st = perform P (Sys_fcntl fd ''FD_CLOEXEC'') st"

text \<open>The routine \<open>open_log_file\<close> is not called any more.\<close>

definition open_log_file :: "platform \<Rightarrow> int \<Rightarrow> string \<Rightarrow> init_st \<Rightarrow> int \<times> init_st" where
  "open_log_file P logfd logfile st =
     (if logfd < 0 then
        let (f, st) = sys P (Sys_open logfile [O_WRONLY, O_CREAT, O_TRUNC] 0x1ED) st in
        if an_ret f < 0 then (- 2, st) else (an_ret f, close_on_exec P (an_ret f) st)
      else (logfd, st))"

subsection \<open>A sample\<close>

definition do_log_uptime :: "platform \<Rightarrow> FileBuffRec \<Rightarrow> init_st \<Rightarrow> (FileBuffRec \<times> init_st) option" where
  "do_log_uptime P log st =
     (let (f, st) = sys P (Sys_open ''/proc/uptime'' [O_RDONLY] 0) st; fd = an_ret f in
      if 0 \<le> fd then do {
        (r, st) \<leftarrow> unix_read P fd 64 st;
        let st = perform P (Sys_close fd) st;
        let buff = take 64 (got r @ drop (length (got r)) (fresh_buf P 64)) @ [NUL];
        if 0 \<le> an_ret r
        then file_buff_write P (clip 65 (show_int (uptime_jiffies P (cstr_at buff 0)) @ [NL])) log st
        else Some (log, st)
      }
      else Some (log, st))"

definition do_log_ln :: "platform \<Rightarrow> FileBuffRec \<Rightarrow> init_st \<Rightarrow> (FileBuffRec \<times> init_st) option" where
  "do_log_ln P log st = file_buff_write P [NL] log st"

partial_function (option) log_file_loop ::
    "platform \<Rightarrow> int \<Rightarrow> FileBuffRec \<Rightarrow> init_st \<Rightarrow> (FileBuffRec \<times> init_st) option" where
  "log_file_loop P fd log st =
     Option.bind (unix_read P fd 1024 st) (\<lambda>(ret, st).
       if an_ret ret \<le> 0 then Some (log, st)
       else Option.bind (file_buff_write P (got ret) log st) (\<lambda>(log, st).
         if an_ret ret < 1024 then Some (log, st) else log_file_loop P fd log st))"

definition do_log_file :: "platform \<Rightarrow> FileBuffRec \<Rightarrow> string \<Rightarrow> init_st \<Rightarrow> (FileBuffRec \<times> init_st) option" where
  "do_log_file P log procfile st =
     do {
       (log, st) \<leftarrow> do_log_uptime P log st;
       let (f, st) = sys P (Sys_open procfile [O_RDONLY] 0) st;
       let fd = an_ret f;
       (log, st) \<leftarrow>
         (if 0 \<le> fd
          then map_option (\<lambda>(log, st). (log, perform P (Sys_close fd) st)) (log_file_loop P fd log (close_on_exec P fd st))
          else Some (log, st));
       do_log_ln P log st
     }"

text \<open>The text \<open>buff\<close> of a status line with the name in parentheses replaced by \<open>cmdline\<close>, in three writes.\<close>

definition log_renamed :: "platform \<Rightarrow> string \<Rightarrow> string \<Rightarrow> FileBuffRec \<Rightarrow> init_st \<Rightarrow> (FileBuffRec \<times> init_st) option" where
  "log_renamed P buff cmdline log st =
     do {
       (a, p1) \<leftarrow> split_first (CHR ''('') buff;
       (_, p2) \<leftarrow> split_first (CHR '')'') p1;
       (log, st) \<leftarrow> file_buff_write P (a @ ''('') log st;
       (log, st) \<leftarrow> file_buff_write P cmdline log st;
       file_buff_write P (CHR '')'' # p2) log st
     }"

definition log_process :: "platform \<Rightarrow> string \<Rightarrow> FileBuffRec \<Rightarrow> init_st \<Rightarrow> (FileBuffRec \<times> init_st) option" where
  "log_process P d_name log st =
     (let (pid, end) = strtol 10 d_name in
      if end \<noteq> [] \<or> d_name = [] then Some (log, st)
      else do {
        (_, cmdline, st) \<leftarrow> proc_read P (clip 32 (''/proc/'' @ show_int pid @ ''/cmdline'')) (fresh_buf P 1024) st;
        let (f, st) = sys P (Sys_open (clip 32 (''/proc/'' @ show_int pid @ ''/stat'')) [O_RDONLY] 0) st;
        if 0 \<le> an_ret f then do {
          (r, st) \<leftarrow> unix_read P (an_ret f) 1023 st;
          let st = perform P (Sys_close (an_ret f)) st;
          if 0 < an_ret r then
            if cstr_at cmdline 0 \<noteq> [] then log_renamed P (cstr_at (got r @ [NUL]) 0) (cstr_at cmdline 0) log st
            else file_buff_write P (got r) log st
          else Some (log, st)
        }
        else Some (log, st)
      })"

partial_function (option) log_procs_loop ::
    "platform \<Rightarrow> int \<Rightarrow> FileBuffRec \<Rightarrow> init_st \<Rightarrow> (FileBuffRec \<times> init_st) option" where
  "log_procs_loop P dir log st =
     (let (entry, st) = sys P (Sys_readdir dir) st in
      if an_ret entry = 0 then Some (log, st)
      else Option.bind (log_process P (an_data entry) log st) (\<lambda>(log, st). log_procs_loop P dir log st))"

text \<open>The directory is not tested: \<open>readdir\<close> of a null pointer is undefined.\<close>

definition do_log_procs :: "platform \<Rightarrow> FileBuffRec \<Rightarrow> init_st \<Rightarrow> (FileBuffRec \<times> init_st) option" where
  "do_log_procs P log st =
     (let (d, st) = sys P (Sys_opendir ''/proc'') st; dir = an_ret d in
      do {
        (log, st) \<leftarrow> do_log_uptime P log st;
        (log, st) \<leftarrow> (if dir = 0 then None else log_procs_loop P dir log st);
        do_log_ln P log (perform P (Sys_closedir dir) st)
      })"

subsection \<open>The life of a profile\<close>

record bootchart_st =
  log_stat :: FileBuffRec
  log_procs :: FileBuffRec
  log_disks :: FileBuffRec
  bootchart_count :: int

definition LOG_STARTFILE :: string where "LOG_STARTFILE = ''/data/bootchart-start''"
definition LOG_STOPFILE :: string where "LOG_STOPFILE = ''/data/bootchart-stop''"
definition LOG_ACCT :: string where "LOG_ACCT = ''/data/bootchart/kernel_pacct''"
definition KERNEL_OPTION :: string where "KERNEL_OPTION = ''androidboot.bootchart=''"

text \<open>The first part of \<open>bootchart_init\<close>: the time in seconds, from a file or the kernel command line.\<close>

definition bootchart_timeout :: "platform \<Rightarrow> init_st \<Rightarrow> (int \<times> init_st) option" where
  "bootchart_timeout P st =
     do {
       (_, buff, st) \<leftarrow> proc_read P LOG_STARTFILE (NUL # fresh_buf P 3) st;
       if hd buff \<noteq> NUL then Some (atoi (cstr_at buff 0), st)
       else do {
         (_, cmdline, st) \<leftarrow> proc_read P ''/proc/cmdline'' (fresh_buf P 1024) st;
         Some (case strstr KERNEL_OPTION (cstr_at cmdline 0) of
                 None \<Rightarrow> 0
               | Some s \<Rightarrow> atoi (drop (length KERNEL_OPTION) s), st)
       }
     }"

text \<open>The division of C rounds towards zero; a product outside of the range of \<open>int\<close> is undefined.\<close>

definition bootchart_samples :: "int \<Rightarrow> int option" where
  "bootchart_samples timeout =
     (let timeout = (if BOOTCHART_MAX_TIME_SEC < timeout then BOOTCHART_MAX_TIME_SEC else timeout);
          ms = timeout * 1000 + BOOTCHART_POLLING_MS - 1
      in if timeout * 1000 < - (2 ^ 31) then None
         else Some (if ms < 0 then - ((- ms) div BOOTCHART_POLLING_MS) else ms div BOOTCHART_POLLING_MS))"

definition mkdir_retry :: "platform \<Rightarrow> string \<Rightarrow> 32 word \<Rightarrow> init_st \<Rightarrow> init_st option" where
  "mkdir_retry P path mode st = map_option snd (retry P (Sys_mkdir path mode) st)"

definition bootchart_init :: "platform \<Rightarrow> bootchart_st \<Rightarrow> init_st \<Rightarrow> (int \<times> bootchart_st \<times> init_st) option" where
  "bootchart_init P bc st =
     do {
       (timeout, st) \<leftarrow> bootchart_timeout P st;
       if timeout = 0 then Some (0, bc, st)
       else do {
         count \<leftarrow> bootchart_samples timeout;
         st \<leftarrow> mkdir_retry P ''/data/bootchart'' 0x1ED st;
         let (l1, st) = file_buff_open P ''/data/bootchart/proc_stat.log'' (log_stat bc) st;
         let (l2, st) = file_buff_open P ''/data/bootchart/proc_ps.log'' (log_procs bc) st;
         let (l3, st) = file_buff_open P ''/data/bootchart/proc_diskstats.log'' (log_disks bc) st;
         let (f, st) = sys P (Sys_open LOG_ACCT [O_WRONLY, O_CREAT, O_TRUNC] 0x1A4) st;
         let st = (if 0 \<le> an_ret f then perform P (Sys_acct (Some LOG_ACCT)) (perform P (Sys_close (an_ret f)) st) else st);
         st \<leftarrow> log_header P st;
         Some (count, bc\<lparr>log_stat := l1, log_procs := l2, log_disks := l3\<rparr>, st)
       }
     }"

definition bootchart_step :: "platform \<Rightarrow> bootchart_st \<Rightarrow> init_st \<Rightarrow> (int \<times> bootchart_st \<times> init_st) option" where
  "bootchart_step P bc st =
     do {
       (l1, st) \<leftarrow> do_log_file P (log_stat bc) ''/proc/stat'' st;
       (l3, st) \<leftarrow> do_log_file P (log_disks bc) ''/proc/diskstats'' st;
       (l2, st) \<leftarrow> do_log_procs P (log_procs bc) st;
       (len, buff, st) \<leftarrow> proc_read P LOG_STOPFILE (fresh_buf P 2) st;
       Some (if 0 < len \<and> hd buff = CHR ''1'' then - 1 else 0, bc\<lparr>log_stat := l1, log_procs := l2, log_disks := l3\<rparr>, st)
     }"

definition bootchart_finish :: "platform \<Rightarrow> bootchart_st \<Rightarrow> init_st \<Rightarrow> (bootchart_st \<times> init_st) option" where
  "bootchart_finish P bc st =
     do {
       let st = perform P (Sys_unlink LOG_STOPFILE) st;
       (l1, st) \<leftarrow> file_buff_done P (log_stat bc) st;
       (l3, st) \<leftarrow> file_buff_done P (log_disks bc) st;
       (l2, st) \<leftarrow> file_buff_done P (log_procs bc) st;
       Some (bc\<lparr>log_stat := l1, log_procs := l2, log_disks := l3\<rparr>, perform P (Sys_acct None) st)
     }"

text \<open>The callers in \<open>init.c\<close>: the action that starts the profile, and the part of the main loop, with the timeout of \<open>poll\<close>.\<close>

definition bootchart_init_action :: "platform \<Rightarrow> bootchart_st \<Rightarrow> init_st \<Rightarrow> (bootchart_st \<times> init_st) option" where
  "bootchart_init_action P bc st =
     map_option (\<lambda>(n, bc, st). (bc\<lparr>bootchart_count := n\<rparr>, st)) (bootchart_init P bc st)"

definition bootchart_poll :: "platform \<Rightarrow> int \<Rightarrow> bootchart_st \<Rightarrow> init_st \<Rightarrow> (int \<times> bootchart_st \<times> init_st) option" where
  "bootchart_poll P timeout bc st =
     (if 0 < bootchart_count bc then do {
        let timeout = (if timeout < 0 \<or> BOOTCHART_POLLING_MS < timeout then BOOTCHART_POLLING_MS else timeout);
        (r, bc, st) \<leftarrow> bootchart_step P bc st;
        let bc = (if r < 0 then bc else bc\<lparr>bootchart_count := bootchart_count bc - 1\<rparr>);
        if r < 0 \<or> bootchart_count bc = 0 then do {
          (bc, st) \<leftarrow> bootchart_finish P bc st;
          Some (timeout, bc\<lparr>bootchart_count := 0\<rparr>, st)
        }
        else Some (timeout, bc, st)
      }
      else Some (timeout, bc, st))"

subsection \<open>Interrupted calls\<close>

lemma unix_write_once:
  "\<not> interrupted (os P (trace st) (Sys_write fd b)) \<Longrightarrow>
   unix_write P fd b st = Some (os P (trace st) (Sys_write fd b), perform P (Sys_write fd b) st)"
  by (simp add: unix_write_def retry_once)


lemma unix_write_settles:
  assumes "settles P"
  shows "\<exists>r t. unix_write P fd b st = Some (r, st\<lparr>trace := t @ trace st\<rparr>) \<and>
    (\<forall>fd'. completed fd' t = (if fd = fd' then b else [])) \<and> (\<forall>fd'. delivered fd' t = [] \<and> io_only fd' t)"
proof -
  obtain r t where r: "retry P (Sys_write fd b) st = Some (r, st\<lparr>trace := ((Sys_write fd b, r) # t) @ trace st\<rparr>)"
    "\<not> interrupted r" "failed_attempts (Sys_write fd b) t" using retry_settles [OF assms] by blast
  then show ?thesis using failed_writes [OF r(3)]
    by (intro exI [of _ r] exI [of _ "(Sys_write fd b, r) # t"]) (simp add: unix_write_def)
qed

subsection \<open>The buffer is a stream\<close>

text \<open>
  \<open>appends log st x v log' st'\<close>: with the calls \<open>v\<close> the text \<open>x\<close> was appended to the log, of which the
  first part is in the file and the rest in the buffer.
\<close>

definition log_ok :: "FileBuffRec \<Rightarrow> bool" where
  "log_ok log \<longleftrightarrow> buff_count log < FILE_BUFF_SIZE \<and> length (buff_data log) = FILE_BUFF_SIZE"

definition pending :: "FileBuffRec \<Rightarrow> string" where
  "pending log = take (buff_count log) (buff_data log)"

definition appends :: "FileBuffRec \<Rightarrow> init_st \<Rightarrow> string \<Rightarrow> sys_trace \<Rightarrow> FileBuffRec \<Rightarrow> init_st \<Rightarrow> bool" where
  "appends log st x v log' st' \<longleftrightarrow> log_ok log' \<and> buff_fd log' = buff_fd log \<and> st' = st\<lparr>trace := v @ trace st\<rparr> \<and>
     completed (buff_fd log) v @ pending log' = pending log @ x"

lemma appends_refl: "log_ok log \<Longrightarrow> appends log st [] [] log st"
  by (simp add: appends_def)

lemma appends_trans:
  assumes "appends log st x v l1 s1" "appends l1 s1 y w l2 s2"
  shows "appends log st (x @ y) (w @ v) l2 s2"
proof -
  have "completed (buff_fd log) v @ completed (buff_fd l1) w @ pending l2 = completed (buff_fd log) v @ pending l1 @ y"
    using assms(2) by (simp add: appends_def)
  also have "\<dots> = pending log @ x @ y" using assms(1) by (simp add: appends_def flip: append_assoc)
  finally show ?thesis using assms by (simp add: appends_def)
qed


lemma file_buff_write_stream:
  assumes "settles P" "log_ok log"
  shows "\<exists>log' st' v. file_buff_write P src log st = Some (log', st') \<and> appends log st src v log' st' \<and>
    (\<forall>fd. delivered fd v = [] \<and> io_only fd v)"
  using assms(2)
proof (induction "length src" arbitrary: src log st rule: less_induct)
  case less
  show ?case
  proof (cases "src = []")
    case True
    then show ?thesis using appends_refl [OF less.prems] by (subst file_buff_write.simps) (auto intro: exI [of _ "[]"])
  next
    case False
    define a where "a = min (FILE_BUFF_SIZE - buff_count log) (length src)"
    define d where "d = take (buff_count log) (buff_data log) @ take a src @ drop (buff_count log + a) (buff_data log)"
    let ?n = "buff_count log + a"
    have a: "0 < a" "a \<le> length src" "?n \<le> FILE_BUFF_SIZE" using False less.prems by (auto simp: a_def log_ok_def)
    have d: "length d = FILE_BUFF_SIZE" "take ?n d = pending log @ take a src"
      using less.prems a by (auto simp: d_def log_ok_def pending_def)
    have unf: "file_buff_write P src log st =
      (if ?n = FILE_BUFF_SIZE then
         Option.bind (unix_write P (buff_fd log) (take FILE_BUFF_SIZE d) st)
           (\<lambda>(r, st). file_buff_write P (drop a src) (log\<lparr>buff_data := d, buff_count := 0\<rparr>) st)
       else file_buff_write P (drop a src) (log\<lparr>buff_data := d, buff_count := ?n\<rparr>) st)"
      using False by (subst file_buff_write.simps) (simp add: a_def d_def Let_def)
    have step: "\<exists>log1 s1 v1. file_buff_write P src log st = file_buff_write P (drop a src) log1 s1 \<and>
      appends log st (take a src) v1 log1 s1 \<and> (\<forall>fd. delivered fd v1 = [] \<and> io_only fd v1)"
    proof (cases "?n = FILE_BUFF_SIZE")
      case True
      obtain r t where t: "unix_write P (buff_fd log) (take FILE_BUFF_SIZE d) st = Some (r, st\<lparr>trace := t @ trace st\<rparr>)"
        "completed (buff_fd log) t = take FILE_BUFF_SIZE d" "\<forall>fd'. delivered fd' t = [] \<and> io_only fd' t"
        using unix_write_settles [OF assms(1)] by metis
      have full: "take FILE_BUFF_SIZE d = pending log @ take a src" using d(2) unfolding True .
      from t(1) unf True have "file_buff_write P src log st =
        file_buff_write P (drop a src) (log\<lparr>buff_data := d, buff_count := 0\<rparr>) (st\<lparr>trace := t @ trace st\<rparr>)"
        by (simp only: if_True simp_thms bind.bind_lunit case_prod_conv)
      moreover have "appends log st (take a src) t (log\<lparr>buff_data := d, buff_count := 0\<rparr>) (st\<lparr>trace := t @ trace st\<rparr>)"
        using t(2) d(1) unfolding full by (simp add: appends_def log_ok_def pending_def FILE_BUFF_SIZE_def)
      ultimately show ?thesis using t(3) by blast
    next
      case False
      then show ?thesis using unf d a
        by (intro exI [of _ "log\<lparr>buff_data := d, buff_count := ?n\<rparr>"] exI [of _ st] exI [of _ "[]"])
           (simp add: appends_def log_ok_def pending_def)
    qed
    then obtain log1 s1 v1 where s1: "file_buff_write P src log st = file_buff_write P (drop a src) log1 s1"
      "appends log st (take a src) v1 log1 s1" "\<forall>fd. delivered fd v1 = [] \<and> io_only fd v1" by blast
    have "length (drop a src) < length src" "log_ok log1" using a s1(2) by (auto simp: appends_def)
    from less.hyps [OF this, of s1] obtain log' st' v where "file_buff_write P (drop a src) log1 s1 = Some (log', st')"
      "appends log1 s1 (drop a src) v log' st'" "\<forall>fd. delivered fd v = [] \<and> io_only fd v" by blast
    then show ?thesis using s1 appends_trans [OF s1(2), of "drop a src" v log' st']
      by (intro exI [of _ log'] exI [of _ st'] exI [of _ "v @ v1"]) simp
  qed
qed

subsection \<open>Samples of a file\<close>









subsection \<open>Lines of processes\<close>

text \<open>
  A status line is logged with the name in parentheses replaced by the first argument of the process,
  up to the first closing parenthesis; a line without the two parentheses is undefined.
\<close>

lemma process_renamed:
  assumes "settles P" "log_ok log" "CHR ''('' \<notin> set a" "CHR '')'' \<notin> set name"
  shows "\<exists>log' st' v. log_renamed P (a @ ''('' @ name @ '')'' @ rest) cmdline log st = Some (log', st') \<and>
    appends log st (a @ ''('' @ cmdline @ '')'' @ rest) v log' st'"
proof -
  have p: "split_first (CHR ''('') (a @ ''('' @ name @ '')'' @ rest) = Some (a, name @ '')'' @ rest)"
    "split_first (CHR '')'') (name @ '')'' @ rest) = Some (name, rest)"
    using split_first_append [OF assms(3)] split_first_append [OF assms(4)] by simp_all
  obtain l1 s1 v1 where 1: "file_buff_write P (a @ ''('') log st = Some (l1, s1)" "appends log st (a @ ''('') v1 l1 s1"
    using file_buff_write_stream [OF assms(1,2)] by blast
  then have ok1: "log_ok l1" by (simp add: appends_def)
  obtain l2 s2 v2 where 2: "file_buff_write P cmdline l1 s1 = Some (l2, s2)" "appends l1 s1 cmdline v2 l2 s2"
    using file_buff_write_stream [OF assms(1) ok1] by blast
  then have ok2: "log_ok l2" by (simp add: appends_def)
  obtain l3 s3 v3 where 3: "file_buff_write P ('')'' @ rest) l2 s2 = Some (l3, s3)" "appends l2 s2 ('')'' @ rest) v3 l3 s3"
    using file_buff_write_stream [OF assms(1) ok2] by blast
  have "log_renamed P (a @ ''('' @ name @ '')'' @ rest) cmdline log st = Some (l3, s3)"
    using 1(1) 2(1) 3(1) p by (simp add: log_renamed_def)
  moreover have "appends log st ((a @ ''('') @ cmdline @ '')'' @ rest) ((v3 @ v2) @ v1) l3 s3"
    by (rule appends_trans [OF 1(2) appends_trans [OF 2(2) 3(2)]])
  ultimately show ?thesis by auto
qed

lemma process_line_undefined:
  "CHR ''('' \<notin> set line \<Longrightarrow> log_renamed P line cmdline log st = None"
  using split_first_None [of "CHR ''(''" line] by (simp add: log_renamed_def)

subsection \<open>The end of a profile\<close>

text \<open>
  \<open>bootchart_init\<close> asks for five samples for each second of the requested time, at most 3000 of
  them; a negative time is not rejected but gives a negative number of samples.
\<close>

lemma bootchart_init_count:
  assumes "bootchart_timeout P st = Some (t, s1)" "bootchart_init P bc st = Some (n, bc', st')"
  shows "n = (if t < 0 then 5 * t + 1 else 5 * min t 600)"
proof -
  have up: "(t * 1000 + 200 - 1) div 200 = 5 * t" for t :: int
    using div_mult_self1 [of 200 199 "5 * t"] by (simp add: algebra_simps)
  have down: "(- (t * 1000 + 200 - 1)) div 200 = - 5 * t - 1" for t :: int
    using div_mult_self1 [of 200 1 "- 5 * t - 1"] by (simp add: algebra_simps)
  show ?thesis
  proof (cases "t = 0")
    case True
    then show ?thesis using assms by (simp add: bootchart_init_def)
  next
    case False
    then have "bootchart_samples t = Some n"
      using assms by (auto simp: bootchart_init_def Let_def bind_eq_Some_conv case_prod_unfold)
    then show ?thesis using up [of t] down [of t] False
      by (auto simp: bootchart_samples_def BOOTCHART_MAX_TIME_SEC_def BOOTCHART_POLLING_MS_def Let_def min_def split: if_splits)
  qed
qed

text \<open>A start file that asks for two seconds, and a log directory without a header file.\<close>

definition start_os :: "sys_trace \<Rightarrow> syscall \<Rightarrow> answer" where
  "start_os t c =
     (case c of
        Sys_open name _ _ \<Rightarrow> ok_answer (if name = ''/data/bootchart/header'' then - 1 else 5)
      | Sys_read _ _ \<Rightarrow> (ok_answer 1)\<lparr>an_data := ''2''\<rparr>
      | _ \<Rightarrow> ok_answer 0)"

definition small_log :: "int \<Rightarrow> FileBuffRec" where
  "small_log fd = \<lparr>buff_count = 0, buff_fd = fd, buff_data = []\<rparr>"

definition small_bc :: "int \<Rightarrow> bootchart_st" where
  "small_bc n = \<lparr>log_stat = small_log 7, log_procs = small_log 8, log_disks = small_log 9, bootchart_count = n\<rparr>"

lemma bootchart_init_count_witness:
  "\<exists>bc' st'. bootchart_init (example_platform\<lparr>os := start_os\<rparr>) (small_bc 0) init_st0 = Some (10, bc', st')"
proof -
  let ?P = "example_platform\<lparr>os := start_os\<rparr>"
  have "map_option fst (bootchart_timeout ?P init_st0) = Some 2" by code_simp
  then obtain s1 where t: "bootchart_timeout ?P init_st0 = Some (2, s1)" by auto
  have "bootchart_init ?P (small_bc 0) init_st0 \<noteq> None" by code_simp
  then obtain n bc' st' where i: "bootchart_init ?P (small_bc 0) init_st0 = Some (n, bc', st')" by auto
  from bootchart_init_count [OF t i] i show ?thesis by simp
qed

lemma poll_idle: "bootchart_count bc \<le> 0 \<Longrightarrow> bootchart_poll P timeout bc st = Some (timeout, bc, st)"
  by (simp add: bootchart_poll_def)

text \<open>
  A round of the main loop with samples left takes one sample; it either goes on with one sample
  less, or ends the profile: then nothing is left in the buffers, accounting is turned off, and
  later rounds do nothing.  The loop waits at most 200 ms.
\<close>

lemma profile_ends:
  assumes "0 < bootchart_count bc" "bootchart_poll P timeout bc st = Some (timeout', bc', st')"
  shows "0 \<le> timeout' \<and> timeout' \<le> 200 \<and>
    (0 < bootchart_count bc' \<and> bootchart_count bc' = bootchart_count bc - 1 \<or>
     bootchart_count bc' = 0 \<and> pending (log_stat bc') = [] \<and> pending (log_procs bc') = [] \<and> pending (log_disks bc') = [] \<and>
     fst (hd (trace st')) = Sys_acct None \<and> bootchart_poll P timeout bc' st' = Some (timeout, bc', st'))"
proof -
  have flushed: "pending l' = []" if "file_buff_done P l s = Some (l', s')" for l s l' s'
    using that by (auto simp: file_buff_done_def pending_def split: if_splits)
  have fin: "pending (log_stat b') = [] \<and> pending (log_procs b') = [] \<and> pending (log_disks b') = [] \<and>
      fst (hd (trace s')) = Sys_acct None" if "bootchart_finish P b s = Some (b', s')" for b s b' s'
    using that by (auto simp: bootchart_finish_def Let_def bind_eq_Some_conv trace_perform dest!: flushed)
  have step: "bootchart_count b' = bootchart_count b" if "bootchart_step P b s = Some (r, b', s')" for b s r b' s'
    using that by (auto simp: bootchart_step_def bind_eq_Some_conv)
  obtain r b1 s1 where s: "bootchart_step P bc st = Some (r, b1, s1)"
    using assms by (auto simp: bootchart_poll_def Let_def bind_eq_Some_conv)
  note c = step [OF s]
  have t: "timeout' = (if timeout < 0 \<or> 200 < timeout then 200 else timeout)"
    using assms s by (auto simp: bootchart_poll_def Let_def bind_eq_Some_conv BOOTCHART_POLLING_MS_def split: if_splits)
  show ?thesis
  proof (cases "r < 0 \<or> bootchart_count bc = 1")
    case True
    define b2 where "b2 = (if r < 0 then b1 else b1\<lparr>bootchart_count := bootchart_count b1 - 1\<rparr>)"
    have "r < 0 \<or> bootchart_count b2 = 0" using True c by (auto simp: b2_def)
    then obtain b3 where b3: "bootchart_finish P b2 s1 = Some (b3, st')" "bc' = b3\<lparr>bootchart_count := 0\<rparr>"
      using assms s by (auto simp: bootchart_poll_def Let_def bind_eq_Some_conv b2_def)
    from fin [OF b3(1)] b3(2) t show ?thesis by (simp add: poll_idle)
  next
    case False
    then have "bc' = b1\<lparr>bootchart_count := bootchart_count b1 - 1\<rparr>" using assms s c by (simp add: bootchart_poll_def)
    then show ?thesis using False c t assms(1) by simp
  qed
qed

lemma file_buff_write_small:
  assumes "buff_count log + length src < FILE_BUFF_SIZE"
  shows "file_buff_write P src log st = Some (log\<lparr>buff_count := buff_count log + length src,
    buff_data := take (buff_count log) (buff_data log) @ src @ drop (buff_count log + length src) (buff_data log)\<rparr>, st)"
proof (cases "src = []")
  case False
  have "min (FILE_BUFF_SIZE - buff_count log) (length src) = length src" using assms by simp
  then show ?thesis using False assms
    by (subst file_buff_write.simps) (simp add: Let_def file_buff_write.simps [of P "[]"])
qed (simp add: file_buff_write.simps)

text \<open>A kernel on which no file can be opened and the process list is empty.\<close>

definition no_files_os :: "sys_trace \<Rightarrow> syscall \<Rightarrow> answer" where
  "no_files_os t c = (case c of Sys_open _ _ _ \<Rightarrow> ok_answer (- 1) | Sys_opendir _ \<Rightarrow> ok_answer 1 | _ \<Rightarrow> ok_answer 0)"

lemma profile_ends_witness:
  "\<exists>timeout' bc' st'. bootchart_poll (example_platform\<lparr>os := no_files_os\<rparr>) 1000 (small_bc 1) init_st0 = Some (timeout', bc', st') \<and>
    timeout' \<le> 200 \<and> bootchart_count bc' = 0 \<and> pending (log_stat bc') = [] \<and> fst (hd (trace st')) = Sys_acct None"
proof -
  let ?P = "example_platform\<lparr>os := no_files_os\<rparr>"
  have o: "an_ret (no_files_os t (Sys_open n f m)) = - 1" "an_ret (no_files_os t (Sys_opendir n)) = 1" "an_ret (no_files_os t (Sys_readdir d)) = 0"
    "an_ret (no_files_os t (Sys_write d b)) = 0" for t n f m d b
    by (simp_all add: no_files_os_def ok_answer_def)
  have w: "\<exists>r s'. unix_write ?P fd b s = Some (r, s')" for fd b s using unix_write_once [of ?P s fd b] o(4) by auto
  have up: "do_log_uptime ?P l s = Some (l, perform ?P (Sys_open ''/proc/uptime'' [O_RDONLY] 0) s)" for l s
    by (simp add: do_log_uptime_def run_simps o)
  have ln: "do_log_ln ?P (small_log fd) s = Some (\<lparr>buff_count = 1, buff_fd = fd, buff_data = [NL]\<rparr>, s)" for fd s
    using file_buff_write_small [of "small_log fd" "[NL]" ?P s] by (simp add: do_log_ln_def small_log_def FILE_BUFF_SIZE_def)
  have sample: "\<exists>s'. do_log_file ?P (small_log fd) f s = Some (\<lparr>buff_count = 1, buff_fd = fd, buff_data = [NL]\<rparr>, s')" for fd f s
    by (simp add: do_log_file_def up run_simps o ln)
  have procs: "\<exists>s'. do_log_procs ?P (small_log fd) s = Some (\<lparr>buff_count = 1, buff_fd = fd, buff_data = [NL]\<rparr>, s')" for fd s
    by (simp add: do_log_procs_def up run_simps o ln log_procs_loop.simps)
  have stop: "\<exists>s'. proc_read ?P f (c # b) s = Some (0, NUL # b, s')" for f c b s by (simp add: proc_read_def run_simps o)
  obtain s1 where s1: "do_log_file ?P (small_log 7) ''/proc/stat'' init_st0 = Some (\<lparr>buff_count = 1, buff_fd = 7, buff_data = [NL]\<rparr>, s1)"
    using sample by blast
  obtain s2 where s2: "do_log_file ?P (small_log 9) ''/proc/diskstats'' s1 = Some (\<lparr>buff_count = 1, buff_fd = 9, buff_data = [NL]\<rparr>, s2)"
    using sample by blast
  obtain s3 where s3: "do_log_procs ?P (small_log 8) s2 = Some (\<lparr>buff_count = 1, buff_fd = 8, buff_data = [NL]\<rparr>, s3)"
    using procs by blast
  obtain c b where f: "fresh_buf ?P 2 = c # b" using length_fresh_buf [of ?P 2] by (cases "fresh_buf ?P 2") auto
  obtain s4 where s4: "proc_read ?P LOG_STOPFILE (c # b) s3 = Some (0, NUL # b, s4)" using stop by blast
  obtain bc1 where step: "bootchart_step ?P (small_bc 1) init_st0 = Some (0, bc1, s4)" "bootchart_count bc1 = 1"
    by (simp add: bootchart_step_def small_bc_def s1 s2 s3 f s4)
  have dn: "\<exists>l' s'. file_buff_done ?P l s = Some (l', s')" for l s
  proof -
    obtain r s' where "unix_write ?P (buff_fd l) (take (buff_count l) (buff_data l)) s = Some (r, s')" using w by blast
    then show ?thesis by (simp add: file_buff_done_def)
  qed
  have fin: "\<exists>b' s'. bootchart_finish ?P b s = Some (b', s')" for b s
  proof -
    obtain l1 t1 where 1: "file_buff_done ?P (log_stat b) (perform ?P (Sys_unlink LOG_STOPFILE) s) = Some (l1, t1)" using dn by blast
    obtain l3 t3 where 3: "file_buff_done ?P (log_disks b) t1 = Some (l3, t3)" using dn by blast
    obtain l2 t2 where "file_buff_done ?P (log_procs b) t3 = Some (l2, t2)" using dn by blast
    with 1 3 show ?thesis by (simp add: bootchart_finish_def)
  qed
  obtain b2 s5 where "bootchart_finish ?P (bc1\<lparr>bootchart_count := 0\<rparr>) s4 = Some (b2, s5)" using fin by blast
  then obtain t' bc' st' where p: "bootchart_poll ?P 1000 (small_bc 1) init_st0 = Some (t', bc', st')" "bootchart_count bc' = 0"
    using step by (simp add: bootchart_poll_def small_bc_def)
  have "0 < bootchart_count (small_bc 1)" by (simp add: small_bc_def)
  from profile_ends [OF this p(1)] p show ?thesis by simp
qed

end
