(* ===== verification/Asl.thy ===== *)
theory Asl
  imports Prelude
begin

text \<open>
  The kernel module \<open>src/kernel/security/asl/asl.c\<close> of the security list: files below \<open>/proc/asl\<close> through which
  the boot scripts read the list of file hashes and permissions that is compiled into the kernel,
  and a status that they write.

  The texts that the module includes (\<open>list\<close>, \<open>permissions\<close>, \<open>files_count\<close>, \<open>asl_img_hash\<close>) are the record
  \<open>asl_data\<close>; \<open>kproc\<close> stands for the functions of the kernel that create the files, and says which
  of them succeed.  A result \<open>None\<close> is undefined: an access outside of an array, a null pointer
  or a conversion of a format string that has no argument.
\<close>

subsection \<open>Data\<close>

definition MAX_PROC_SIZE :: nat where "MAX_PROC_SIZE = 4"
definition ASL_version :: string where "ASL_version = ''1.3''"

record asl_data =
  asl_disabled :: bool
  asl_list :: string
  asl_permissions :: string
  asl_files_count :: string
  asl_img_hash :: string
  proc_page :: nat

datatype proc_ops = Read_enabled_flag | Read_files_count | Read_asl_img_hash | List_file_ops | Permissions_file_ops
  | Read_ver | Read_write_proc

record proc_entry =
  pe_name :: string
  pe_mode :: "32 word"
  pe_ops :: proc_ops

record asl_st =
  proc_data :: "char list"
  seq_counter :: "32 word"
  asl_dir :: bool
  asl_entries :: "proc_entry list"

definition asl_st0 :: asl_st where
  "asl_st0 = \<lparr>proc_data = replicate MAX_PROC_SIZE NUL, seq_counter = 0, asl_dir = False, asl_entries = []\<rparr>"

subsection \<open>Reading\<close>

text \<open>
  The text that \<open>sprintf\<close> makes of a format without arguments: \<open>%%\<close> is a percent sign, every other
  conversion has no argument.
\<close>

fun format_text :: "string \<Rightarrow> string option" where
  "format_text [] = Some []"
| "format_text (c # r) =
     (if c \<noteq> CHR ''%'' then map_option (Cons c) (format_text r)
      else case r of
        d # r' \<Rightarrow> if d = CHR ''%'' then map_option (Cons d) (format_text r') else None
      | [] \<Rightarrow> None)"

text \<open>\<open>sprintf\<close> into the page of a reader; the result is the text in the page.\<close>

definition sprintf_page :: "asl_data \<Rightarrow> string \<Rightarrow> string option" where
  "sprintf_page D fmt =
     (case format_text fmt of None \<Rightarrow> None | Some t \<Rightarrow> if length t < proc_page D then Some t else None)"

definition read_enabled_flag :: "asl_data \<Rightarrow> string option" where
  "read_enabled_flag D = sprintf_page D (if asl_disabled D then ''0'' else ''1'')"

definition read_files_count :: "asl_data \<Rightarrow> string option" where
  "read_files_count D = sprintf_page D (asl_files_count D)"

definition read_asl_img_hash :: "asl_data \<Rightarrow> string option" where
  "read_asl_img_hash D = sprintf_page D (asl_img_hash D)"

definition read_ver :: "asl_data \<Rightarrow> string option" where
  "read_ver D = sprintf_page D ASL_version"

text \<open>\<open>sprintf(buf, "%s", proc_data)\<close> reads on behind the array when it holds no NUL.\<close>

definition read_proc :: "asl_st \<Rightarrow> string option" where
  "read_proc st = (if NUL \<in> set (proc_data st) then Some (cstr_at (proc_data st) 0) else None)"

subsection \<open>Writing the status\<close>

text \<open>
  \<open>copy_from_user\<close> is a function of the kernel: from the memory \<open>ubuf\<close> that the caller may read and the
  number \<open>n\<close> of bytes it gives the number of bytes that could not be copied and the \<open>n\<close> bytes that are
  in the destination afterwards.
\<close>

type_synonym user_copy = "char list \<Rightarrow> nat \<Rightarrow> nat \<times> char list"

definition copies :: "user_copy \<Rightarrow> bool" where
  "copies C \<longleftrightarrow> (\<forall>ubuf n. length (snd (C ubuf n)) = n \<and> (fst (C ubuf n) = 0 \<longleftrightarrow> n \<le> length ubuf)
     \<and> (n \<le> length ubuf \<longrightarrow> snd (C ubuf n) = take n ubuf))"

abbreviation (input) EFAULT :: int where "EFAULT \<equiv> 14"

text \<open>A negative count becomes a huge size of the copy, which leaves the array.\<close>

definition write_proc :: "user_copy \<Rightarrow> char list \<Rightarrow> int \<Rightarrow> asl_st \<Rightarrow> (int \<times> asl_st) option" where
  "write_proc copy_from_user ubuf count st =
     (let count = (if int MAX_PROC_SIZE < count then int MAX_PROC_SIZE else count) in
      if count < 0 then None
      else
        let (rest, bytes) = copy_from_user ubuf (nat count);
            st = st\<lparr>proc_data := bytes @ drop (length bytes) (proc_data st)\<rparr>
        in Some (if rest \<noteq> 0 then (- EFAULT, st) else (count, st)))"

subsection \<open>The sequence files\<close>

text \<open>The iterators return whether there is an element, and the new position.\<close>

definition my_seq_start :: "int \<Rightarrow> bool \<times> int" where
  "my_seq_start pos = (if pos = 0 then (True, pos) else (False, 0))"

definition my_seq_next :: "int \<Rightarrow> asl_st \<Rightarrow> bool \<times> int \<times> asl_st" where
  "my_seq_next pos st = (False, pos + 1, st\<lparr>seq_counter := seq_counter st + 1\<rparr>)"

definition my_seq_stop :: "asl_st \<Rightarrow> asl_st" where
  "my_seq_stop st = st"

text \<open>\<open>seq_printf\<close> of a text as the format.\<close>

definition list_seq_show :: "asl_data \<Rightarrow> string option" where
  "list_seq_show D = format_text (asl_list D)"

definition permissions_seq_show :: "asl_data \<Rightarrow> string option" where
  "permissions_seq_show D = format_text (asl_permissions D)"

record seq_operations =
  seq_start :: "int \<Rightarrow> bool \<times> int"
  seq_next :: "int \<Rightarrow> asl_st \<Rightarrow> bool \<times> int \<times> asl_st"
  seq_stop :: "asl_st \<Rightarrow> asl_st"
  seq_show :: "asl_data \<Rightarrow> string option"

definition list_seq_ops :: seq_operations where
  "list_seq_ops = \<lparr>seq_start = my_seq_start, seq_next = my_seq_next, seq_stop = my_seq_stop, seq_show = list_seq_show\<rparr>"

definition permissions_seq_ops :: seq_operations where
  "permissions_seq_ops =
     \<lparr>seq_start = my_seq_start, seq_next = my_seq_next, seq_stop = my_seq_stop, seq_show = permissions_seq_show\<rparr>"

text \<open>
  The protocol in which the kernel calls the operations of a sequence: \<open>start\<close>, then \<open>show\<close> and \<open>next\<close>
  while there is an element, then \<open>stop\<close>.  The result is the text, the position and the state.
\<close>

partial_function (option) seq_elements ::
    "seq_operations \<Rightarrow> asl_data \<Rightarrow> bool \<Rightarrow> int \<Rightarrow> string \<Rightarrow> asl_st \<Rightarrow> (string \<times> int \<times> asl_st) option" where
  "seq_elements ops D elem pos out st =
     (if \<not> elem then Some (out, pos, seq_stop ops st)
      else case seq_show ops D of
        None \<Rightarrow> None
      | Some t \<Rightarrow> let (elem, pos, st) = seq_next ops pos st in seq_elements ops D elem pos (out @ t) st)"

definition seq_pass :: "seq_operations \<Rightarrow> asl_data \<Rightarrow> int \<Rightarrow> asl_st \<Rightarrow> (string \<times> int \<times> asl_st) option" where
  "seq_pass ops D pos st = (let (elem, pos) = seq_start ops pos in seq_elements ops D elem pos [] st)"

subsection \<open>Creating the files\<close>





subsection \<open>What the files promise\<close>





text \<open>
  C39. A status written by a process: of a text without NUL the first three bytes at most are kept
  apart from what was there; the bytes of a longer previous status remain behind a shorter one, and
  a text of four bytes or more leaves the array without a terminator, so that the next reader
  runs past its end.
\<close>

theorem status_read_back:
  assumes "copies C" and "length (proc_data st) = MAX_PROC_SIZE"
    and "NUL \<notin> set u" and "n = length u" and "write_proc C u (int n) st = Some (r, st')"
  shows "r = min (int n) 4
    \<and> read_proc st' =
        (if 4 \<le> n \<or> NUL \<notin> set (drop n (proc_data st)) then None
         else Some (u @ cstr_at (drop n (proc_data st)) 0))"
proof -
  let ?k = "min n 4"
  have C: "length (snd (C u ?k)) = ?k" "fst (C u ?k) = 0" "snd (C u ?k) = take ?k u"
    using assms(1,4) unfolding copies_def by auto
  have "(if int MAX_PROC_SIZE < int n then int MAX_PROC_SIZE else int n) = int ?k"
    by (simp add: MAX_PROC_SIZE_def)
  then have st': "r = int ?k" "proc_data st' = take ?k u @ drop ?k (proc_data st)"
    using assms(5) C by (auto simp: write_proc_def Let_def case_prod_unfold)
  show ?thesis
  proof (cases "4 \<le> n")
    case True
    then show ?thesis
      using st' assms(2,3) by (auto simp: read_proc_def MAX_PROC_SIZE_def dest: in_set_takeD)
  next
    case False
    then have "proc_data st' = u @ drop n (proc_data st)" "r = int n" using st' assms(4) by simp_all
    moreover have "takeWhile (\<lambda>c. c \<noteq> NUL) (u @ drop n (proc_data st)) = u @ takeWhile (\<lambda>c. c \<noteq> NUL) (drop n (proc_data st))"
      using assms(3) by (intro takeWhile_append2) auto
    ultimately show ?thesis using False assms(3) by (auto simp: read_proc_def cstr_at_def)
  qed
qed

text \<open>A copy that stores zeros for the bytes it cannot read.\<close>

definition zeroing_copy :: user_copy where
  "zeroing_copy ubuf n = (n - length ubuf, take n (ubuf @ replicate n NUL))"

lemma copies_zeroing: "copies zeroing_copy"
  by (simp add: copies_def zeroing_copy_def min_def)

theorem status_read_back_witness:
  "read_proc (snd (the (write_proc zeroing_copy ''0'' 1 asl_st0))) = Some ''0''
   \<and> read_proc (snd (the (write_proc zeroing_copy ''0'' 1 (asl_st0\<lparr>proc_data := ''12'' @ [NUL, NUL]\<rparr>)))) = Some ''02''
   \<and> read_proc (snd (the (write_proc zeroing_copy ''12345'' 5 asl_st0))) = None"
proof -
  have w: "write_proc zeroing_copy ''0'' (int 1) asl_st0 = Some (1, asl_st0\<lparr>proc_data := ''0'' @ [NUL, NUL, NUL]\<rparr>)"
    "write_proc zeroing_copy ''0'' (int 1) (asl_st0\<lparr>proc_data := ''12'' @ [NUL, NUL]\<rparr>)
       = Some (1, asl_st0\<lparr>proc_data := ''02'' @ [NUL, NUL]\<rparr>)"
    "write_proc zeroing_copy ''12345'' (int 5) asl_st0 = Some (4, asl_st0\<lparr>proc_data := ''1234''\<rparr>)"
    by (simp_all add: write_proc_def zeroing_copy_def asl_st0_def MAX_PROC_SIZE_def numeral_eq_Suc)
  have l: "length (proc_data asl_st0) = MAX_PROC_SIZE"
    "length (proc_data (asl_st0\<lparr>proc_data := ''12'' @ [NUL, NUL]\<rparr>)) = MAX_PROC_SIZE"
    by (simp_all add: asl_st0_def MAX_PROC_SIZE_def)
  show ?thesis
    using status_read_back [OF copies_zeroing l(1) _ _ w(1)]
      status_read_back [OF copies_zeroing l(2) _ _ w(2)]
      status_read_back [OF copies_zeroing l(1) _ _ w(3)] w
    by (simp add: asl_st0_def MAX_PROC_SIZE_def cstr_at_def numeral_eq_Suc)
qed

text \<open>
  A pass over the list from position 0 gives its text exactly once and moves to position 1; a pass
  from any other position gives nothing and moves back to 0.  A reader thus sees the list once
  and then the end of the file, and reading on starts over.
\<close>

lemma list_shown_once:
  "seq_pass list_seq_ops D pos st =
     (if pos \<noteq> 0 then Some ([], 0, st)
      else map_option (\<lambda>t. (t, 1, st\<lparr>seq_counter := seq_counter st + 1\<rparr>)) (format_text (asl_list D)))"
  by (simp add: seq_pass_def seq_elements.simps [of _ _ _ 0] seq_elements.simps [of _ _ False] list_seq_ops_def
      my_seq_start_def my_seq_next_def my_seq_stop_def list_seq_show_def split: option.split)

end
