(* ===== verification/Hash_Block.thy ===== *)
theory Hash_Block
  imports Prelude
begin

text \<open>
  The block functions of busybox's \<open>libbb/hash_md5_sha.c\<close>, with which \<open>sha1sum\<close> computes the sums
  of the security list: MD5 in its four sizes, SHA-1 with its cyclic message schedule, SHA-256 and
  SHA-512.  The target is little endian.  The theory compares SHA-1 with the definition of
  FIPS 180-2, and the variants of MD5 with each other.
\<close>

unbundle bit_operations_syntax

subsection \<open>Bytes and words\<close>

type_synonym bytes = "8 word list"

text \<open>A word in the memory of the target, its lowest byte first, and the swap of its bytes.\<close>

fun word_of :: "bytes \<Rightarrow> 'a::len word" where
  "word_of [] = 0"
| "word_of (b # bs) = ucast b OR push_bit 8 (word_of bs)"

definition bytes_of :: "'a::len word \<Rightarrow> bytes" where
  "bytes_of x = map (\<lambda>i. ucast (drop_bit (8 * i) x)) [0..<LENGTH('a) div 8]"

definition bswap :: "'a::len word \<Rightarrow> 'a word" where
  "bswap x = word_of (rev (bytes_of x))"

text \<open>The array of \<open>n\<close> words of 32 or 64 bits in a buffer.\<close>

definition words32 :: "nat \<Rightarrow> bytes \<Rightarrow> 32 word list" where
  "words32 n m = map (\<lambda>i. word_of (take 4 (drop (4 * i) m))) [0..<n]"

definition words64 :: "nat \<Rightarrow> bytes \<Rightarrow> 64 word list" where
  "words64 n m = map (\<lambda>i. word_of (take 8 (drop (8 * i) m))) [0..<n]"

definition rotl32 :: "32 word \<Rightarrow> nat \<Rightarrow> 32 word" where
  "rotl32 x n = push_bit n x OR drop_bit (32 - n) x"

definition rotr32 :: "32 word \<Rightarrow> nat \<Rightarrow> 32 word" where
  "rotr32 x n = drop_bit n x OR push_bit (32 - n) x"

definition rotr64 :: "64 word \<Rightarrow> nat \<Rightarrow> 64 word" where
  "rotr64 x n = drop_bit n x OR push_bit (64 - n) x"

subsection \<open>MD5\<close>

definition FF :: "32 word \<Rightarrow> 32 word \<Rightarrow> 32 word \<Rightarrow> 32 word" where "FF b c d = d XOR (b AND (c XOR d))"
definition FG :: "32 word \<Rightarrow> 32 word \<Rightarrow> 32 word \<Rightarrow> 32 word" where "FG b c d = FF d b c"
definition FH :: "32 word \<Rightarrow> 32 word \<Rightarrow> 32 word \<Rightarrow> 32 word" where "FH b c d = b XOR c XOR d"
definition FI :: "32 word \<Rightarrow> 32 word \<Rightarrow> 32 word \<Rightarrow> 32 word" where "FI b c d = c XOR (b OR NOT d)"

definition C_array :: "32 word list" where
  "C_array = [
     0xd76aa478, 0xe8c7b756, 0x242070db, 0xc1bdceee,
     0xf57c0faf, 0x4787c62a, 0xa8304613, 0xfd469501,
     0x698098d8, 0x8b44f7af, 0xffff5bb1, 0x895cd7be,
     0x6b901122, 0xfd987193, 0xa679438e, 0x49b40821,
     0xf61e2562, 0xc040b340, 0x265e5a51, 0xe9b6c7aa,
     0xd62f105d, 0x02441453, 0xd8a1e681, 0xe7d3fbc8,
     0x21e1cde6, 0xc33707d6, 0xf4d50d87, 0x455a14ed,
     0xa9e3e905, 0xfcefa3f8, 0x676f02d9, 0x8d2a4c8a,
     0xfffa3942, 0x8771f681, 0x6d9d6122, 0xfde5380c,
     0xa4beea44, 0x4bdecfa9, 0xf6bb4b60, 0xbebfbc70,
     0x289b7ec6, 0xeaa127fa, 0xd4ef3085, 0x4881d05,
     0xd9d4d039, 0xe6db99e5, 0x1fa27cf8, 0xc4ac5665,
     0xf4292244, 0x432aff97, 0xab9423a7, 0xfc93a039,
     0x655b59c3, 0x8f0ccc92, 0xffeff47d, 0x85845dd1,
     0x6fa87e4f, 0xfe2ce6e0, 0xa3014314, 0x4e0811a1,
     0xf7537e82, 0xbd3af235, 0x2ad7d2bb, 0xeb86d391]"

definition P_array :: "nat list" where
  "P_array = [
     0, 1, 2, 3, 4, 5, 6, 7, 8, 9, 10, 11, 12, 13, 14, 15,
     1, 6, 11, 0, 5, 10, 15, 4, 9, 14, 3, 8, 13, 2, 7, 12,
     5, 8, 11, 14, 1, 4, 7, 10, 13, 0, 3, 6, 9, 12, 15, 2,
     0, 7, 14, 5, 12, 3, 10, 1, 8, 15, 6, 13, 4, 11, 2, 9]"

definition S_array :: "nat list" where
  "S_array = [7, 12, 17, 22, 5, 9, 14, 20, 4, 11, 16, 23, 6, 10, 15, 21]"

type_synonym md5_vars = "32 word \<times> 32 word \<times> 32 word \<times> 32 word"

text \<open>\<open>MD5_SMALL\<close> 3: one loop over the 64 steps.\<close>

definition md5_step3 :: "32 word list \<Rightarrow> nat \<Rightarrow> md5_vars \<Rightarrow> md5_vars" where
  "md5_step3 words i v =
     (case v of (A, B, C, D) \<Rightarrow>
        let temp = A + (if i div 16 = 0 then FF B C D else if i div 16 = 1 then FG B C D
                        else if i div 16 = 2 then FH B C D else FI B C D);
            temp = temp + (words ! (P_array ! i) + C_array ! i);
            temp = rotl32 temp (S_array ! (4 * (i div 16) + i mod 4));
            temp = temp + B
        in (D, temp, B, C))"

definition md5_rounds3 :: "32 word list \<Rightarrow> md5_vars \<Rightarrow> md5_vars" where
  "md5_rounds3 words v = fold (md5_step3 words) [0..<64] v"

text \<open>\<open>MD5_SMALL\<close> 2: a loop for each of the four functions; \<open>k\<close> counts the loops.\<close>

definition md5_step2 ::
  "(32 word \<Rightarrow> 32 word \<Rightarrow> 32 word \<Rightarrow> 32 word) \<Rightarrow> nat \<Rightarrow> 32 word list \<Rightarrow> nat \<Rightarrow> md5_vars \<Rightarrow> md5_vars" where
  "md5_step2 f k words i v =
     (case v of (A, B, C, D) \<Rightarrow>
        let temp = A + f B C D + words ! (P_array ! (16 * k + i)) + C_array ! (16 * k + i);
            temp = rotl32 temp (S_array ! (4 * k + i mod 4));
            temp = temp + B
        in (D, temp, B, C))"

definition md5_rounds2 :: "32 word list \<Rightarrow> md5_vars \<Rightarrow> md5_vars" where
  "md5_rounds2 words v =
     (let v = fold (md5_step2 FF 0 words) [0..<16] v;
          v = fold (md5_step2 FG 1 words) [0..<16] v;
          v = fold (md5_step2 FH 2 words) [0..<16] v
      in fold (md5_step2 FI 3 words) [0..<16] v)"

text \<open>\<open>MD5_SMALL\<close> 1 and 0: the macro \<open>OP\<close> gives the new value of its second argument, four at a time.
  The first round takes the words in order, which is the first row of \<open>P_array\<close>.\<close>

definition OP ::
  "(32 word \<Rightarrow> 32 word \<Rightarrow> 32 word \<Rightarrow> 32 word) \<Rightarrow> 32 word \<Rightarrow> 32 word \<Rightarrow> 32 word \<Rightarrow> 32 word \<Rightarrow> 32 word \<Rightarrow> nat \<Rightarrow> 32 word \<Rightarrow> 32 word" where
  "OP f a b c d w s T =
     (let a = a + (f b c d + w + T);
          a = rotl32 a s
      in a + b)"

text \<open>Four operations with the indices \<open>p\<close> of the words, the shifts \<open>s\<close> and the constants \<open>T\<close> of each.\<close>

definition md5_quad ::
  "(32 word \<Rightarrow> 32 word \<Rightarrow> 32 word \<Rightarrow> 32 word) \<Rightarrow> 32 word list \<Rightarrow> nat list \<Rightarrow> nat list \<Rightarrow> 32 word list \<Rightarrow> md5_vars \<Rightarrow> md5_vars" where
  "md5_quad f words p s T v =
     (case v of (A, B, C, D) \<Rightarrow>
        let A = OP f A B C D (words ! (p ! 0)) (s ! 0) (T ! 0);
            D = OP f D A B C (words ! (p ! 1)) (s ! 1) (T ! 1);
            C = OP f C D A B (words ! (p ! 2)) (s ! 2) (T ! 2);
            B = OP f B C D A (words ! (p ! 3)) (s ! 3) (T ! 3)
        in (A, B, C, D))"

definition md5_loop1 ::
  "(32 word \<Rightarrow> 32 word \<Rightarrow> 32 word \<Rightarrow> 32 word) \<Rightarrow> nat \<Rightarrow> nat list \<Rightarrow> 32 word list \<Rightarrow> md5_vars \<Rightarrow> md5_vars" where
  "md5_loop1 f k s words v =
     fold (\<lambda>i. md5_quad f words (take 4 (drop (16 * k + 4 * i) P_array)) s (take 4 (drop (16 * k + 4 * i) C_array))) [0..<4] v"

definition md5_rounds1 :: "32 word list \<Rightarrow> md5_vars \<Rightarrow> md5_vars" where
  "md5_rounds1 words v =
     (let v = md5_loop1 FF 0 [7, 12, 17, 22] words v;
          v = md5_loop1 FG 1 [5, 9, 14, 20] words v;
          v = md5_loop1 FH 2 [4, 11, 16, 23] words v
      in md5_loop1 FI 3 [6, 10, 15, 21] words v)"

definition md5_rounds0 :: "32 word list \<Rightarrow> md5_vars \<Rightarrow> md5_vars" where
  "md5_rounds0 words v =
     (let v = md5_quad FF words [0, 1, 2, 3] [7, 12, 17, 22] [0xd76aa478, 0xe8c7b756, 0x242070db, 0xc1bdceee] v;
          v = md5_quad FF words [4, 5, 6, 7] [7, 12, 17, 22] [0xf57c0faf, 0x4787c62a, 0xa8304613, 0xfd469501] v;
          v = md5_quad FF words [8, 9, 10, 11] [7, 12, 17, 22] [0x698098d8, 0x8b44f7af, 0xffff5bb1, 0x895cd7be] v;
          v = md5_quad FF words [12, 13, 14, 15] [7, 12, 17, 22] [0x6b901122, 0xfd987193, 0xa679438e, 0x49b40821] v;
          v = md5_quad FG words [1, 6, 11, 0] [5, 9, 14, 20] [0xf61e2562, 0xc040b340, 0x265e5a51, 0xe9b6c7aa] v;
          v = md5_quad FG words [5, 10, 15, 4] [5, 9, 14, 20] [0xd62f105d, 0x02441453, 0xd8a1e681, 0xe7d3fbc8] v;
          v = md5_quad FG words [9, 14, 3, 8] [5, 9, 14, 20] [0x21e1cde6, 0xc33707d6, 0xf4d50d87, 0x455a14ed] v;
          v = md5_quad FG words [13, 2, 7, 12] [5, 9, 14, 20] [0xa9e3e905, 0xfcefa3f8, 0x676f02d9, 0x8d2a4c8a] v;
          v = md5_quad FH words [5, 8, 11, 14] [4, 11, 16, 23] [0xfffa3942, 0x8771f681, 0x6d9d6122, 0xfde5380c] v;
          v = md5_quad FH words [1, 4, 7, 10] [4, 11, 16, 23] [0xa4beea44, 0x4bdecfa9, 0xf6bb4b60, 0xbebfbc70] v;
          v = md5_quad FH words [13, 0, 3, 6] [4, 11, 16, 23] [0x289b7ec6, 0xeaa127fa, 0xd4ef3085, 0x04881d05] v;
          v = md5_quad FH words [9, 12, 15, 2] [4, 11, 16, 23] [0xd9d4d039, 0xe6db99e5, 0x1fa27cf8, 0xc4ac5665] v;
          v = md5_quad FI words [0, 7, 14, 5] [6, 10, 15, 21] [0xf4292244, 0x432aff97, 0xab9423a7, 0xfc93a039] v;
          v = md5_quad FI words [12, 3, 10, 1] [6, 10, 15, 21] [0x655b59c3, 0x8f0ccc92, 0xffeff47d, 0x85845dd1] v;
          v = md5_quad FI words [8, 15, 6, 13] [6, 10, 15, 21] [0x6fa87e4f, 0xfe2ce6e0, 0xa3014314, 0x4e0811a1] v
      in md5_quad FI words [4, 11, 2, 9] [6, 10, 15, 21] [0xf7537e82, 0xbd3af235, 0x2ad7d2bb, 0xeb86d391] v)"

text \<open>
  \<open>md5_process_block64\<close> with the value of \<open>CONFIG_MD5_SMALL\<close>, on the buffer and the hash value, of
  which it changes the first four words.
\<close>

definition md5_process_block64 :: "int \<Rightarrow> bytes \<Rightarrow> 32 word list \<Rightarrow> 32 word list" where
  "md5_process_block64 config wbuffer hash =
     (let small = (if config < 0 then 0 else if 3 < config then 3 else config);
          words = words32 16 wbuffer;
          rounds = (if small = 0 then md5_rounds0 else if small = 1 then md5_rounds1
                    else if small = 2 then md5_rounds2 else md5_rounds3);
          (A, B, C, D) = rounds words (hash ! 0, hash ! 1, hash ! 2, hash ! 3)
      in [hash ! 0 + A, hash ! 1 + B, hash ! 2 + C, hash ! 3 + D] @ drop 4 hash)"

subsection \<open>SHA-1\<close>

definition rconsts :: "32 word list" where
  "rconsts = [0x5A827999, 0x6ED9EBA1, 0x8F1BBCDC, 0xCA62C1D6]"

type_synonym sha1_vars = "32 word \<times> 32 word \<times> 32 word \<times> 32 word \<times> 32 word"

text \<open>One pass through the inner loop: the schedule \<open>W\<close> is kept in two copies of 16 words.\<close>

definition sha1_step :: "nat \<Rightarrow> nat \<Rightarrow> 32 word list \<times> nat \<times> sha1_vars \<Rightarrow> 32 word list \<times> nat \<times> sha1_vars" where
  "sha1_step i j st =
     (case st of (W, cnt, a, b, c, d, e) \<Rightarrow>
        let work = c XOR d;
            work = (if i = 0 then (work AND b) XOR d
                    else if i = 2 then ((b OR c) AND d) OR (b AND c)
                    else work XOR b);
            new = rotl32 (W ! (cnt + 13) XOR W ! (cnt + 8) XOR W ! (cnt + 2) XOR W ! cnt) 1;
            W = (if i = 0 \<and> 3 < j then W else W[cnt + 16 := new, cnt := new]);
            work = work + W ! cnt;
            work = work + (e + rotl32 a 5 + rconsts ! i)
        in (W, (cnt + 1) mod 16, work, a, rotl32 b 30, c, d))"

definition sha1_process_block64 :: "bytes \<Rightarrow> 32 word list \<Rightarrow> 32 word list" where
  "sha1_process_block64 wbuffer hash =
     (let W = map bswap (words32 16 wbuffer);
          (_, _, a, b, c, d, e) =
            fold (\<lambda>i. fold (sha1_step i) (rev [0..<20])) [0..<4] (W @ W, 0, hash ! 0, hash ! 1, hash ! 2, hash ! 3, hash ! 4)
      in [hash ! 0 + a, hash ! 1 + b, hash ! 2 + c, hash ! 3 + d, hash ! 4 + e] @ drop 5 hash)"

subsection \<open>SHA-256 and SHA-512\<close>

definition sha_K :: "64 word list" where
  "sha_K = [
     0x428a2f98d728ae22, 0x7137449123ef65cd, 0xb5c0fbcfec4d3b2f, 0xe9b5dba58189dbbc,
     0x3956c25bf348b538, 0x59f111f1b605d019, 0x923f82a4af194f9b, 0xab1c5ed5da6d8118,
     0xd807aa98a3030242, 0x12835b0145706fbe, 0x243185be4ee4b28c, 0x550c7dc3d5ffb4e2,
     0x72be5d74f27b896f, 0x80deb1fe3b1696b1, 0x9bdc06a725c71235, 0xc19bf174cf692694,
     0xe49b69c19ef14ad2, 0xefbe4786384f25e3, 0x0fc19dc68b8cd5b5, 0x240ca1cc77ac9c65,
     0x2de92c6f592b0275, 0x4a7484aa6ea6e483, 0x5cb0a9dcbd41fbd4, 0x76f988da831153b5,
     0x983e5152ee66dfab, 0xa831c66d2db43210, 0xb00327c898fb213f, 0xbf597fc7beef0ee4,
     0xc6e00bf33da88fc2, 0xd5a79147930aa725, 0x06ca6351e003826f, 0x142929670a0e6e70,
     0x27b70a8546d22ffc, 0x2e1b21385c26c926, 0x4d2c6dfc5ac42aed, 0x53380d139d95b3df,
     0x650a73548baf63de, 0x766a0abb3c77b2a8, 0x81c2c92e47edaee6, 0x92722c851482353b,
     0xa2bfe8a14cf10364, 0xa81a664bbc423001, 0xc24b8b70d0f89791, 0xc76c51a30654be30,
     0xd192e819d6ef5218, 0xd69906245565a910, 0xf40e35855771202a, 0x106aa07032bbd1b8,
     0x19a4c116b8d2d0c8, 0x1e376c085141ab53, 0x2748774cdf8eeb99, 0x34b0bcb5e19b48a8,
     0x391c0cb3c5c95a63, 0x4ed8aa4ae3418acb, 0x5b9cca4f7763e373, 0x682e6ff3d6b2b8a3,
     0x748f82ee5defb2fc, 0x78a5636f43172f60, 0x84c87814a1f0ab72, 0x8cc702081a6439ec,
     0x90befffa23631e28, 0xa4506cebde82bde9, 0xbef9a3f7b2c67915, 0xc67178f2e372532b,
     0xca273eceea26619c, 0xd186b8c721c0c207, 0xeada7dd6cde0eb1e, 0xf57d4f7fee6ed178,
     0x06f067aa72176fba, 0x0a637dc5a2c898a6, 0x113f9804bef90dae, 0x1b710b35131c471b,
     0x28db77f523047d84, 0x32caab7b40c72493, 0x3c9ebe0a15c9bebc, 0x431d67c49c100d4c,
     0x4cc5d4becb3e42b6, 0x597f299cfc657e2a, 0x5fcb6fab3ad6faec, 0x6c44198c4a475817]"

definition Ch :: "'a::len word \<Rightarrow> 'a word \<Rightarrow> 'a word \<Rightarrow> 'a word" where
  "Ch x y z = (x AND y) XOR (NOT x AND z)"

definition Maj :: "'a::len word \<Rightarrow> 'a word \<Rightarrow> 'a word \<Rightarrow> 'a word" where
  "Maj x y z = (x AND y) XOR (x AND z) XOR (y AND z)"

definition S0_256 :: "32 word \<Rightarrow> 32 word" where "S0_256 x = rotr32 x 2 XOR rotr32 x 13 XOR rotr32 x 22"
definition S1_256 :: "32 word \<Rightarrow> 32 word" where "S1_256 x = rotr32 x 6 XOR rotr32 x 11 XOR rotr32 x 25"
definition R0_256 :: "32 word \<Rightarrow> 32 word" where "R0_256 x = rotr32 x 7 XOR rotr32 x 18 XOR drop_bit 3 x"
definition R1_256 :: "32 word \<Rightarrow> 32 word" where "R1_256 x = rotr32 x 17 XOR rotr32 x 19 XOR drop_bit 10 x"

definition S0_512 :: "64 word \<Rightarrow> 64 word" where "S0_512 x = rotr64 x 28 XOR rotr64 x 34 XOR rotr64 x 39"
definition S1_512 :: "64 word \<Rightarrow> 64 word" where "S1_512 x = rotr64 x 14 XOR rotr64 x 18 XOR rotr64 x 41"
definition R0_512 :: "64 word \<Rightarrow> 64 word" where "R0_512 x = rotr64 x 1 XOR rotr64 x 8 XOR drop_bit 7 x"
definition R1_512 :: "64 word \<Rightarrow> 64 word" where "R1_512 x = rotr64 x 19 XOR rotr64 x 61 XOR drop_bit 6 x"

type_synonym 'a sha2_vars = "'a word \<times> 'a word \<times> 'a word \<times> 'a word \<times> 'a word \<times> 'a word \<times> 'a word \<times> 'a word"

text \<open>The schedule \<open>W[t]\<close> is appended word by word; the loop over \<open>t\<close> is the same for both functions.\<close>

definition sha2_schedule :: "('a::len word \<Rightarrow> 'a word) \<Rightarrow> ('a word \<Rightarrow> 'a word) \<Rightarrow> nat \<Rightarrow> 'a word list \<Rightarrow> 'a word list" where
  "sha2_schedule R0 R1 n W =
     fold (\<lambda>t W. W @ [R1 (W ! (t - 2)) + W ! (t - 7) + R0 (W ! (t - 15)) + W ! (t - 16)]) [16..<n] W"

definition sha2_step ::
  "('a::len word \<Rightarrow> 'a word) \<Rightarrow> ('a word \<Rightarrow> 'a word) \<Rightarrow> 'a word \<Rightarrow> 'a word \<Rightarrow> 'a sha2_vars \<Rightarrow> 'a sha2_vars" where
  "sha2_step S0 S1 K_t W_t v =
     (case v of (a, b, c, d, e, f, g, h) \<Rightarrow>
        let T1 = h + S1 e + Ch e f g + K_t + W_t;
            T2 = S0 a + Maj a b c
        in (T1 + T2, a, b, c, d + T1, e, f, g))"

definition sha256_process_block64 :: "bytes \<Rightarrow> 32 word list \<Rightarrow> 32 word list" where
  "sha256_process_block64 wbuffer hash =
     (let W = sha2_schedule R0_256 R1_256 64 (map bswap (words32 16 wbuffer));
          (a, b, c, d, e, f, g, h) =
            fold (\<lambda>t. sha2_step S0_256 S1_256 (ucast (drop_bit 32 (sha_K ! t))) (W ! t)) [0..<64]
              (hash ! 0, hash ! 1, hash ! 2, hash ! 3, hash ! 4, hash ! 5, hash ! 6, hash ! 7)
      in [hash ! 0 + a, hash ! 1 + b, hash ! 2 + c, hash ! 3 + d, hash ! 4 + e, hash ! 5 + f, hash ! 6 + g, hash ! 7 + h])"

definition sha512_process_block128 :: "bytes \<Rightarrow> 64 word list \<Rightarrow> 64 word list" where
  "sha512_process_block128 wbuffer hash =
     (let W = sha2_schedule R0_512 R1_512 80 (map bswap (words64 16 wbuffer));
          (a, b, c, d, e, f, g, h) =
            fold (\<lambda>t. sha2_step S0_512 S1_512 (sha_K ! t) (W ! t)) [0..<80]
              (hash ! 0, hash ! 1, hash ! 2, hash ! 3, hash ! 4, hash ! 5, hash ! 6, hash ! 7)
      in [hash ! 0 + a, hash ! 1 + b, hash ! 2 + c, hash ! 3 + d, hash ! 4 + e, hash ! 5 + f, hash ! 6 + g, hash ! 7 + h])"

subsection \<open>The variants of MD5 agree\<close>

text \<open>One step with the tables of RFC 1321.\<close>

definition md5_ref :: "32 word list \<Rightarrow> nat \<Rightarrow> md5_vars \<Rightarrow> md5_vars" where
  "md5_ref words i v =
     (case v of (A, B, C, D) \<Rightarrow>
        (D, OP ([FF, FG, FH, FI] ! (i div 16)) A B C D (words ! (P_array ! i)) (S_array ! (4 * (i div 16) + i mod 4)) (C_array ! i), B, C))"

lemma md5_step3_ref: "i < 64 \<Longrightarrow> md5_step3 words i = md5_ref words i"
proof (rule ext)
  fix v
  assume "i < 64"
  then have "i div 16 = 0 \<or> i div 16 = 1 \<or> i div 16 = 2 \<or> i div 16 = 3" by linarith
  then show "md5_step3 words i v = md5_ref words i v" by (cases v) (auto simp: md5_step3_def md5_ref_def OP_def Let_def add_ac)
qed

lemma md5_step2_ref:
  assumes "i < 16"
  shows "md5_step2 ([FF, FG, FH, FI] ! k) k words i = md5_ref words (16 * k + i)"
proof (rule ext)
  fix v
  have "(16 * k + i) div 16 = k" "(16 * k + i) mod 4 = i mod 4" using assms by presburger+
  then show "md5_step2 ([FF, FG, FH, FI] ! k) k words i v = md5_ref words (16 * k + i) v"
    unfolding md5_step2_def md5_ref_def OP_def Let_def by (cases v) (simp add: add.assoc)
qed

lemma md5_quad_ref:
  assumes "k < 4" "i < 4" "n = 16 * k + 4 * i"
  shows "md5_quad ([FF, FG, FH, FI] ! k) words (take 4 (drop n P_array)) (take 4 (drop (4 * k) S_array)) (take 4 (drop n C_array)) v =
    fold (md5_ref words) [n..<n + 4] v"
proof -
  have n: "[n..<n + 4] = [n, n + 1, n + 2, n + 3]" by (simp add: upt_rec)
  have q: "n div 16 = k" "(n + 1) div 16 = k" "(n + 2) div 16 = k" "(n + 3) div 16 = k"
    using assms by linarith+
  have "n = 4 * (4 * k + i)" using assms(3) by simp
  then have r: "n mod 4 = 0" "(n + 1) mod 4 = 1" "(n + 2) mod 4 = 2" "(n + 3) mod 4 = 3" by presburger+
  have len: "length P_array = 64" "length C_array = 64" "length S_array = 16" by (simp_all add: P_array_def C_array_def S_array_def)
  have nths: "take 4 (drop n P_array) ! j = P_array ! (n + j)" "take 4 (drop n C_array) ! j = C_array ! (n + j)"
    "take 4 (drop (4 * k) S_array) ! j = S_array ! (4 * k + j)" if "j < 4" for j
    using assms that len by simp_all
  have u: "take 4 (drop n P_array) ! 0 = P_array ! n" "take 4 (drop n C_array) ! 0 = C_array ! n" "take 4 (drop (4 * k) S_array) ! 0 = S_array ! (4 * k)"
    using nths [of 0] by simp_all
  obtain A B C D where v: "v = (A, B, C, D)" by (cases v)
  show ?thesis unfolding n v md5_quad_def md5_ref_def fold_simps prod.case Let_def q r
    using nths [of 1] nths [of 2] nths [of 3] u by simp
qed

lemma fold_upt_shift: "fold (\<lambda>i. f (m + i)) [0..<n] v = fold f [m..<m + n] v"
  by (induction n) auto

lemma fold_upt_append: "m \<le> n \<Longrightarrow> fold f [m..<n] (fold f [k..<m] v) = fold f [k..<n] v" if "k \<le> m"
  using that by (metis fold_append comp_apply upt_add_eq_append le_add_diff_inverse)

lemma md5_loop1_ref:
  assumes "k < 4" "s = take 4 (drop (4 * k) S_array)" "m = 16 * k" "n = m + 16"
  shows "md5_loop1 ([FF, FG, FH, FI] ! k) k s words v = fold (md5_ref words) [m..<n] v"
proof -
  let ?q = "\<lambda>i. fold (md5_ref words) [m + 4 * i..<m + 4 * i + 4]"
  have i: "[0..<4] = [0, 1, 2, 3]" by (simp add: upt_rec)
  have "md5_loop1 ([FF, FG, FH, FI] ! k) k s words v = fold ?q [0..<4] v"
    unfolding md5_loop1_def assms(2,3) by (rule fold_cong) (simp_all add: fun_eq_iff md5_quad_ref [OF assms(1)])
  also have "\<dots> = ?q 3 (?q 2 (?q 1 (?q 0 v)))" unfolding i fold_simps ..
  also have "\<dots> = fold (md5_ref words) [m..<n] v"
    by (simp add: fold_upt_append add.assoc assms(4))
  finally show ?thesis .
qed

lemma md5_rounds3_ref: "md5_rounds3 words v = fold (md5_ref words) [0..<64] v"
  unfolding md5_rounds3_def by (rule fold_cong) (simp_all add: md5_step3_ref)

lemma fold_quarters:
  "fold f [48..<64] (fold f [32..<48] (fold f [16..<32] (fold f [0..<16] v))) = fold f [0..<64] v"
  using fold_upt_append [of 0 16 32 f v] fold_upt_append [of 0 32 48 f v] fold_upt_append [of 0 48 64 f v]
  by (simp del: upt_rec_numeral)

lemma md5_rounds2_ref: "md5_rounds2 words v = fold (md5_ref words) [0..<64] v"
proof -
  have s: "fold (md5_step2 f k words) [0..<16] v = fold (md5_ref words) [m..<n] v"
    if "f = [FF, FG, FH, FI] ! k" "m = 16 * k" "n = m + 16" for f k m n v
  proof -
    have "fold (md5_step2 f k words) [0..<16] v = fold (\<lambda>i. md5_ref words (16 * k + i)) [0..<16] v"
      by (rule fold_cong) (simp_all add: md5_step2_ref that)
    then show ?thesis using fold_upt_shift [of "md5_ref words" "16 * k" 16 v] that by simp
  qed
  show ?thesis unfolding md5_rounds2_def Let_def fold_quarters [symmetric]
    using s [of FF 0 0 16] s [of FG 1 16 32] s [of FH 2 32 48] s [of FI 3 48 64] by (simp del: upt_rec_numeral)
qed

lemma md5_rounds1_ref: "md5_rounds1 words v = fold (md5_ref words) [0..<64] v"
proof -
  have s: "[7, 12, 17, 22] = take 4 (drop (4 * 0) S_array)" "[5, 9, 14, 20] = take 4 (drop (4 * 1) S_array)"
    "[4, 11, 16, 23] = take 4 (drop (4 * 2) S_array)" "[6, 10, 15, 21] = take 4 (drop (4 * 3) S_array)" by (simp_all add: S_array_def)
  show ?thesis unfolding md5_rounds1_def Let_def fold_quarters [symmetric]
    using md5_loop1_ref [OF _ s(1), of 0 16] md5_loop1_ref [OF _ s(2), of 16 32]
      md5_loop1_ref [OF _ s(3), of 32 48] md5_loop1_ref [OF _ s(4), of 48 64]
    by (simp del: upt_rec_numeral)
qed

lemma md5_rounds0_ref: "md5_rounds0 words v = md5_rounds1 words v"
  unfolding md5_rounds0_def md5_rounds1_def md5_loop1_def Let_def by (simp add: upt_rec P_array_def C_array_def)

lemma md5_variants: "md5_process_block64 config wbuffer hash = md5_process_block64 3 wbuffer hash"
proof -
  have "md5_rounds0 = md5_rounds3" "md5_rounds1 = md5_rounds3" "md5_rounds2 = md5_rounds3"
    by (intro ext, simp add: md5_rounds0_ref md5_rounds1_ref md5_rounds2_ref md5_rounds3_ref)+
  then show ?thesis by (simp add: md5_process_block64_def Let_def)
qed

text \<open>
  C17.  The four variants of MD5 between which \<open>CONFIG_MD5_SMALL\<close> chooses, from the smallest with one
  loop to the fastest that is unrolled, compute the same function.
\<close>

theorem md5_variants_agree: "md5_process_block64 config wbuffer hash = md5_process_block64 config' wbuffer hash"
  by (simp add: md5_variants [of config] md5_variants [of config'])

subsection \<open>Words and bytes\<close>

lemma bit_word_of: "bit (word_of bs :: 'a::len word) n \<longleftrightarrow> n < LENGTH('a) \<and> n div 8 < length bs \<and> bit (bs ! (n div 8)) (n mod 8)"
proof (induction bs arbitrary: n)
  case (Cons b bs)
  show ?case
  proof (cases "n < 8")
    case True
    then show ?thesis by (auto simp: bit_simps)
  next
    case False
    then obtain k where k: "n = k + 8" by (metis add.commute le_Suc_ex not_less)
    have "\<not> bit b n" using False bit_imp_le_length [of b n] by auto
    moreover have "n div 8 = Suc (k div 8)" "n mod 8 = k mod 8" using k by simp_all
    ultimately show ?thesis using Cons.IH [of k] k by (auto simp: bit_simps)
  qed
qed simp

lemma bytes_of_word_of:
  assumes "8 * length bs = LENGTH('a)"
  shows "bytes_of (word_of bs :: 'a::len word) = bs"
proof (rule nth_equalityI)
  show len: "length (bytes_of (word_of bs :: 'a word)) = length bs" using assms by (simp add: bytes_of_def flip: assms)
  fix i
  assume "i < length (bytes_of (word_of bs :: 'a word))"
  then have i: "i < length bs" "i < LENGTH('a) div 8" using len by (simp_all add: bytes_of_def)
  have "bit (ucast (drop_bit (8 * i) (word_of bs :: 'a word)) :: 8 word) n \<longleftrightarrow> bit (bs ! i) n" if "n < 8" for n
  proof -
    have "(8 * i + n) div 8 = i" "(8 * i + n) mod 8 = n" "8 * i + n < LENGTH('a)" using that i assms by simp_all
    then show ?thesis using that i by (simp add: bit_simps bit_word_of)
  qed
  then show "bytes_of (word_of bs :: 'a word) ! i = bs ! i"
    using i by (simp add: bytes_of_def) (rule bit_word_eqI, simp)
qed

lemma bswap_word_of: "8 * length bs = LENGTH('a) \<Longrightarrow> bswap (word_of bs :: 'a::len word) = word_of (rev bs)"
  by (simp add: bswap_def bytes_of_word_of)

lemma rotl32_rot: "0 < n \<Longrightarrow> n < 32 \<Longrightarrow> rotl32 x n = word_rotl n x"
proof (rule bit_word_eqI)
  fix m
  assume n: "0 < n" "n < 32" and "m < LENGTH(32)"
  then have m: "m < 32" by simp
  have rot: "bit (word_rotl n x) m = bit x ((m + (32 - n)) mod 32)" using n m by (simp add: bit_word_rotl_iff)
  have big: "\<not> bit x k" if "32 \<le> k" for k using that bit_imp_le_length [of x k] by auto
  have def: "bit (rotl32 x n) m \<longleftrightarrow> n \<le> m \<and> bit x (m - n) \<or> bit x (m + (32 - n))"
    using n m by (simp add: rotl32_def bit_simps add.commute)
  show "bit (rotl32 x n) m = bit (word_rotl n x) m"
  proof (cases "n \<le> m")
    case True
    have "(m + (32 - n)) mod 32 = m - n" using True n m by (simp add: mod_if)
    then show ?thesis unfolding rot def using True n big [of "m + (32 - n)"] by simp
  next
    case False
    then show ?thesis unfolding rot def using n m by simp
  qed
qed

subsection \<open>SHA-1 as in FIPS 180-2\<close>

text \<open>The schedule of 80 words, the functions and constants of the steps, and the new hash value.\<close>

fun fips_W :: "bytes \<Rightarrow> nat \<Rightarrow> 32 word" where
  "fips_W M t =
     (if t < 16 then word_of (rev (take 4 (drop (4 * t) M)))
      else word_rotl 1 (fips_W M (t - 3) XOR fips_W M (t - 8) XOR fips_W M (t - 14) XOR fips_W M (t - 16)))"

declare fips_W.simps [simp del]

definition fips_f :: "nat \<Rightarrow> 32 word \<Rightarrow> 32 word \<Rightarrow> 32 word \<Rightarrow> 32 word" where
  "fips_f t x y z =
     (if t < 20 then (x AND y) XOR (NOT x AND z)
      else if 40 \<le> t \<and> t < 60 then (x AND y) XOR (x AND z) XOR (y AND z)
      else x XOR y XOR z)"

definition fips_K :: "nat \<Rightarrow> 32 word" where
  "fips_K t = (if t < 20 then 0x5A827999 else if t < 40 then 0x6ED9EBA1 else if t < 60 then 0x8F1BBCDC else 0xCA62C1D6)"

definition fips_step :: "bytes \<Rightarrow> nat \<Rightarrow> sha1_vars \<Rightarrow> sha1_vars" where
  "fips_step M t v =
     (case v of (a, b, c, d, e) \<Rightarrow>
        (word_rotl 5 a + fips_f t b c d + e + fips_K t + fips_W M t, a, word_rotl 30 b, c, d))"

definition fips_sha1_block :: "bytes \<Rightarrow> 32 word list \<Rightarrow> 32 word list" where
  "fips_sha1_block M H =
     (case fold (fips_step M) [0..<80] (H ! 0, H ! 1, H ! 2, H ! 3, H ! 4) of
        (a, b, c, d, e) \<Rightarrow> [H ! 0 + a, H ! 1 + b, H ! 2 + c, H ! 3 + d, H ! 4 + e])"

text \<open>The state of the loop after \<open>t\<close> steps: the schedule holds the last 16 words in both halves.\<close>

definition sched_ok :: "bytes \<Rightarrow> nat \<Rightarrow> 32 word list \<Rightarrow> bool" where
  "sched_ok M t W \<longleftrightarrow> length W = 32 \<and>
     (\<forall>s. s < max 16 t \<longrightarrow> max 16 t \<le> s + 16 \<longrightarrow> W ! (s mod 16) = fips_W M s \<and> W ! (s mod 16 + 16) = fips_W M s)"

lemma sched_ok_nth:
  assumes "sched_ok M t W" "16 \<le> t" "k < 16" "0 < j" "j \<le> 16" "k = t mod 16"
  shows "W ! (k + 16 - j) = fips_W M (t - j)"
proof -
  have W: "W ! ((t - j) mod 16) = fips_W M (t - j)" "W ! ((t - j) mod 16 + 16) = fips_W M (t - j)"
    using assms by (auto simp: sched_ok_def)
  define q where "q = t div 16 - 1"
  have "1 \<le> t div 16" using assms(2) by linarith
  then have q: "t = 16 * q + 16 + k" using assms(6) div_mult_mod_eq [of t 16] unfolding q_def by linarith
  have "(t - j) mod 16 = (if j \<le> k then k - j else k + 16 - j)"
  proof (cases "j \<le> k")
    case True
    then have "t - j = (k - j) + 16 * (q + 1)" using q by simp
    then show ?thesis using True assms(3) by (simp only: mod_mult_self2 if_True) simp
  next
    case False
    then have "t - j = (k + 16 - j) + 16 * q" using q assms(5) by linarith
    then show ?thesis using False assms(4) by (simp only: mod_mult_self2 if_False) simp
  qed
  then show ?thesis using W by (auto split: if_splits)
qed

lemma sched_ok_update:
  assumes "sched_ok M t W" "16 \<le> t" "x = fips_W M t"
  shows "sched_ok M (Suc t) (W[t mod 16 + 16 := x, t mod 16 := x])"
proof -
  have len: "length W = 32" using assms(1) by (simp add: sched_ok_def)
  have "(W[t mod 16 + 16 := x, t mod 16 := x]) ! (s mod 16) = fips_W M s \<and>
      (W[t mod 16 + 16 := x, t mod 16 := x]) ! (s mod 16 + 16) = fips_W M s"
    if s: "s < Suc t" "Suc t \<le> s + 16" for s
  proof (cases "s = t")
    case True
    have "t mod 16 < 16" by simp
    then show ?thesis using True len assms(3) by (simp add: nth_list_update)
  next
    case False
    then have "s mod 16 \<noteq> t mod 16" using s mod_eq_dvd_iff_nat [of s t 16] by (auto dest!: dvd_imp_le)
    moreover have "s mod 16 < 16" "t mod 16 < 16" by simp_all
    moreover have "W ! (s mod 16) = fips_W M s" "W ! (s mod 16 + 16) = fips_W M s"
      using assms(1,2) s False by (auto simp: sched_ok_def)
    ultimately show ?thesis using len by (simp add: nth_list_update)
  qed
  then show ?thesis using assms(2) len by (simp add: sched_ok_def)
qed

lemma sched_ok_start: "sched_ok M t W \<Longrightarrow> t < 16 \<Longrightarrow> sched_ok M (Suc t) W"
  by (simp add: sched_ok_def max_def)

lemma fips_W_start: "sched_ok M t W \<Longrightarrow> t < 16 \<Longrightarrow> W ! (t mod 16) = fips_W M t"
  by (simp add: sched_ok_def max_def)

lemma fips_f_code:
  "t < 20 \<Longrightarrow> fips_f t b c d = ((c XOR d) AND b) XOR d"
  "40 \<le> t \<Longrightarrow> t < 60 \<Longrightarrow> fips_f t b c d = ((b OR c) AND d) OR (b AND c)"
  "20 \<le> t \<Longrightarrow> t < 40 \<or> 60 \<le> t \<Longrightarrow> fips_f t b c d = (c XOR d) XOR b"
  unfolding fips_f_def by (auto intro!: bit_word_eqI simp: bit_simps)

lemma sha1_step_fips:
  assumes "sched_ok M t W" "t < 80"
  shows "\<exists>W'. sha1_step (t div 20) (19 - t mod 20) (W, t mod 16, v) = (W', Suc t mod 16, fips_step M t v) \<and> sched_ok M (Suc t) W'"
proof -
  obtain a b c d e where v: "v = (a, b, c, d, e)" by (cases v)
  define i where "i = t div 20"
  define k where "k = t mod 16"
  define new where "new = rotl32 (W ! (k + 13) XOR W ! (k + 8) XOR W ! (k + 2) XOR W ! k) 1"
  define W' where "W' = (if t < 16 then W else W[k + 16 := new, k := new])"
  have k: "k < 16" by (simp add: k_def)
  have first: "i = 0 \<and> 3 < 19 - t mod 20 \<longleftrightarrow> t < 16"
    unfolding i_def by (cases "t < 20") (auto simp: div_eq_0_iff)
  have new: "new = fips_W M t" if "16 \<le> t"
    using sched_ok_nth [OF assms(1) that k _ _ k_def, of 3] sched_ok_nth [OF assms(1) that k _ _ k_def, of 8]
      sched_ok_nth [OF assms(1) that k _ _ k_def, of 14] sched_ok_nth [OF assms(1) that k _ _ k_def, of 16] that
    by (simp add: new_def fips_W.simps [of M t] rotl32_rot add.commute [of k])
  have W': "sched_ok M (Suc t) W'"
    using sched_ok_start [OF assms(1)] sched_ok_update [OF assms(1), of new] new by (auto simp: W'_def k_def)
  have Wt: "W' ! k = fips_W M t"
    using fips_W_start [OF assms(1)] new k assms(1) by (auto simp: W'_def sched_ok_def simp flip: k_def)
  have K: "rconsts ! i = fips_K t" "i < 4" using assms(2) unfolding i_def
    by (auto simp: rconsts_def fips_K_def nth_Cons' split: if_splits)
  have f: "(if i = 0 then ((c XOR d) AND b) XOR d else if i = 2 then ((b OR c) AND d) OR (b AND c) else (c XOR d) XOR b) = fips_f t b c d"
  proof -
    have "i = 0 \<longleftrightarrow> t < 20" "i = 2 \<longleftrightarrow> 40 \<le> t \<and> t < 60" unfolding i_def by linarith+
    then show ?thesis using fips_f_code [of t b c d] by auto
  qed
  have "sha1_step i (19 - t mod 20) (W, k, v) = (W', Suc t mod 16, fips_step M t v)"
    unfolding v sha1_step_def fips_step_def prod.case Let_def first f new_def [symmetric] W'_def [symmetric] Wt K(1)
    by (simp add: rotl32_rot k_def add_ac mod_Suc_eq)
  with W' show ?thesis unfolding i_def k_def by blast
qed

lemma fold_nested: "fold (\<lambda>i. fold (f i) (ys i)) xs s = fold (\<lambda>(i, j). f i j) (concat (map (\<lambda>i. map (Pair i) (ys i)) xs)) s"
  by (induction xs arbitrary: s) (simp_all add: fold_map comp_def)

lemma sha1_indices: "concat (map (\<lambda>i. map (Pair i) (rev [0..<20])) [0..<4]) = map (\<lambda>t. (t div 20, 19 - t mod 20)) [0..<80]"
  by code_simp

lemma sha1_loop_fips:
  assumes "sched_ok M 0 W" "n \<le> 80"
  shows "\<exists>W'. fold (\<lambda>t. sha1_step (t div 20) (19 - t mod 20)) [0..<n] (W, 0, v) = (W', n mod 16, fold (fips_step M) [0..<n] v) \<and> sched_ok M n W'"
  using assms(2)
proof (induction n)
  case 0
  then show ?case using assms(1) by simp
next
  case (Suc n)
  then obtain W' where "fold (\<lambda>t. sha1_step (t div 20) (19 - t mod 20)) [0..<n] (W, 0, v) = (W', n mod 16, fold (fips_step M) [0..<n] v)"
    "sched_ok M n W'" by auto
  with sha1_step_fips [of M n W' "fold (fips_step M) [0..<n] v"] Suc.prems show ?case by simp
qed

lemma sched_ok_load:
  assumes "length M = 64"
  shows "sched_ok M 0 (map bswap (words32 16 M) @ map bswap (words32 16 M))"
proof -
  have "map bswap (words32 16 M) ! s = fips_W M s" if "s < 16" for s
    using that assms by (simp add: words32_def fips_W.simps [of M s] bswap_word_of)
  then show ?thesis by (simp add: sched_ok_def nth_append) (simp add: words32_def)
qed

text \<open>
  The block function of SHA-1, which keeps a cyclic schedule of 16 words in two copies and
  simplified round functions, computes the function that FIPS 180-2 defines with a schedule of 80 words.
\<close>

lemma sha1_block_fips:
  assumes "length M = 64"
  shows "sha1_process_block64 M H = fips_sha1_block M H @ drop 5 H"
proof -
  let ?W = "map bswap (words32 16 M)" and ?v = "(H ! 0, H ! 1, H ! 2, H ! 3, H ! 4)"
  have "fold (\<lambda>i. fold (sha1_step i) (rev [0..<20])) [0..<4] (?W @ ?W, 0, ?v) =
    fold (\<lambda>t. sha1_step (t div 20) (19 - t mod 20)) [0..<80] (?W @ ?W, 0, ?v)"
    unfolding fold_nested sha1_indices by (simp only: fold_map comp_def prod.case)
  moreover obtain W' where "fold (\<lambda>t. sha1_step (t div 20) (19 - t mod 20)) [0..<80] (?W @ ?W, 0, ?v) =
    (W', 80 mod 16, fold (fips_step M) [0..<80] ?v)"
    using sha1_loop_fips [OF sched_ok_load [OF assms], of 80 ?v] by auto
  ultimately show ?thesis
    unfolding sha1_process_block64_def fips_sha1_block_def Let_def
    by (simp only: prod.case) (simp del: upt_rec_numeral split: prod.split)
qed

definition sha1_H0 :: "32 word list" where
  "sha1_H0 = [0x67452301, 0xefcdab89, 0x98badcfe, 0x10325476, 0xc3d2e1f0]"

end
