(* ===== verification/Hash.thy ===== *)
theory Hash
  imports Hash_Block
begin

text \<open>
  The rest of \<open>libbb/hash_md5_sha.c\<close>: contexts that take a message piece by piece.  A context holds
  the unfinished block, the number of bytes so far and the hash value; at the end the message is
  padded.  The locale \<open>block_stream\<close> states what the two kinds of contexts share, and shows once that
  the pieces do not matter.  \<open>small\<close> is the value of \<open>CONFIG_MD5_SMALL\<close>; the target is little endian.
\<close>

subsection \<open>Contexts\<close>

datatype block_fn = Md5_block | Sha1_block | Sha256_block

record md5_ctx_t =
  wbuffer :: bytes
  process_block :: block_fn
  total64 :: "64 word"
  hash :: "32 word list"

record sha512_ctx_t =
  total64_0 :: "64 word"
  total64_1 :: "64 word"
  hash512 :: "64 word list"
  wbuffer512 :: bytes

text \<open>\<open>memcpy\<close> of \<open>xs\<close> into a buffer at the position \<open>i\<close>.\<close>

definition copy_at :: "nat \<Rightarrow> 'a list \<Rightarrow> 'a list \<Rightarrow> 'a list" where
  "copy_at i xs b = take i b @ xs @ drop (i + length xs) b"

definition block_of :: "int \<Rightarrow> block_fn \<Rightarrow> bytes \<Rightarrow> 32 word list \<Rightarrow> 32 word list" where
  "block_of small p = (case p of Md5_block \<Rightarrow> md5_process_block64 small | Sha1_block \<Rightarrow> sha1_process_block64
     | Sha256_block \<Rightarrow> sha256_process_block64)"

text \<open>The call \<open>ctx->process_block(ctx)\<close>.\<close>

definition run_block :: "int \<Rightarrow> md5_ctx_t \<Rightarrow> md5_ctx_t" where
  "run_block small ctx = ctx\<lparr>hash := block_of small (process_block ctx) (wbuffer ctx) (hash ctx)\<rparr>"

function common64_loop :: "int \<Rightarrow> md5_ctx_t \<Rightarrow> nat \<Rightarrow> bytes \<Rightarrow> md5_ctx_t" where
  "common64_loop small ctx bufpos buffer =
     (let remaining = min (64 - bufpos) (length buffer);
          ctx = ctx\<lparr>wbuffer := copy_at bufpos (take remaining buffer) (wbuffer ctx)\<rparr>
      in if bufpos + remaining \<noteq> 64 then ctx
         else common64_loop small (run_block small ctx) 0 (drop remaining buffer))"
  by pat_completeness auto
termination
  by (relation "measures [\<lambda>(small, ctx, bufpos, buffer). length buffer, \<lambda>(small, ctx, bufpos, buffer). bufpos]") auto

declare common64_loop.simps [simp del]

definition common64_hash :: "int \<Rightarrow> md5_ctx_t \<Rightarrow> bytes \<Rightarrow> md5_ctx_t" where
  "common64_hash small ctx buffer =
     (let bufpos = unat (total64 ctx AND 63);
          ctx = ctx\<lparr>total64 := total64 ctx + of_nat (length buffer)\<rparr>
      in common64_loop small ctx bufpos buffer)"

function common64_end_loop :: "int \<Rightarrow> bool \<Rightarrow> md5_ctx_t \<Rightarrow> nat \<Rightarrow> md5_ctx_t" where
  "common64_end_loop small swap_needed ctx bufpos =
     (let remaining = 64 - bufpos;
          ctx = ctx\<lparr>wbuffer := copy_at bufpos (replicate remaining 0) (wbuffer ctx)\<rparr>;
          t = push_bit 3 (total64 ctx);
          t = (if swap_needed then bswap t else t);
          ctx = (if 8 \<le> remaining then ctx\<lparr>wbuffer := copy_at (64 - 8) (bytes_of t) (wbuffer ctx)\<rparr> else ctx);
          ctx = run_block small ctx
      in if 8 \<le> remaining then ctx else common64_end_loop small swap_needed ctx 0)"
  by pat_completeness auto
termination
  by (relation "measure (\<lambda>(small, swap_needed, ctx, bufpos). bufpos)") auto

declare common64_end_loop.simps [simp del]

definition common64_end :: "int \<Rightarrow> bool \<Rightarrow> md5_ctx_t \<Rightarrow> md5_ctx_t" where
  "common64_end small swap_needed ctx =
     (let bufpos = unat (total64 ctx AND 63);
          ctx = ctx\<lparr>wbuffer := (wbuffer ctx)[bufpos := 0x80]\<rparr>
      in common64_end_loop small swap_needed ctx (bufpos + 1))"

subsection \<open>The operations\<close>

definition md5_begin :: "md5_ctx_t \<Rightarrow> md5_ctx_t" where
  "md5_begin ctx = ctx\<lparr>hash := [0x67452301, 0xefcdab89, 0x98badcfe, 0x10325476] @ drop 4 (hash ctx),
     total64 := 0, process_block := Md5_block\<rparr>"

definition md5_hash :: "int \<Rightarrow> md5_ctx_t \<Rightarrow> bytes \<Rightarrow> md5_ctx_t" where
  "md5_hash small ctx buffer = common64_hash small ctx buffer"

definition md5_end :: "int \<Rightarrow> md5_ctx_t \<Rightarrow> bytes" where
  "md5_end small ctx = concat (map bytes_of (take 4 (hash (common64_end small False ctx))))"

definition sha1_begin :: "md5_ctx_t \<Rightarrow> md5_ctx_t" where
  "sha1_begin ctx = ctx\<lparr>hash := [0x67452301, 0xefcdab89, 0x98badcfe, 0x10325476, 0xc3d2e1f0] @ drop 5 (hash ctx),
     total64 := 0, process_block := Sha1_block\<rparr>"

definition init256 :: "32 word list" where
  "init256 = [0, 0, 0x6a09e667, 0xbb67ae85, 0x3c6ef372, 0xa54ff53a, 0x510e527f, 0x9b05688c, 0x1f83d9ab, 0x5be0cd19]"

definition init512_lo :: "32 word list" where
  "init512_lo = [0, 0, 0xf3bcc908, 0x84caa73b, 0xfe94f82b, 0x5f1d36f1, 0xade682d1, 0x2b3e6c1f, 0xfb41bd6b, 0x137e2179]"

text \<open>The first two words of \<open>init256\<close> go into the counter, which stands before the hash value.\<close>

definition sha256_begin :: "md5_ctx_t \<Rightarrow> md5_ctx_t" where
  "sha256_begin ctx = ctx\<lparr>total64 := ucast (init256 ! 0) OR push_bit 32 (ucast (init256 ! 1)), hash := drop 2 init256,
     process_block := Sha256_block\<rparr>"

definition sha1_end :: "int \<Rightarrow> md5_ctx_t \<Rightarrow> bytes" where
  "sha1_end small ctx =
     (let ctx = common64_end small True ctx;
          hash_size = (if process_block ctx = Sha1_block then 5 else 8)
      in concat (map bytes_of (take hash_size (map bswap (take hash_size (hash ctx)) @ drop hash_size (hash ctx)))))"

definition sha512_begin :: "sha512_ctx_t \<Rightarrow> sha512_ctx_t" where
  "sha512_begin ctx =
     (let tp = map (\<lambda>i. push_bit 32 (ucast (init256 ! i)) + ucast (init512_lo ! i)) [0..<2 + 8]
      in ctx\<lparr>total64_0 := tp ! 0, total64_1 := tp ! 1, hash512 := drop 2 tp\<rparr>)"

definition run_block128 :: "sha512_ctx_t \<Rightarrow> sha512_ctx_t" where
  "run_block128 ctx = ctx\<lparr>hash512 := sha512_process_block128 (wbuffer512 ctx) (hash512 ctx)\<rparr>"

function sha512_loop :: "sha512_ctx_t \<Rightarrow> nat \<Rightarrow> bytes \<Rightarrow> sha512_ctx_t" where
  "sha512_loop ctx bufpos buffer =
     (let remaining = min (128 - bufpos) (length buffer);
          ctx = ctx\<lparr>wbuffer512 := copy_at bufpos (take remaining buffer) (wbuffer512 ctx)\<rparr>
      in if bufpos + remaining \<noteq> 128 then ctx
         else sha512_loop (run_block128 ctx) 0 (drop remaining buffer))"
  by pat_completeness auto
termination
  by (relation "measures [\<lambda>(ctx, bufpos, buffer). length buffer, \<lambda>(ctx, bufpos, buffer). bufpos]") auto

declare sha512_loop.simps [simp del]

definition sha512_hash :: "sha512_ctx_t \<Rightarrow> bytes \<Rightarrow> sha512_ctx_t" where
  "sha512_hash ctx buffer =
     (let bufpos = unat (total64_0 ctx AND 127);
          len = of_nat (length buffer);
          ctx = ctx\<lparr>total64_0 := total64_0 ctx + len\<rparr>;
          ctx = (if total64_0 ctx < len then ctx\<lparr>total64_1 := total64_1 ctx + 1\<rparr> else ctx)
      in sha512_loop ctx bufpos buffer)"

function sha512_end_loop :: "sha512_ctx_t \<Rightarrow> nat \<Rightarrow> sha512_ctx_t" where
  "sha512_end_loop ctx bufpos =
     (let remaining = 128 - bufpos;
          ctx = ctx\<lparr>wbuffer512 := copy_at bufpos (replicate remaining 0) (wbuffer512 ctx)\<rparr>;
          ctx = (if 16 \<le> remaining then
                   let t = bswap (push_bit 3 (total64_0 ctx));
                       ctx = ctx\<lparr>wbuffer512 := copy_at (128 - 8) (bytes_of t) (wbuffer512 ctx)\<rparr>;
                       t = bswap (push_bit 3 (total64_1 ctx) OR drop_bit 61 (total64_0 ctx))
                   in ctx\<lparr>wbuffer512 := copy_at (128 - 16) (bytes_of t) (wbuffer512 ctx)\<rparr>
                 else ctx);
          ctx = run_block128 ctx
      in if 16 \<le> remaining then ctx else sha512_end_loop ctx 0)"
  by pat_completeness auto
termination
  by (relation "measure (\<lambda>(ctx, bufpos). bufpos)") auto

declare sha512_end_loop.simps [simp del]

definition sha512_end :: "sha512_ctx_t \<Rightarrow> bytes" where
  "sha512_end ctx =
     (let bufpos = unat (total64_0 ctx AND 127);
          ctx = ctx\<lparr>wbuffer512 := (wbuffer512 ctx)[bufpos := 0x80]\<rparr>;
          ctx = sha512_end_loop ctx (bufpos + 1)
      in concat (map bytes_of (map bswap (hash512 ctx))))"

subsection \<open>Whole messages\<close>

text \<open>The hash value after the complete blocks of a message, and the padding of FIPS 180-2 and RFC 1321.\<close>

function blocks :: "('a list \<Rightarrow> 'h \<Rightarrow> 'h) \<Rightarrow> nat \<Rightarrow> 'h \<Rightarrow> 'a list \<Rightarrow> 'h" where
  "blocks F n h m = (if 0 < n \<and> n \<le> length m then blocks F n (F (take n m) h) (drop n m) else h)"
  by pat_completeness auto
termination
  by (relation "measure (\<lambda>(F, n, h, m). length m)") auto

declare blocks.simps [simp del]

text \<open>The part of a message behind its last complete block.\<close>

definition tail_of :: "nat \<Rightarrow> 'a list \<Rightarrow> 'a list" where
  "tail_of n m = drop (n * (length m div n)) m"

definition zeros :: "nat \<Rightarrow> nat \<Rightarrow> nat \<Rightarrow> nat" where
  "zeros n w l = (2 * n - w - 1 - l mod n) mod n"

definition padded :: "nat \<Rightarrow> bytes \<Rightarrow> bytes \<Rightarrow> bytes" where
  "padded n count m = m @ [0x80] @ replicate (zeros n (length count) (length m)) 0 @ count"

lemma length_tail_of [simp]: "length (tail_of n m) = length m mod n"
  by (simp add: tail_of_def minus_mult_div_eq_mod)

lemma blocks_short: "length m < n \<Longrightarrow> blocks F n h m = h"
  by (simp add: blocks.simps)

lemma blocks_Suc: "0 < n \<Longrightarrow> length b = n \<Longrightarrow> blocks F n h (b @ m) = blocks F n (F b h) m"
  by (simp add: blocks.simps [of F n h "b @ m"])

lemma tail_of_Suc: "0 < n \<Longrightarrow> length b = n \<Longrightarrow> tail_of n (b @ m) = tail_of n m"
  by (simp add: tail_of_def div_add_self1)

lemma tail_of_short: "length m < n \<Longrightarrow> tail_of n m = m"
  by (simp add: tail_of_def)

lemma blocks_append:
  assumes "0 < n"
  shows "blocks F n h (m @ d) = blocks F n (blocks F n h m) (tail_of n m @ d) \<and> tail_of n (m @ d) = tail_of n (tail_of n m @ d)"
proof (induction "length m" arbitrary: m h rule: less_induct)
  case less
  show ?case
  proof (cases "length m < n")
    case True
    then show ?thesis by (simp add: blocks_short tail_of_short)
  next
    case False
    then have m: "m = take n m @ drop n m" "length (take n m) = n" "length (drop n m) < length m" using assms by auto
    have e: "blocks F n h m = blocks F n (F (take n m) h) (drop n m)" "tail_of n m = tail_of n (drop n m)"
      "blocks F n h (m @ d) = blocks F n (F (take n m) h) (drop n m @ d)" "tail_of n (m @ d) = tail_of n (drop n m @ d)"
      using blocks_Suc [OF assms m(2), of F h] tail_of_Suc [OF assms m(2)] m(1)
      by (metis append.assoc)+
    show ?thesis unfolding e by (rule less.hyps [OF m(3)])
  qed
qed

lemma zeros_cases:
  assumes "w < n" "p = l mod n + 1" "0 < w"
  shows "zeros n w l = (if w \<le> n - p then n - p - w else n - p + (n - w))"
proof -
  have p: "0 < p" "p \<le> n" using assms(1,2) by (auto simp: Suc_le_eq)
  show ?thesis
  proof (cases "w \<le> n - p")
    case True
    then have "2 * n - w - 1 - l mod n = (n - p - w) + n" using assms p by simp
    moreover have "((n - p - w) + n) mod n = n - p - w" using p assms(3) by (simp only: mod_add_self2) (simp add: mod_less)
    ultimately show ?thesis using True unfolding zeros_def by simp
  next
    case False
    then have "2 * n - w - 1 - l mod n < n" "2 * n - w - 1 - l mod n = n - p + (n - w)" using assms p by auto
    then show ?thesis using False by (simp add: zeros_def)
  qed
qed

lemma length_copy_at [simp]: "i + length xs \<le> length b \<Longrightarrow> length (copy_at i xs b) = length b"
  by (simp add: copy_at_def)

lemma take_copy_at [simp]: "i \<le> length b \<Longrightarrow> take (i + length xs) (copy_at i xs b) = take i b @ xs"
  by (simp add: copy_at_def)

lemma copy_at_all: "i + length xs = length b \<Longrightarrow> copy_at i xs b = take i b @ xs"
  by (simp add: copy_at_def)

subsection \<open>The contract of a context\<close>

text \<open>
  A context has a buffer of \<open>n\<close> bytes, a hash value, and other fields \<open>rest\<close>; \<open>run\<close> applies the block
  function \<open>F\<close> to the buffer.  \<open>loop\<close> is the loop that takes data, \<open>fin\<close> the one that pads, with the
  bytes \<open>count\<close> of the length in the last block.
\<close>

locale block_stream =
  fixes n :: nat and w :: nat
    and buf :: "'c \<Rightarrow> bytes" and set_buf :: "bytes \<Rightarrow> 'c \<Rightarrow> 'c"
    and val :: "'c \<Rightarrow> 'h" and rest :: "'c \<Rightarrow> 'r"
    and run :: "'c \<Rightarrow> 'c" and F :: "bytes \<Rightarrow> 'h \<Rightarrow> 'h"
    and loop :: "'c \<Rightarrow> nat \<Rightarrow> bytes \<Rightarrow> 'c"
    and fin :: "'c \<Rightarrow> nat \<Rightarrow> 'c" and count :: "'r \<Rightarrow> bytes"
  assumes size: "0 < w" "w < n"
    and buf_set [simp]: "buf (set_buf b c) = b" "val (set_buf b c) = val c" "rest (set_buf b c) = rest c"
    and run [simp]: "buf (run c) = buf c" "val (run c) = F (buf c) (val c)" "rest (run c) = rest c"
    and loop: "loop c pos d =
      (let r = min (n - pos) (length d); c = set_buf (copy_at pos (take r d) (buf c)) c
       in if pos + r \<noteq> n then c else loop (run c) 0 (drop r d))"
    and count [simp]: "length (count r) = w"
    and fin: "length (buf c) = n \<Longrightarrow> pos \<le> n \<Longrightarrow> fin c pos =
      (if w \<le> n - pos then run (set_buf (take pos (buf c) @ replicate (n - pos - w) 0 @ count (rest c)) c)
       else fin (run (set_buf (take pos (buf c) @ replicate (n - pos) 0) c)) 0)"
begin

lemma loop_takes:
  assumes "length (buf c) = n" "pos < n"
  shows "length (buf (loop c pos d)) = n" "rest (loop c pos d) = rest c"
    "val (loop c pos d) = blocks F n (val c) (take pos (buf c) @ d)"
    "take ((pos + length d) mod n) (buf (loop c pos d)) = tail_of n (take pos (buf c) @ d)"
proof -
  have "length (buf (loop c pos d)) = n \<and> rest (loop c pos d) = rest c \<and>
    val (loop c pos d) = blocks F n (val c) (take pos (buf c) @ d) \<and>
    take ((pos + length d) mod n) (buf (loop c pos d)) = tail_of n (take pos (buf c) @ d)"
    using assms
  proof (induction "length d" arbitrary: c pos d rule: less_induct)
    case less
    show ?case
    proof (cases "pos + length d < n")
      case True
      then have "loop c pos d = set_buf (copy_at pos d (buf c)) c" by (subst loop) (simp add: Let_def)
      then show ?thesis using True less.prems by (simp add: blocks_short tail_of_short)
    next
      case False
      define r where "r = n - pos"
      define b where "b = take pos (buf c) @ take r d"
      have r: "min (n - pos) (length d) = r" "0 < r" "r \<le> length d" "pos + r = n" using False less.prems by (auto simp: r_def)
      have b: "length b = n" "copy_at pos (take r d) (buf c) = b" "take pos (buf c) @ d = b @ drop r d"
        using r less.prems by (simp_all add: b_def copy_at_def)
      have e: "loop c pos d = loop (run (set_buf b c)) 0 (drop r d)"
        by (subst loop) (simp add: Let_def r b(2))
      have "pos + length d = n + length (drop r d)" using r by simp
      then have m: "(pos + length d) mod n = length (drop r d) mod n" by (metis mod_add_self1)
      have "length (drop r d) < length d" "length (buf (run (set_buf b c))) = n" "0 < n" using r b size by auto
      from less.hyps [OF this] show ?thesis
        unfolding e b(3) m using b(1) size by (simp add: blocks_Suc tail_of_Suc)
    qed
  qed
  then show "length (buf (loop c pos d)) = n" "rest (loop c pos d) = rest c"
    "val (loop c pos d) = blocks F n (val c) (take pos (buf c) @ d)"
    "take ((pos + length d) mod n) (buf (loop c pos d)) = tail_of n (take pos (buf c) @ d)" by blast+
qed

lemma fin_pads:
  assumes "length (buf c) = n" "pos \<le> n"
  shows "val (fin c pos) = blocks F n (val c)
      (take pos (buf c) @ replicate (if w \<le> n - pos then n - pos - w else n - pos + (n - w)) 0 @ count (rest c)) \<and> rest (fin c pos) = rest c"
proof -
  have last: "val (fin c pos) = blocks F n (val c) (take pos (buf c) @ replicate (n - pos - w) 0 @ count (rest c)) \<and> rest (fin c pos) = rest c"
    if "w \<le> n - pos" "length (buf c) = n" "pos \<le> n" for c pos
    using that blocks_Suc [of n "take pos (buf c) @ replicate (n - pos - w) 0 @ count (rest c)" F "val c" "[]"] size
    by (simp add: fin [of c pos] blocks_short)
  show ?thesis
  proof (cases "w \<le> n - pos")
    case True
    with last [OF True assms] show ?thesis by simp
  next
    case False
    let ?b = "take pos (buf c) @ replicate (n - pos) 0"
    let ?c = "run (set_buf ?b c)"
    have b: "length ?b = n" using assms by simp
    have "fin c pos = fin ?c 0" using False assms by (simp add: fin [of c pos])
    moreover have "take pos (buf c) @ replicate (n - pos + (n - w)) 0 @ count (rest c) = ?b @ replicate (n - w) 0 @ count (rest c)"
      by (simp only: replicate_add append_assoc)
    ultimately show ?thesis
      using last [of 0 ?c] b size False blocks_Suc [of n ?b F "val c" "replicate (n - w) 0 @ count (rest c)"] by simp
  qed
qed

text \<open>The context of a message \<open>m\<close>, started with the hash value \<open>h\<close>.\<close>

definition holds :: "'h \<Rightarrow> 'c \<Rightarrow> bytes \<Rightarrow> bool" where
  "holds h c m \<longleftrightarrow> length (buf c) = n \<and> val c = blocks F n h m \<and> take (length m mod n) (buf c) = tail_of n m"

lemma holds_loop: "holds h c m \<Longrightarrow> holds h (loop c (length m mod n) d) (m @ d)"
  using size blocks_append [of n F h m d] loop_takes [of c "length m mod n" d]
  by (simp add: holds_def mod_add_left_eq)

lemma holds_fin:
  assumes "holds h c m" "pos = length m mod n"
  shows "val (fin (set_buf ((buf c)[pos := 0x80]) c) (pos + 1)) = blocks F n h (padded n (count (rest c)) m)"
    "rest (fin (set_buf ((buf c)[pos := 0x80]) c) (pos + 1)) = rest c"
proof -
  have pos: "pos < n" using size assms(2) by simp
  have t: "take (pos + 1) ((buf c)[pos := 0x80]) = tail_of n m @ [0x80]"
    using assms pos by (simp add: holds_def take_Suc_conv_app_nth)
  have p: "length ((buf c)[pos := 0x80]) = n" "pos + 1 \<le> n" using assms pos by (simp_all add: holds_def)
  note f = fin_pads [of "set_buf ((buf c)[pos := 0x80]) c" "pos + 1", simplified, OF p [simplified]]
  show "rest (fin (set_buf ((buf c)[pos := 0x80]) c) (pos + 1)) = rest c" using f by simp
  show "val (fin (set_buf ((buf c)[pos := 0x80]) c) (pos + 1)) = blocks F n h (padded n (count (rest c)) m)"
    using f t assms blocks_append [of n F h m] zeros_cases [of w n "pos + 1" "length m"] size
    by (simp add: holds_def padded_def)
qed

end

subsection \<open>Both kinds of contexts keep the contract\<close>

lemma pad_last:
  "length b = n \<Longrightarrow> pos \<le> k \<Longrightarrow> k \<le> n \<Longrightarrow> length t = n - k \<Longrightarrow>
   copy_at k t (take pos b @ replicate (n - pos) 0) = take pos b @ replicate (k - pos) 0 @ t"
  by (simp add: copy_at_def)

lemma pad_block: "length b = n \<Longrightarrow> pos \<le> n \<Longrightarrow> copy_at pos (replicate (n - pos) 0) b = take pos b @ replicate (n - pos) 0"
  by (simp add: copy_at_def)

lemma copy_two:
  "length b = 128 \<Longrightarrow> length t = 8 \<Longrightarrow> length u = 8 \<Longrightarrow> copy_at 112 u (copy_at 120 t b) = copy_at 112 (u @ t) b"
  by (simp add: copy_at_def)

lemma length_bytes_of [simp]: "length (bytes_of (x :: 64 word)) = 8" "length (bytes_of (y :: 32 word)) = 4"
  by (simp_all add: bytes_of_def)

definition count64 :: "bool \<Rightarrow> 64 word \<Rightarrow> bytes" where
  "count64 swap_needed t = bytes_of (if swap_needed then bswap (push_bit 3 t) else push_bit 3 t)"

lemma common64_end_loop_pads:
  assumes "length (wbuffer c) = 64" "pos \<le> 64"
  shows "common64_end_loop small swap c pos =
    (if 8 \<le> 64 - pos then run_block small (c\<lparr>wbuffer := take pos (wbuffer c) @ replicate (64 - pos - 8) 0 @ count64 swap (total64 c)\<rparr>)
     else common64_end_loop small swap (run_block small (c\<lparr>wbuffer := take pos (wbuffer c) @ replicate (64 - pos) 0\<rparr>)) 0)"
proof -
  have l: "length (count64 swap (total64 c)) = 8" by (simp add: count64_def)
  have "8 \<le> 64 - pos \<longleftrightarrow> pos \<le> 56" using assms(2) by auto
  then show ?thesis
    using pad_last [OF assms(1), of pos 56 "count64 swap (total64 c)"] pad_block [OF assms] l
    by (subst common64_end_loop.simps) (auto simp: Let_def count64_def)
qed

interpretation c64: block_stream 64 8 wbuffer "\<lambda>b c. c\<lparr>wbuffer := b\<rparr>" "\<lambda>c. (process_block c, hash c)" total64
    "run_block small" "\<lambda>b (p, h). (p, block_of small p b h)" "common64_loop small" "common64_end_loop small swap" "count64 swap"
  for small swap
proof unfold_locales
  show "common64_loop small c pos d =
      (let r = min (64 - pos) (length d); c = c\<lparr>wbuffer := copy_at pos (take r d) (wbuffer c)\<rparr>
       in if pos + r \<noteq> 64 then c else common64_loop small (run_block small c) 0 (drop r d))" for c pos d
    by (rule common64_loop.simps)
  show "length (wbuffer c) = 64 \<Longrightarrow> pos \<le> 64 \<Longrightarrow> common64_end_loop small swap c pos =
    (if 8 \<le> 64 - pos then run_block small (c\<lparr>wbuffer := take pos (wbuffer c) @ replicate (64 - pos - 8) 0 @ count64 swap (total64 c)\<rparr>)
     else common64_end_loop small swap (run_block small (c\<lparr>wbuffer := take pos (wbuffer c) @ replicate (64 - pos) 0\<rparr>)) 0)" for c pos
    by (rule common64_end_loop_pads)
qed (simp_all add: run_block_def count64_def)

text \<open>The count of SHA-512: the two words of 64 bits, the higher one first.\<close>

definition count128 :: "64 word \<times> 64 word \<Rightarrow> bytes" where
  "count128 r = (case r of (lo, hi) \<Rightarrow> bytes_of (bswap (push_bit 3 hi OR drop_bit 61 lo)) @ bytes_of (bswap (push_bit 3 lo)))"

lemma sha512_end_loop_pads:
  assumes "length (wbuffer512 c) = 128" "pos \<le> 128"
  shows "sha512_end_loop c pos =
    (if 16 \<le> 128 - pos then run_block128 (c\<lparr>wbuffer512 := take pos (wbuffer512 c) @ replicate (128 - pos - 16) 0 @ count128 (total64_0 c, total64_1 c)\<rparr>)
     else sha512_end_loop (run_block128 (c\<lparr>wbuffer512 := take pos (wbuffer512 c) @ replicate (128 - pos) 0\<rparr>)) 0)"
proof -
  have l: "length (count128 (total64_0 c, total64_1 c)) = 16" by (simp add: count128_def)
  have "16 \<le> 128 - pos \<longleftrightarrow> pos \<le> 112" using assms(2) by auto
  then show ?thesis
    using pad_last [OF assms(1), of pos 112 "count128 (total64_0 c, total64_1 c)"] pad_block [OF assms] l
    by (subst sha512_end_loop.simps) (auto simp: Let_def count128_def copy_two assms)
qed

interpretation c128: block_stream 128 16 wbuffer512 "\<lambda>b c. c\<lparr>wbuffer512 := b\<rparr>" hash512 "\<lambda>c. (total64_0 c, total64_1 c)"
    run_block128 sha512_process_block128 sha512_loop sha512_end_loop count128
proof unfold_locales
  show "sha512_loop c pos d =
      (let r = min (128 - pos) (length d); c = c\<lparr>wbuffer512 := copy_at pos (take r d) (wbuffer512 c)\<rparr>
       in if pos + r \<noteq> 128 then c else sha512_loop (run_block128 c) 0 (drop r d))" for c pos d
    by (rule sha512_loop.simps)
  show "length (wbuffer512 c) = 128 \<Longrightarrow> pos \<le> 128 \<Longrightarrow> sha512_end_loop c pos =
    (if 16 \<le> 128 - pos then run_block128 (c\<lparr>wbuffer512 := take pos (wbuffer512 c) @ replicate (128 - pos - 16) 0 @ count128 (total64_0 c, total64_1 c)\<rparr>)
     else sha512_end_loop (run_block128 (c\<lparr>wbuffer512 := take pos (wbuffer512 c) @ replicate (128 - pos) 0\<rparr>)) 0)" for c pos
    by (rule sha512_end_loop_pads)
qed (simp_all add: run_block128_def count128_def split: prod.split)

subsection \<open>Digests\<close>

lemma position64: "unat ((of_nat l :: 64 word) AND 63) = l mod 64"
proof -
  have "(of_nat l :: 64 word) AND 63 = take_bit 6 (of_nat l)" by (simp add: take_bit_eq_mask mask_eq_exp_minus_1)
  then show ?thesis by (simp only: unsigned_take_bit_eq unsigned_of_nat take_bit_take_bit) (simp add: take_bit_eq_mod mod_mod_cancel)
qed

lemma position128: "unat ((of_nat l :: 64 word) AND 127) = l mod 128"
proof -
  have "(of_nat l :: 64 word) AND 127 = take_bit 7 (of_nat l)" by (simp add: take_bit_eq_mask mask_eq_exp_minus_1)
  then show ?thesis by (simp only: unsigned_take_bit_eq unsigned_of_nat take_bit_take_bit) (simp add: take_bit_eq_mod mod_mod_cancel)
qed

text \<open>The context of a message, and what the operations do to it.\<close>

definition ctx_of :: "int \<Rightarrow> block_fn \<times> 32 word list \<Rightarrow> bytes \<Rightarrow> md5_ctx_t \<Rightarrow> bool" where
  "ctx_of small h m c \<longleftrightarrow> c64.holds small h c m \<and> total64 c = of_nat (length m)"

lemma ctx_of_hash: "ctx_of small h m c \<Longrightarrow> ctx_of small h (m @ d) (md5_hash small c d)"
proof -
  assume c: "ctx_of small h m c"
  let ?c = "c\<lparr>total64 := total64 c + of_nat (length d)\<rparr>"
  have e: "md5_hash small c d = common64_loop small ?c (length m mod 64) d"
    using c by (simp add: md5_hash_def common64_hash_def ctx_of_def position64 Let_def)
  have h: "c64.holds small h ?c m" using c by (simp add: ctx_of_def c64.holds_def)
  have "total64 (common64_loop small ?c (length m mod 64) d) = total64 ?c"
    using h by (intro c64.loop_takes(2)) (simp_all add: c64.holds_def)
  then show ?thesis using c64.holds_loop [OF h, of d] c by (simp add: e ctx_of_def)
qed

lemma ctx_of_chunks: "ctx_of small h m c \<Longrightarrow> ctx_of small h (m @ concat ds) (foldl (md5_hash small) c ds)"
proof (induction ds arbitrary: m c)
  case (Cons d ds)
  from Cons.IH [OF ctx_of_hash [OF Cons.prems, of d]] show ?case by simp
qed simp

lemma blocks_fst: "blocks (\<lambda>b (p, h). (p, B p b h)) n (p, h) m = (p, blocks (B p) n h m)"
proof (induction "length m" arbitrary: h m rule: less_induct)
  case less
  then show ?case
    by (cases "0 < n \<and> n \<le> length m") (auto simp: blocks.simps [of _ n _ m])
qed

lemma ctx_of_end:
  assumes "ctx_of small (p, h) m c"
  shows "hash (common64_end small swap c) = blocks (block_of small p) 64 h (padded 64 (count64 swap (of_nat (length m))) m)"
    "process_block (common64_end small swap c) = p"
proof -
  have e: "common64_end small swap c = common64_end_loop small swap (c\<lparr>wbuffer := (wbuffer c)[length m mod 64 := 0x80]\<rparr>) (length m mod 64 + 1)"
    using assms by (simp add: common64_end_def ctx_of_def position64 Let_def)
  have "c64.holds small (p, h) c m" "total64 c = of_nat (length m)" using assms by (simp_all add: ctx_of_def)
  from c64.holds_fin(1) [OF this(1) refl, of swap] this(2)
  have "(process_block (common64_end small swap c), hash (common64_end small swap c)) =
    (p, blocks (block_of small p) 64 h (padded 64 (count64 swap (of_nat (length m))) m))"
    by (simp add: e blocks_fst)
  then show "hash (common64_end small swap c) = blocks (block_of small p) 64 h (padded 64 (count64 swap (of_nat (length m))) m)"
    "process_block (common64_end small swap c) = p" by simp_all
qed

lemma ctx_of_begin:
  "length (wbuffer c) = 64 \<Longrightarrow> total64 c = 0 \<Longrightarrow> p = process_block c \<Longrightarrow> h = hash c \<Longrightarrow> ctx_of small (p, h) [] c"
  by (simp add: ctx_of_def c64.holds_def blocks_short tail_of_def)

lemma blocks_frame:
  assumes "\<And>b h. length b = n \<Longrightarrow> length h = k \<Longrightarrow> G b (h @ X) = F b h @ X \<and> length (F b h) = k" "length h = k"
  shows "blocks G n (h @ X) m = blocks F n h m @ X \<and> length (blocks F n h m) = k"
  using assms(2)
proof (induction "length m" arbitrary: h m rule: less_induct)
  case less
  show ?case
  proof (cases "0 < n \<and> n \<le> length m")
    case True
    then have "length (drop n m) < length m" "length (F (take n m) h) = k" "G (take n m) (h @ X) = F (take n m) h @ X"
      using assms(1) [of "take n m" h] less.prems by auto
    with less.hyps [OF this(1,2)] True show ?thesis by (simp add: blocks.simps [of _ n _ m])
  next
    case False
    then show ?thesis using less.prems by (auto simp: blocks.simps [of _ n _ m])
  qed
qed

lemma bytes_of_bswap: "bytes_of (bswap (x :: 64 word)) = rev (bytes_of x)" "bytes_of (bswap (y :: 32 word)) = rev (bytes_of y)"
  by (simp_all add: bswap_def bytes_of_word_of)

lemma count64_bits:
  "count64 False (of_nat l) = bytes_of (of_nat (8 * l) :: 64 word)"
  "count64 True (of_nat l) = rev (bytes_of (of_nat (8 * l) :: 64 word))"
  by (simp_all add: count64_def bytes_of_bswap push_bit_eq_mult mult.commute)

text \<open>The digests of whole messages: padding, the block function for each block, and the order of the bytes.\<close>

definition fips_sha1 :: "bytes \<Rightarrow> bytes" where
  "fips_sha1 m =
     concat (map (\<lambda>x. rev (bytes_of x)) (blocks fips_sha1_block 64 sha1_H0 (padded 64 (rev (bytes_of (of_nat (8 * length m) :: 64 word))) m)))"

definition md5_digest :: "bytes \<Rightarrow> bytes" where
  "md5_digest m =
     concat (map bytes_of (blocks (md5_process_block64 3) 64 [0x67452301, 0xefcdab89, 0x98badcfe, 0x10325476]
       (padded 64 (bytes_of (of_nat (8 * length m) :: 64 word)) m)))"

definition sha256_digest :: "bytes \<Rightarrow> bytes" where
  "sha256_digest m =
     concat (map (\<lambda>x. rev (bytes_of x)) (blocks sha256_process_block64 64 (drop 2 init256)
       (padded 64 (rev (bytes_of (of_nat (8 * length m) :: 64 word))) m)))"

lemma length_fips_sha1_block [simp]: "length (fips_sha1_block b h) = 5"
  by (simp add: fips_sha1_block_def split: prod.split)

lemma sha1_frame: "length b = 64 \<Longrightarrow> length h = 5 \<Longrightarrow> sha1_process_block64 b (h @ X) = fips_sha1_block b h @ X \<and> length (fips_sha1_block b h) = 5"
  by (rule conjI) (simp_all add: sha1_block_fips, simp add: fips_sha1_block_def nth_append)

lemma md5_frame:
  assumes "length h = 4"
  shows "md5_process_block64 small b (h @ X) = md5_process_block64 3 b h @ X \<and> length (md5_process_block64 3 b h) = 4"
proof -
  have "md5_process_block64 small b (h @ X) = md5_process_block64 3 b (h @ X)" by (rule md5_variants)
  then show ?thesis using assms by (auto simp: md5_process_block64_def Let_def nth_append split: prod.split)
qed

lemma sha1_pieces:
  assumes "length (wbuffer c) = 64"
  shows "sha1_end small (foldl (md5_hash small) (sha1_begin c) ds) = fips_sha1 (concat ds)"
proof -
  let ?X = "drop 5 (hash c)" and ?c = "foldl (md5_hash small) (sha1_begin c) ds"
  have "ctx_of small (Sha1_block, sha1_H0 @ ?X) [] (sha1_begin c)"
    by (rule ctx_of_begin) (simp_all add: assms sha1_begin_def sha1_H0_def)
  from ctx_of_end [OF ctx_of_chunks [OF this, of ds], of True]
  have e: "hash (common64_end small True ?c) = blocks fips_sha1_block 64 sha1_H0 (padded 64 (count64 True (of_nat (length (concat ds)))) (concat ds)) @ ?X"
    "process_block (common64_end small True ?c) = Sha1_block"
    "length (blocks fips_sha1_block 64 sha1_H0 (padded 64 (count64 True (of_nat (length (concat ds)))) (concat ds))) = 5"
    using blocks_frame [where G = sha1_process_block64 and F = fips_sha1_block and k = 5 and n = 64 and h = sha1_H0 and X = ?X] sha1_frame
    by (simp_all add: block_of_def sha1_H0_def)
  show ?thesis unfolding sha1_end_def Let_def e(1,2) fips_sha1_def count64_bits(2) [symmetric]
    using e(3) by (simp add: comp_def bytes_of_bswap)
qed

text \<open>
  C7.  SHA-1 of a message that is passed in any pieces, empty ones included, is the digest that FIPS
  180-2 defines for the whole message: the context keeps the unfinished block, counts the bytes, and
  pads in one or two blocks.
\<close>

theorem sha1_digest_correct:
  assumes "length (wbuffer c) = 64"
  shows "sha1_end small (foldl (md5_hash small) (sha1_begin c) ds) = fips_sha1 (concat ds)"
  by (rule sha1_pieces [OF assms])

definition blank_ctx :: md5_ctx_t where
  "blank_ctx = \<lparr>wbuffer = replicate 64 0, process_block = Md5_block, total64 = 0, hash = replicate 8 0\<rparr>"

theorem sha1_digest_correct_witness:
  "sha1_end 1 (foldl (md5_hash 1) (sha1_begin blank_ctx) [[0x61], [], [0x62, 0x63]]) = fips_sha1 [0x61, 0x62, 0x63]"
  using sha1_digest_correct [of blank_ctx 1 "[[0x61], [], [0x62, 0x63]]"] by (simp add: blank_ctx_def)

lemma md5_pieces:
  assumes "length (wbuffer c) = 64"
  shows "md5_end small (foldl (md5_hash small) (md5_begin c) ds) = md5_digest (concat ds)"
proof -
  let ?X = "drop 4 (hash c)" and ?c = "foldl (md5_hash small) (md5_begin c) ds" and ?IV = "[0x67452301, 0xefcdab89, 0x98badcfe, 0x10325476]"
  have "ctx_of small (Md5_block, ?IV @ ?X) [] (md5_begin c)"
    by (rule ctx_of_begin) (simp_all add: assms md5_begin_def)
  from ctx_of_end(1) [OF ctx_of_chunks [OF this, of ds], of False]
  have e: "hash (common64_end small False ?c) = blocks (md5_process_block64 3) 64 ?IV (padded 64 (count64 False (of_nat (length (concat ds)))) (concat ds)) @ ?X"
    "length (blocks (md5_process_block64 3) 64 ?IV (padded 64 (count64 False (of_nat (length (concat ds)))) (concat ds))) = 4"
    using blocks_frame [where G = "md5_process_block64 small" and F = "md5_process_block64 3" and k = 4 and n = 64 and h = ?IV and X = ?X] md5_frame
    by (simp_all add: block_of_def)
  show ?thesis unfolding md5_end_def e(1) md5_digest_def count64_bits(1) [symmetric] using e(2) by simp
qed

lemma length_sha256_block [simp]: "length (sha256_process_block64 b h) = 8"
  by (simp add: sha256_process_block64_def Let_def split: prod.split)

lemma sha256_pieces:
  assumes "length (wbuffer c) = 64"
  shows "sha1_end small (foldl (md5_hash small) (sha256_begin c) ds) = sha256_digest (concat ds)"
proof -
  let ?c = "foldl (md5_hash small) (sha256_begin c) ds"
  have "ctx_of small (Sha256_block, drop 2 init256) [] (sha256_begin c)"
    by (rule ctx_of_begin) (simp_all add: assms sha256_begin_def init256_def)
  from ctx_of_end [OF ctx_of_chunks [OF this, of ds], of True]
  have e: "hash (common64_end small True ?c) = blocks sha256_process_block64 64 (drop 2 init256) (padded 64 (count64 True (of_nat (length (concat ds)))) (concat ds))"
    "process_block (common64_end small True ?c) = Sha256_block"
    "length (blocks sha256_process_block64 64 (drop 2 init256) (padded 64 (count64 True (of_nat (length (concat ds)))) (concat ds))) = 8"
    using blocks_frame [where G = sha256_process_block64 and F = sha256_process_block64 and k = 8 and n = 64 and h = "drop 2 init256" and X = "[]"]
    by (simp_all add: block_of_def init256_def)
  show ?thesis unfolding sha1_end_def Let_def e(1,2) sha256_digest_def count64_bits(2) [symmetric]
    using e(3) by (simp add: comp_def bytes_of_bswap)
qed

subsection \<open>SHA-512\<close>

definition sha512_H0 :: "64 word list" where
  "sha512_H0 = map (\<lambda>i. push_bit 32 (ucast (init256 ! i)) + ucast (init512_lo ! i)) [2..<10]"

text \<open>The length of the message in bits is a number of 128 bits.\<close>

definition sha512_digest :: "bytes \<Rightarrow> bytes" where
  "sha512_digest m =
     concat (map (\<lambda>x. rev (bytes_of x)) (blocks sha512_process_block128 128 sha512_H0
       (padded 128 (rev (bytes_of (of_nat (8 * length m div 2 ^ 64) :: 64 word)) @ rev (bytes_of (of_nat (8 * length m) :: 64 word))) m)))"

definition ctx512_of :: "bytes \<Rightarrow> sha512_ctx_t \<Rightarrow> bool" where
  "ctx512_of m c \<longleftrightarrow> c128.holds sha512_H0 c m \<and> total64_0 c = of_nat (length m) \<and> total64_1 c = of_nat (length m div 2 ^ 64)"

lemma carry64:
  assumes "d < 2 ^ 64"
  shows "(if (of_nat (l + d) :: 64 word) < of_nat d then (of_nat (l div 2 ^ 64) :: 64 word) + 1 else of_nat (l div 2 ^ 64)) = of_nat ((l + d) div 2 ^ 64)"
proof -
  define q r where "q = l div 2 ^ 64" and "r = l mod 2 ^ 64"
  have l: "l = q * 2 ^ 64 + r" "r < 2 ^ 64" by (simp_all add: q_def r_def)
  have lt: "(of_nat (l + d) :: 64 word) < of_nat d \<longleftrightarrow> (l + d) mod 2 ^ 64 < d"
    using assms by (simp add: word_less_nat_alt unsigned_of_nat take_bit_eq_mod del: of_nat_add)
  have m: "(l + d) mod 2 ^ 64 = (r + d) mod 2 ^ 64" "(l + d) div 2 ^ 64 = q + (r + d) div 2 ^ 64"
    unfolding l(1) by (simp_all add: add.assoc)
  show ?thesis
  proof (cases "r + d < 2 ^ 64")
    case True
    then show ?thesis unfolding lt m q_def [symmetric] by simp
  next
    case False
    then have "(r + d) mod 2 ^ 64 = r + d - 2 ^ 64" "(r + d) div 2 ^ 64 = 1" using l(2) assms by (simp_all add: mod_if div_if)
    then show ?thesis unfolding lt m q_def [symmetric] using l(2) False by simp
  qed
qed

lemma count128_bits:
  "count128 (of_nat l, of_nat (l div 2 ^ 64)) =
     rev (bytes_of (of_nat (8 * l div 2 ^ 64) :: 64 word)) @ rev (bytes_of (of_nat (8 * l) :: 64 word))"
proof -
  define q r where "q = l div 2 ^ 64" and "r = l mod 2 ^ 64"
  have l: "l = q * 2 ^ 64 + r" "r < 2 ^ 64" by (simp_all add: q_def r_def)
  let ?x = "r div 2 ^ 61"
  have x: "?x < 8" using l(2) by (simp add: less_mult_imp_div_less)
  have lo: "drop_bit 61 (of_nat l :: 64 word) = of_nat ?x"
    unfolding word_unat_eq_iff by (simp only: unsigned_drop_bit_eq unsigned_of_nat take_bit_take_bit)
      (use x in \<open>simp add: drop_bit_eq_div take_bit_eq_mod r_def\<close>)
  have hi: "push_bit 3 (of_nat q :: 64 word) = of_nat (8 * q)" by (simp add: push_bit_eq_mult mult.commute)
  have "push_bit 3 (of_nat q :: 64 word) OR of_nat ?x = push_bit 3 (of_nat q) + of_nat ?x"
  proof (rule disjunctive_add_eq_or [symmetric])
    show "push_bit 3 (of_nat q :: 64 word) AND of_nat ?x = 0"
    proof (rule bit_word_eqI)
      fix n
      have "\<not> bit (of_nat ?x :: 64 word) n" if "3 \<le> n"
      proof -
        have "2 ^ 3 \<le> (2::nat) ^ n" using that by (rule power_increasing) simp
        then have "?x < 2 ^ n" using x by simp
        then have "\<not> bit ?x n" unfolding bit_iff_odd by simp
        then show ?thesis by (simp only: bit_simps simp_thms)
      qed
      then show "bit (push_bit 3 (of_nat q :: 64 word) AND of_nat ?x) n = bit (0 :: 64 word) n" by (auto simp: bit_simps)
    qed
  qed
  also have "\<dots> = of_nat (8 * q + ?x)" unfolding hi by simp
  also have "8 * q + ?x = 8 * l div 2 ^ 64"
  proof -
    have "8 * l = 8 * r + (8 * q) * 2 ^ 64" using l(1) by simp
    then have "8 * l div 2 ^ 64 = 8 * q + 8 * r div 2 ^ 64" by (simp only: div_mult_self1) simp
    moreover have "8 * r div 2 ^ 64 = r div 2 ^ 61" using div_mult_mult1 [of 8 r "2 ^ 61"] by simp
    ultimately show ?thesis by simp
  qed
  finally show ?thesis unfolding count128_def prod.case lo q_def [symmetric] bytes_of_bswap
    by (simp add: push_bit_eq_mult mult.commute)
qed

lemma ctx512_of_hash:
  assumes "ctx512_of m c" "length d < 2 ^ 64"
  shows "ctx512_of (m @ d) (sha512_hash c d)"
proof -
  define c1 where "c1 = c\<lparr>total64_0 := of_nat (length (m @ d)), total64_1 := of_nat (length (m @ d) div 2 ^ 64)\<rparr>"
  have t: "total64_0 c = of_nat (length m)" "total64_1 c = of_nat (length m div 2 ^ 64)" and h: "c128.holds sha512_H0 c m"
    using assms(1) by (simp_all add: ctx512_of_def)
  have e: "sha512_hash c d = sha512_loop c1 (length m mod 128) d"
  proof -
    define c0 where "c0 = c\<lparr>total64_0 := total64_0 c + of_nat (length d)\<rparr>"
    have "(if total64_0 c0 < of_nat (length d) then c0\<lparr>total64_1 := total64_1 c0 + 1\<rparr> else c0) = c1"
      using carry64 [OF assms(2), of "length m"] t by (auto simp: c0_def c1_def split: if_splits)
    moreover have "unat (total64_0 c AND 127) = length m mod 128" unfolding t(1) by (rule position128)
    ultimately show ?thesis unfolding sha512_hash_def Let_def c0_def [symmetric] by (simp only:)
  qed
  have h1: "c128.holds sha512_H0 c1 m" using h by (simp add: c1_def c128.holds_def)
  have "(total64_0 (sha512_loop c1 (length m mod 128) d), total64_1 (sha512_loop c1 (length m mod 128) d)) = (total64_0 c1, total64_1 c1)"
    using h1 by (intro c128.loop_takes(2)) (simp_all add: c128.holds_def)
  then show ?thesis using c128.holds_loop [OF h1, of d] by (simp add: e ctx512_of_def c1_def)
qed

lemma ctx512_of_chunks:
  "ctx512_of m c \<Longrightarrow> list_all (\<lambda>d. length d < 2 ^ 64) ds \<Longrightarrow> ctx512_of (m @ concat ds) (foldl sha512_hash c ds)"
proof (induction ds arbitrary: m c)
  case (Cons d ds)
  from Cons.IH [OF ctx512_of_hash [OF Cons.prems(1), of d]] Cons.prems(2) show ?case by simp
qed simp

lemma sha512_pieces:
  assumes "length (wbuffer512 c) = 128" "list_all (\<lambda>d. length d < 2 ^ 64) ds"
  shows "sha512_end (foldl sha512_hash (sha512_begin c) ds) = sha512_digest (concat ds)"
proof -
  let ?c = "foldl sha512_hash (sha512_begin c) ds" and ?m = "concat ds"
  have tp: "[0..<2 + 8] = 0 # 1 # [2..<10]" by (simp add: upt_rec)
  have "ctx512_of [] (sha512_begin c)"
    using assms(1) unfolding ctx512_of_def c128.holds_def sha512_begin_def tp sha512_H0_def
    by (simp add: blocks_short tail_of_def init256_def init512_lo_def del: upt_rec_numeral)
  from ctx512_of_chunks [OF this assms(2)] have c: "c128.holds sha512_H0 ?c ?m" "total64_0 ?c = of_nat (length ?m)"
    "total64_1 ?c = of_nat (length ?m div 2 ^ 64)" by (simp_all add: ctx512_of_def)
  from c128.holds_fin(1) [OF c(1) refl] show ?thesis
    unfolding sha512_end_def Let_def sha512_digest_def count128_bits [symmetric]
    by (simp add: c(2,3) position128 comp_def bytes_of_bswap)
qed

text \<open>
  C16.  The digests of MD5, SHA-256 and SHA-512 depend only on the message and not on the pieces in
  which it is passed: they are the digests of the padded whole message.
\<close>

theorem digests_of_pieces:
  assumes "length (wbuffer c) = 64" "length (wbuffer512 c') = 128" "list_all (\<lambda>d. length d < 2 ^ 64) ds"
  shows "md5_end small (foldl (md5_hash small) (md5_begin c) ds) = md5_digest (concat ds) \<and>
    sha1_end small (foldl (md5_hash small) (sha256_begin c) ds) = sha256_digest (concat ds) \<and>
    sha512_end (foldl sha512_hash (sha512_begin c') ds) = sha512_digest (concat ds)"
  using md5_pieces [OF assms(1)] sha256_pieces [OF assms(1)] sha512_pieces [OF assms(2,3)] by blast

definition blank_ctx512 :: sha512_ctx_t where
  "blank_ctx512 = \<lparr>total64_0 = 0, total64_1 = 0, hash512 = replicate 8 0, wbuffer512 = replicate 128 0\<rparr>"

theorem digests_of_pieces_witness:
  "md5_end 1 (foldl (md5_hash 1) (md5_begin blank_ctx) [[0x61], [0x62]]) = md5_digest [0x61, 0x62] \<and>
   sha512_end (foldl sha512_hash (sha512_begin blank_ctx512) [[0x61], [0x62]]) = sha512_digest [0x61, 0x62]"
  using digests_of_pieces [of blank_ctx blank_ctx512 "[[0x61], [0x62]]" 1] by (simp add: blank_ctx_def blank_ctx512_def)

end
