(* ===== verification/Sha1sum.thy ===== *)
theory Sha1sum
  imports Hash Retry Example_Platform
begin

text \<open>
  The programs \<open>md5sum\<close>, \<open>sha1sum\<close>, \<open>sha256sum\<close> and \<open>sha512sum\<close> of busybox
  (\<open>coreutils/md5_sha1_sum.c\<close>), which the repository changes to report on the console as well: with
  \<open>sha1sum -c\<close> the boot script compares the files of the system with the security list.  Also here are
  the routines of \<open>libbb\<close> that they call.

  The options are given as flags and the arguments that remain, as \<open>getopt32\<close> delivers them.  A call
  of \<open>getc\<close> on the stream of a descriptor is a call of the platform.  What is printed to standard
  output is a write to descriptor 1; messages for standard error are left out.  \<open>c\<close> and \<open>c'\<close> are the
  contents of the uninitialised contexts on the stack.
\<close>

subsection \<open>Routines of libbb\<close>

definition bb_hexdigits_upcase :: string where "bb_hexdigits_upcase = ''0123456789ABCDEF''"

definition hexdigit :: "nat \<Rightarrow> char" where
  "hexdigit n = char_of (0x20 OR (of_char (bb_hexdigits_upcase ! n) :: nat))"

definition bin2hex :: "bytes \<Rightarrow> string" where
  "bin2hex cp = concat (map (\<lambda>c. [hexdigit (unat (drop_bit 4 c)), hexdigit (unat (c AND 0xf))]) cp)"

definition safe_read :: "platform \<Rightarrow> int \<Rightarrow> int \<Rightarrow> init_st \<Rightarrow> (answer \<times> init_st) option" where
  "safe_read P fd count st = retry P (Sys_read fd count) st"

definition open_or_warn_stdin :: "platform \<Rightarrow> string \<Rightarrow> init_st \<Rightarrow> int \<times> init_st" where
  "open_or_warn_stdin P filename st =
     (if filename \<noteq> ''-'' then let (f, st) = sys P (Sys_open filename [O_RDONLY] 0x1B6) st in (an_ret f, st)
      else (0, st))"

text \<open>\<open>xfopen_stdin\<close>: \<open>None\<close> when the program ends because the file cannot be opened.\<close>

definition xfopen_stdin :: "platform \<Rightarrow> string \<Rightarrow> init_st \<Rightarrow> int option \<times> init_st" where
  "xfopen_stdin P filename st =
     (if filename \<noteq> ''-'' then
        let (f, st) = sys P (Sys_open filename [O_RDONLY] 0x1B6) st
        in (if an_ret f < 0 then None else Some (an_ret f), st)
      else (Some 0, st))"

text \<open>The characters up to and with the end of the line or a NUL, or up to the end of the file.\<close>

partial_function (option) bb_get_chunk_from_file :: "platform \<Rightarrow> int \<Rightarrow> init_st \<Rightarrow> (string \<times> init_st) option" where
  "bb_get_chunk_from_file P file st =
     (let (a, st) = sys P (Sys_getc file) st; ch = an_ret a in
      if ch = - 1 then Some ([], st)
      else
        let c = char_of ch in
        if c = NUL \<or> c = NL then Some ([c], st)
        else Option.bind (bb_get_chunk_from_file P file st) (\<lambda>(linebuf, st). Some (c # linebuf, st)))"

definition xmalloc_fgetline :: "platform \<Rightarrow> int \<Rightarrow> init_st \<Rightarrow> (string option \<times> init_st) option" where
  "xmalloc_fgetline P file st =
     map_option (\<lambda>(c, st).
         (if c = [] then None else Some (cstr_at ((if last c = NL then butlast c else c) @ [NUL]) 0), st))
       (bb_get_chunk_from_file P file st)"

subsection \<open>The digest of a file\<close>

datatype hash_algo = HASH_MD5 | HASH_SHA1 | HASH_SHA256 | HASH_SHA512

text \<open>The program is called by one of four names, whose fourth letter decides.\<close>

definition hash_algo_of :: "string \<Rightarrow> hash_algo" where
  "hash_algo_of applet_name =
     (let hash_algo = applet_name ! 3 in
      if hash_algo = CHR ''s'' then HASH_MD5 else if hash_algo = CHR ''1'' then HASH_SHA1
      else if hash_algo = CHR ''2'' then HASH_SHA256 else HASH_SHA512)"

definition hash_bin_to_hex :: "bytes \<Rightarrow> nat \<Rightarrow> string" where
  "hash_bin_to_hex hash_value hash_length = bin2hex (take hash_length hash_value)"

abbreviation (input) as_bytes :: "string \<Rightarrow> bytes" where
  "as_bytes \<equiv> map of_char"

partial_function (option) hash_loop ::
    "platform \<Rightarrow> int \<Rightarrow> ('c \<Rightarrow> bytes \<Rightarrow> 'c) \<Rightarrow> 'c \<Rightarrow> init_st \<Rightarrow> (int \<times> 'c \<times> init_st) option" where
  "hash_loop P src_fd update context st =
     Option.bind (safe_read P src_fd 4096 st) (\<lambda>(r, st).
       if 0 < an_ret r then hash_loop P src_fd update (update context (as_bytes (got r))) st
       else Some (an_ret r, context, st))"

definition hash_contents ::
    "platform \<Rightarrow> int \<Rightarrow> ('c \<Rightarrow> bytes \<Rightarrow> 'c) \<Rightarrow> ('c \<Rightarrow> bytes) \<Rightarrow> nat \<Rightarrow> 'c \<Rightarrow> init_st \<Rightarrow> (string option \<times> init_st) option" where
  "hash_contents P src_fd update final hash_len context st =
     map_option (\<lambda>(count, context, st). (if count = 0 then Some (hash_bin_to_hex (final context) hash_len) else None, st))
       (hash_loop P src_fd update context st)"

definition hash_file ::
    "platform \<Rightarrow> int \<Rightarrow> md5_ctx_t \<Rightarrow> sha512_ctx_t \<Rightarrow> hash_algo \<Rightarrow> string \<Rightarrow> init_st \<Rightarrow> (string option \<times> init_st) option" where
  "hash_file P small c c' algo filename st =
     (let (src_fd, st) = open_or_warn_stdin P filename st in
      if src_fd < 0 then Some (None, st)
      else do {
        (hash_value, st) \<leftarrow>
          (case algo of
             HASH_MD5 \<Rightarrow> hash_contents P src_fd (md5_hash small) (md5_end small) 16 (md5_begin c) st
           | HASH_SHA1 \<Rightarrow> hash_contents P src_fd (md5_hash small) (sha1_end small) 20 (sha1_begin c) st
           | HASH_SHA256 \<Rightarrow> hash_contents P src_fd (md5_hash small) (sha1_end small) 32 (sha256_begin c) st
           | HASH_SHA512 \<Rightarrow> hash_contents P src_fd sha512_hash sha512_end 64 (sha512_begin c') st);
        Some (hash_value, if src_fd \<noteq> 0 then perform P (Sys_close src_fd) st else st)
      })"

subsection \<open>Checking a list\<close>

record sum_flags =
  flag_silent :: bool
  flag_check :: bool
  flag_warn :: bool

text \<open>The sum and the name on a line, with two blanks or a blank and an asterisk between them.\<close>

definition split_line :: "string \<Rightarrow> (string \<times> string) option" where
  "split_line line =
     map_option (\<lambda>filename_ptr. (take (length line - length filename_ptr) line, drop 2 filename_ptr))
       (case strstr ''  '' line of None \<Rightarrow> strstr '' *'' line | Some p \<Rightarrow> Some p)"

definition report :: "platform \<Rightarrow> int \<Rightarrow> string \<Rightarrow> string \<Rightarrow> init_st \<Rightarrow> init_st" where
  "report P fd filename msg st =
     (let st = perform P (Sys_write 1 (filename @ msg)) st
      in if 0 \<le> fd then perform P (Sys_write fd msg) (perform P (Sys_write fd filename) st) else st)"

text \<open>A way of computing the sum of the file with a given name.\<close>

type_synonym hash_fn = "string \<Rightarrow> init_st \<Rightarrow> (string option \<times> init_st) option"

text \<open>One line of the list; \<open>hash_of\<close> is \<open>hash_file\<close> with the algorithm of the program.\<close>

definition check_line ::
    "platform \<Rightarrow> hash_fn \<Rightarrow> sum_flags \<Rightarrow> int \<Rightarrow> string \<Rightarrow> init_st \<Rightarrow> (bool \<times> init_st) option" where
  "check_line P hash_of flags fd line st =
     (case split_line line of
        None \<Rightarrow> Some (False, st)
      | Some (digest, filename) \<Rightarrow>
          map_option (\<lambda>(hash_value, st).
              (hash_value = Some digest,
               if flag_silent flags then st
               else report P fd filename (if hash_value = Some digest then '': OK'' @ [NL] else '': FAILED'' @ [NL]) st))
            (hash_of filename st))"

partial_function (option) check_loop ::
    "platform \<Rightarrow> hash_fn \<Rightarrow> sum_flags \<Rightarrow> int \<Rightarrow> int \<Rightarrow> int \<times> int \<times> int \<Rightarrow> init_st \<Rightarrow>
      ((int \<times> int \<times> int) \<times> init_st) option" where
  "check_loop P hash_of flags fd file counts st =
     Option.bind (xmalloc_fgetline P file st) (\<lambda>(line, st).
       case line of
         None \<Rightarrow> Some (counts, st)
       | Some line \<Rightarrow> Option.bind (check_line P hash_of flags fd line st) (\<lambda>(ok, st).
           case counts of (return_value, count_total, count_failed) \<Rightarrow>
             check_loop P hash_of flags fd file
               (if ok then (return_value, count_total + 1, count_failed) else (1, count_total + 1, count_failed + 1)) st))"

text \<open>A list: \<open>None\<close> in the result is the end of the program with \<open>EXIT_FAILURE\<close>.\<close>

definition check_list ::
    "platform \<Rightarrow> hash_fn \<Rightarrow> sum_flags \<Rightarrow> string \<Rightarrow> int \<Rightarrow> init_st \<Rightarrow> (int option \<times> init_st) option" where
  "check_list P hash_of flags name return_value st =
     (let (t, st) = sys P (Sys_open ''/dev/tty0'' [O_WRONLY] 0) st; fd = an_ret t;
          (file, st) = xfopen_stdin P name st in
      case file of
        None \<Rightarrow> Some (None, st)
      | Some file \<Rightarrow> map_option (\<lambda>((return_value, _, _), st).
          (Some return_value, perform P (Sys_close fd) (if name \<noteq> ''-'' then perform P (Sys_close file) st else st)))
            (check_loop P hash_of flags fd file (return_value, 0, 0) st))"

fun sum_args ::
    "platform \<Rightarrow> hash_fn \<Rightarrow> sum_flags \<Rightarrow> string list \<Rightarrow> int \<Rightarrow> init_st \<Rightarrow> (int \<times> init_st) option" where
  "sum_args P hash_of flags [] return_value st = Some (return_value, st)"
| "sum_args P hash_of flags (arg # argv) return_value st =
     (if flag_check flags then do {
        (r, st) \<leftarrow> check_list P hash_of flags arg return_value st;
        (case r of None \<Rightarrow> Some (1, st) | Some return_value \<Rightarrow> sum_args P hash_of flags argv return_value st)
      }
      else do {
        (hash_value, st) \<leftarrow> hash_of arg st;
        (case hash_value of
           None \<Rightarrow> sum_args P hash_of flags argv 1 st
         | Some h \<Rightarrow> sum_args P hash_of flags argv return_value (perform P (Sys_write 1 (h @ ''  '' @ arg @ [NL])) st))
      })"

definition md5_sha1_sum_main ::
    "platform \<Rightarrow> int \<Rightarrow> md5_ctx_t \<Rightarrow> sha512_ctx_t \<Rightarrow> string \<Rightarrow> sum_flags \<Rightarrow> string list \<Rightarrow> init_st \<Rightarrow> (int \<times> init_st) option" where
  "md5_sha1_sum_main P small c c' applet_name flags argv st =
     (if \<not> flag_check flags \<and> (flag_silent flags \<or> flag_warn flags) then Some (1, st)
      else sum_args P (hash_file P small c c' (hash_algo_of applet_name)) flags (if argv = [] then [''-''] else argv) 0 st)"

subsection \<open>Files that do not change\<close>

text \<open>
  What a read may answer after \<open>k\<close> of the bytes \<open>text\<close> of a file were delivered: a signal interrupts it,
  or it delivers some of the bytes that follow, none only at the end.

  \<open>files\<close> gives the bytes of each file; one that does not exist cannot be opened, and one that is opened
  is read like this.  \<open>reading v\<close>: the calls \<open>v\<close> open, read and close files and do nothing else.
\<close>

definition file_read :: "string \<Rightarrow> nat \<Rightarrow> answer \<Rightarrow> bool" where
  "file_read text k r \<longleftrightarrow> interrupted r \<or>
     0 \<le> an_ret r \<and> got r = take (nat (an_ret r)) (drop k text) \<and> (an_ret r = 0 \<longrightarrow> length text \<le> k)"

definition reads_text :: "platform \<Rightarrow> int \<Rightarrow> string \<Rightarrow> sys_trace \<Rightarrow> bool" where
  "reads_text P fd text t \<longleftrightarrow>
     (\<forall>u. io_only fd u \<longrightarrow> file_read text (length (delivered fd u)) (os P (u @ t) (Sys_read fd 4096)))"

abbreviation (input) open_to_read :: "string \<Rightarrow> syscall" where
  "open_to_read name \<equiv> Sys_open name [O_RDONLY] 0x1B6"

definition serves_files :: "platform \<Rightarrow> (string \<Rightarrow> string option) \<Rightarrow> bool" where
  "serves_files P files \<longleftrightarrow> (\<forall>t name. let a = os P t (open_to_read name) in
     (an_ret a < 0 \<longleftrightarrow> files name = None) \<and>
     (\<forall>text. files name = Some text \<longrightarrow> reads_text P (an_ret a) text ((open_to_read name, a) # t)))"

definition reading :: "sys_trace \<Rightarrow> bool" where
  "reading v \<longleftrightarrow> list_all (\<lambda>(c, a). case c of Sys_open _ _ _ \<Rightarrow> True | Sys_read _ _ \<Rightarrow> True | Sys_close _ \<Rightarrow> True | _ \<Rightarrow> False) v"

lemma reading_simps [simp]:
  "reading []" "reading (v @ w) \<longleftrightarrow> reading v \<and> reading w"
  "reading ((c, a) # v) \<longleftrightarrow> (case c of Sys_open _ _ _ \<Rightarrow> True | Sys_read _ _ \<Rightarrow> True | Sys_close _ \<Rightarrow> True | _ \<Rightarrow> False) \<and> reading v"
  by (simp_all add: reading_def)

lemma failed_reading: "failed_attempts (Sys_read fd n) t \<Longrightarrow> reading t"
  by (induction t) (auto simp: failed_attempts_def)

lemma hash_loop_reads:
  assumes "settles P" "reads_text P fd text t0" "trace st = u @ t0" "io_only fd u"
  shows "\<exists>ds v. hash_loop P fd update c st = Some (0, foldl update c ds, st\<lparr>trace := v @ trace st\<rparr>) \<and>
    concat ds = as_bytes (drop (length (delivered fd u)) text) \<and> reading v"
  using assms(3,4)
proof (induction "length text - length (delivered fd u)" arbitrary: c st u rule: less_induct)
  case less
  let ?c = "Sys_read fd 4096" and ?k = "length (delivered fd u)"
  obtain r t where r: "retry P ?c st = Some (r, st\<lparr>trace := ((?c, r) # t) @ trace st\<rparr>)" "r = os P (t @ trace st) ?c"
    "\<not> interrupted r" "failed_attempts ?c t" using retry_settles [OF assms(1)] by blast
  have t: "delivered fd t = []" "io_only fd t" "reading t" using failed_reads [OF r(4)] failed_reading [OF r(4)] by blast+
  have g: "0 \<le> an_ret r" "got r = take (nat (an_ret r)) (drop ?k text)" "an_ret r = 0 \<longrightarrow> length text \<le> ?k"
    using assms(2) [unfolded reads_text_def, rule_format, of "t @ u"] t less.prems r(2,3) by (auto simp: file_read_def)
  define s1 where "s1 = st\<lparr>trace := ((?c, r) # t) @ trace st\<rparr>"
  have unf: "hash_loop P fd update c st =
    (if 0 < an_ret r then hash_loop P fd update (update c (as_bytes (got r))) s1 else Some (an_ret r, c, s1))"
    by (subst hash_loop.simps) (simp only: safe_read_def r(1) bind.bind_lunit case_prod_conv s1_def)
  show ?case
  proof (cases "0 < an_ret r")
    case False
    then have z: "an_ret r = 0" using g(1) by simp
    then show ?thesis using unf t g(3) by (intro exI [of _ "[]"] exI [of _ "(?c, r) # t"]) (simp add: s1_def)
  next
    case True
    let ?u = "((?c, r) # t) @ u"
    have l: "length (delivered fd ?u) = ?k + length (got r)" using t by simp
    have "length (got r) \<le> length text - ?k" using g(2) by (metis length_drop length_take min.cobounded1)
    then have "length text - length (delivered fd ?u) < length text - ?k" using l True by simp
    moreover have "trace s1 = ?u @ t0" "io_only fd ?u" using less.prems t by (simp_all add: s1_def)
    ultimately obtain ds v where v: "hash_loop P fd update (update c (as_bytes (got r))) s1 =
        Some (0, foldl update (update c (as_bytes (got r))) ds, s1\<lparr>trace := v @ trace s1\<rparr>)"
      "concat ds = as_bytes (drop (length (delivered fd ?u)) text)" "reading v"
      using less.hyps [of ?u s1] by blast
    have "drop (length (delivered fd ?u)) text = drop (nat (an_ret r)) (drop ?k text)" unfolding l by (simp add: add.commute)
    then have "got r @ drop (length (delivered fd ?u)) text = drop ?k text" using g(2) by (metis append_take_drop_id)
    then have "concat (as_bytes (got r) # ds) = as_bytes (drop ?k text)" by (metis concat.simps(2) map_append v(2))
    then show ?thesis using unf True t v(1,3)
      by (intro exI [of _ "as_bytes (got r) # ds"] exI [of _ "v @ (?c, r) # t"]) (simp add: s1_def)
  qed
qed

lemma length_fips_sha1: "length (fips_sha1 m) = 20"
proof -
  have "length (blocks fips_sha1_block 64 sha1_H0 x) = 5" for x
  proof -
    have "blocks sha1_process_block64 64 (sha1_H0 @ []) x = blocks fips_sha1_block 64 sha1_H0 x @ [] \<and>
      length (blocks fips_sha1_block 64 sha1_H0 x) = 5"
      by (rule blocks_frame) (erule (1) sha1_frame, simp add: sha1_H0_def)
    then show ?thesis by blast
  qed
  then show ?thesis by (simp add: fips_sha1_def length_concat comp_def sum_list_triv)
qed

definition sha1_of :: "string \<Rightarrow> string" where
  "sha1_of text = bin2hex (fips_sha1 (as_bytes text))"

lemma sha1_file_digest:
  assumes "settles P" "serves_files P files" "length (wbuffer c) = 64" "name \<noteq> ''-''"
  shows "\<exists>v. hash_file P small c c' HASH_SHA1 name st = Some (map_option sha1_of (files name), st\<lparr>trace := v @ trace st\<rparr>) \<and> reading v"
proof -
  define a where "a = os P (trace st) (open_to_read name)"
  define s1 where "s1 = st\<lparr>trace := (open_to_read name, a) # trace st\<rparr>"
  have o: "open_or_warn_stdin P name st = (an_ret a, s1)"
    using assms(4) by (simp add: open_or_warn_stdin_def sys_eq perform_trace a_def s1_def)
  have f: "an_ret a < 0 \<longleftrightarrow> files name = None" "\<And>text. files name = Some text \<Longrightarrow> reads_text P (an_ret a) text (trace s1)"
    using assms(2) unfolding serves_files_def Let_def a_def s1_def by auto
  show ?thesis
  proof (cases "files name")
    case None
    then show ?thesis using f(1) by (intro exI [of _ "[(open_to_read name, a)]"]) (simp add: hash_file_def o s1_def)
  next
    case (Some b)
    let ?fd = "an_ret a"
    from hash_loop_reads [OF assms(1) f(2) [OF Some], of s1 "[]" "md5_hash small" "sha1_begin c"] obtain ds v where
      v: "hash_loop P ?fd (md5_hash small) (sha1_begin c) s1 =
        Some (0, foldl (md5_hash small) (sha1_begin c) ds, s1\<lparr>trace := v @ trace s1\<rparr>)"
      "concat ds = as_bytes b" "reading v" by auto
    define s2 where "s2 = s1\<lparr>trace := v @ trace s1\<rparr>"
    have h: "hash_contents P ?fd (md5_hash small) (sha1_end small) 20 (sha1_begin c) s1 = Some (Some (sha1_of b), s2)"
      using sha1_pieces [OF assms(3), of small ds]
      by (simp add: hash_contents_def v(1,2) hash_bin_to_hex_def length_fips_sha1 sha1_of_def s2_def)
    define w where "w = (if ?fd \<noteq> 0 then [(Sys_close ?fd, os P (trace s2) (Sys_close ?fd))] else []) @ v @ [(open_to_read name, a)]"
    have "hash_file P small c c' HASH_SHA1 name st = Some (Some (sha1_of b), if ?fd \<noteq> 0 then perform P (Sys_close ?fd) s2 else s2)"
      using f(1) Some h by (simp add: hash_file_def o)
    also have "(if ?fd \<noteq> 0 then perform P (Sys_close ?fd) s2 else s2) = st\<lparr>trace := w @ trace st\<rparr>"
      by (simp add: perform_trace w_def s2_def s1_def)
    finally have "hash_file P small c c' HASH_SHA1 name st = Some (Some (sha1_of b), st\<lparr>trace := w @ trace st\<rparr>)" .
    then show ?thesis using v(3) Some by (intro exI [of _ w]) (simp add: w_def)
  qed
qed

subsection \<open>The lines of a list\<close>

text \<open>
  \<open>getcs f t\<close> is the number of characters taken from the stream \<open>f\<close>, \<open>calls_of p t\<close> the calls of the kind
  \<open>p\<close> in the order they were made.  \<open>serves P f text t\<close>: from the moment \<open>t\<close> on, whatever else happens, the
  stream delivers the characters of \<open>text\<close> and then its end.
\<close>

definition getcs :: "int \<Rightarrow> sys_trace \<Rightarrow> nat" where
  "getcs f t = count_list (map fst t) (Sys_getc f)"

definition calls_of :: "(syscall \<Rightarrow> bool) \<Rightarrow> sys_trace \<Rightarrow> syscall list" where
  "calls_of p t = filter p (map fst (rev t))"

definition serves :: "platform \<Rightarrow> int \<Rightarrow> string \<Rightarrow> sys_trace \<Rightarrow> bool" where
  "serves P f text t \<longleftrightarrow> (\<forall>u. an_ret (os P (u @ t) (Sys_getc f)) =
     (if getcs f u < length text then of_char (text ! getcs f u) else - 1))"

definition text_of :: "string list \<Rightarrow> string" where
  "text_of ls = concat (map (\<lambda>l. l @ [NL]) ls)"

lemma getcs_simps [simp]:
  "getcs f [] = 0" "getcs f (t @ u) = getcs f t + getcs f u"
  "getcs f ((c, a) # t) = (if c = Sys_getc f then Suc (getcs f t) else getcs f t)"
  by (simp_all add: getcs_def)

lemma calls_of_simps [simp]:
  "calls_of p [] = []" "calls_of p (t @ u) = calls_of p u @ calls_of p t"
  "calls_of p ((c, a) # t) = calls_of p t @ (if p c then [c] else [])"
  by (simp_all add: calls_of_def)

lemma only_getcs:
  assumes "map fst u = replicate n (Sys_getc f)"
  shows "getcs f u = n" "\<not> p (Sys_getc f) \<Longrightarrow> calls_of p u = []"
proof -
  show "getcs f u = n" unfolding getcs_def assms by (induction n) simp_all
  show "\<not> p (Sys_getc f) \<Longrightarrow> calls_of p u = []" unfolding calls_of_def rev_map [symmetric] assms by simp
qed

definition is_write :: "syscall \<Rightarrow> bool" where
  "is_write c = (case c of Sys_write _ _ \<Rightarrow> True | _ \<Rightarrow> False)"

lemma is_write_simps [simp]: "is_write (Sys_write fd b)" "\<not> is_write (Sys_getc f)"
  "\<not> is_write (Sys_close fd)" "\<not> is_write (Sys_open n m k)" "\<not> is_write (Sys_read fd k)"
  by (simp_all add: is_write_def)

lemma reading_quiet: "reading v \<Longrightarrow> calls_of is_write v = [] \<and> getcs f v = 0"
proof (induction v)
  case (Cons x v)
  obtain c a where "x = (c, a)" by (cases x)
  with Cons show ?case by (cases c) simp_all
qed simp

lemma serves_later:
  assumes "serves P f (x @ text) t" "getcs f u = length x"
  shows "serves P f text (u @ t)"
  unfolding serves_def
proof
  fix w
  show "an_ret (os P (w @ u @ t) (Sys_getc f)) = (if getcs f w < length text then of_char (text ! getcs f w) else - 1)"
    using assms(1) [unfolded serves_def, rule_format, of "w @ u"] assms(2) by (simp add: nth_append)
qed

lemma serves_first: "serves P f (c # text) t \<Longrightarrow> an_ret (os P t (Sys_getc f)) = of_char c"
  unfolding serves_def by (drule spec [of _ "[]"]) simp

lemma serves_end: "serves P f [] t \<Longrightarrow> an_ret (os P t (Sys_getc f)) = - 1"
  unfolding serves_def by (drule spec [of _ "[]"]) simp

lemma char_of_NL: "char_of (10 :: int) = NL"
proof -
  have "of_char NL = (10 :: int)" by simp
  then show ?thesis by (metis char_of_char)
qed

lemma of_char_not_EOF: "(of_char c :: int) \<noteq> - 1"
proof -
  have "(of_char c :: int) = int (of_char c)" by (simp add: of_nat_of_char)
  then show ?thesis by linarith
qed

lemma chunk_served:
  assumes "serves P f (l @ NL # text) (trace st)" "NL \<notin> set l" "NUL \<notin> set l"
  shows "\<exists>u. bb_get_chunk_from_file P f st = Some (l @ [NL], st\<lparr>trace := u @ trace st\<rparr>) \<and> map fst u = replicate (length (l @ [NL])) (Sys_getc f)"
  using assms
proof (induction l arbitrary: st)
  case Nil
  then have "an_ret (os P (trace st) (Sys_getc f)) = of_char NL" using serves_first [of P f NL] by simp
  then have "bb_get_chunk_from_file P f st = Some ([NL], perform P (Sys_getc f) st)"
    by (subst bb_get_chunk_from_file.simps) (simp add: sys_eq Let_def char_of_NL)
  then show ?case
    by (intro exI [of _ "[(Sys_getc f, os P (trace st) (Sys_getc f))]"]) (simp add: perform_trace)
next
  case (Cons c l)
  let ?a = "os P (trace st) (Sys_getc f)"
  let ?s = "st\<lparr>trace := (Sys_getc f, ?a) # trace st\<rparr>"
  have a: "an_ret ?a = of_char c" using serves_first [of P f c] Cons.prems(1) by simp
  have "serves P f (l @ NL # text) ([(Sys_getc f, ?a)] @ trace st)" by (rule serves_later [of P f "[c]"]) (use Cons.prems(1) in simp_all)
  then have "serves P f (l @ NL # text) (trace ?s)" by simp
  moreover have "NL \<notin> set l" "NUL \<notin> set l" using Cons.prems(2,3) by simp_all
  ultimately obtain u where u: "bb_get_chunk_from_file P f ?s = Some (l @ [NL], ?s\<lparr>trace := u @ trace ?s\<rparr>)"
    "map fst u = replicate (length (l @ [NL])) (Sys_getc f)" using Cons.IH by blast
  have "bb_get_chunk_from_file P f st = Some (c # l @ [NL], ?s\<lparr>trace := u @ trace ?s\<rparr>)"
    using Cons.prems(2,3) a by (subst bb_get_chunk_from_file.simps) (auto simp: sys_eq Let_def perform_trace u(1) of_char_not_EOF)
  then show ?case using u by (intro exI [of _ "u @ [(Sys_getc f, ?a)]"]) (simp add: replicate_append_same)
qed

lemma line_served:
  assumes "serves P f (l @ NL # text) (trace st)" "NL \<notin> set l" "NUL \<notin> set l"
  shows "\<exists>u. xmalloc_fgetline P f st = Some (Some l, st\<lparr>trace := u @ trace st\<rparr>) \<and> map fst u = replicate (length (l @ [NL])) (Sys_getc f)"
proof -
  have "\<forall>x \<in> set l. x \<noteq> NUL" using assms(3) by blast
  then have "cstr_at (l @ [NUL]) 0 = l" by (simp add: cstr_at_def)
  with chunk_served [OF assms] show ?thesis by (fastforce simp: xmalloc_fgetline_def simp del: map_option_eq_Some)
qed

lemma end_served:
  assumes "serves P f [] (trace st)"
  shows "xmalloc_fgetline P f st = Some (None, perform P (Sys_getc f) st)"
  by (simp add: xmalloc_fgetline_def bb_get_chunk_from_file.simps [of P f st] sys_eq Let_def serves_end [OF assms])

text \<open>
  The loop over a list, for any way \<open>H\<close> of computing the sum of a file: when each line is judged by \<open>M\<close> and
  makes the calls \<open>pr\<close>, every line is judged, in the order of the list, and the calls are made line by line.
\<close>

lemma check_loop_lines:
  assumes "\<And>l st. l \<in> set ls \<Longrightarrow> NL \<notin> set l \<and> NUL \<notin> set l \<and>
      (\<exists>v. check_line P H flags tty l st = Some (M l, st\<lparr>trace := v @ trace st\<rparr>) \<and> getcs f v = 0 \<and> calls_of p v = pr l)"
    and p: "\<not> p (Sys_getc f)"
    and "serves P f (text_of ls) (trace st)"
  shows "\<exists>v. check_loop P H flags tty f (ret, n, m) st =
      Some ((if list_all M ls then ret else 1, n + int (length ls), m + int (length (filter (\<lambda>l. \<not> M l) ls))), st\<lparr>trace := v @ trace st\<rparr>) \<and>
    calls_of p v = concat (map pr ls)"
  using assms(1,3)
proof (induction ls arbitrary: st ret n m)
  case Nil
  let ?v = "[(Sys_getc f, os P (trace st) (Sys_getc f))]"
  have "serves P f [] (trace st)" using Nil.prems(2) by (simp add: text_of_def)
  from end_served [OF this] have "check_loop P H flags tty f (ret, n, m) st = Some ((ret, n, m), st\<lparr>trace := ?v @ trace st\<rparr>)"
    by (subst check_loop.simps) (simp add: perform_trace)
  then show ?case using p by (intro exI [of _ ?v]) simp
next
  case (Cons l ls)
  have l: "NL \<notin> set l" "NUL \<notin> set l" using Cons.prems(1) [of l] by simp_all
  have srv: "serves P f ((l @ [NL]) @ text_of ls) (trace st)" using Cons.prems(2) by (simp add: text_of_def)
  then have "serves P f (l @ NL # text_of ls) (trace st)" by simp
  from line_served [OF this l] obtain u where u: "xmalloc_fgetline P f st = Some (Some l, st\<lparr>trace := u @ trace st\<rparr>)"
    "map fst u = replicate (length (l @ [NL])) (Sys_getc f)" by blast
  let ?s = "st\<lparr>trace := u @ trace st\<rparr>"
  obtain w where w: "check_line P H flags tty l ?s = Some (M l, ?s\<lparr>trace := w @ trace ?s\<rparr>)" "getcs f w = 0" "calls_of p w = pr l"
    using Cons.prems(1) [of l ?s] by auto
  let ?s' = "?s\<lparr>trace := w @ trace ?s\<rparr>"
  let ?ret = "if M l then ret else 1" and ?m = "if M l then m else m + 1"
  have "check_loop P H flags tty f (ret, n, m) st = check_loop P H flags tty f (?ret, n + 1, ?m) ?s'"
    by (subst check_loop.simps) (simp add: u(1) w(1))
  moreover have srv': "serves P f (text_of ls) (trace ?s')"
    using serves_later [OF srv, of "w @ u"] only_getcs(1) [OF u(2)] w(2) by simp
  moreover have "NL \<notin> set l' \<and> NUL \<notin> set l' \<and> (\<exists>v. check_line P H flags tty l' st' = Some (M l', st'\<lparr>trace := v @ trace st'\<rparr>) \<and>
      getcs f v = 0 \<and> calls_of p v = pr l')" if "l' \<in> set ls" for l' st'
    by (rule Cons.prems(1)) (use that in simp)
  from Cons.IH [OF this srv', of ?ret "n + 1" ?m] obtain v where
    "check_loop P H flags tty f (?ret, n + 1, ?m) ?s' =
      Some ((if list_all M ls then ?ret else 1, n + 1 + int (length ls), ?m + int (length (filter (\<lambda>l. \<not> M l) ls))), ?s'\<lparr>trace := v @ trace ?s'\<rparr>)"
    "calls_of p v = concat (map pr ls)" by blast
  ultimately show ?case using w(3) only_getcs(2) [OF u(2), of p] p by (intro exI [of _ "v @ w @ u"]) simp
qed

subsection \<open>The verdict\<close>

definition line_ok :: "string \<Rightarrow> bool" where
  "line_ok l \<longleftrightarrow> NL \<notin> set l \<and> NUL \<notin> set l \<and> map_option snd (split_line l) \<noteq> Some ''-''"

definition line_matches :: "(string \<Rightarrow> string option) \<Rightarrow> string \<Rightarrow> bool" where
  "line_matches files l = (case split_line l of None \<Rightarrow> False | Some (digest, name) \<Rightarrow> map_option sha1_of (files name) = Some digest)"

text \<open>What is written about a line, to standard output and to the console \<open>tty\<close>.\<close>

definition report_calls :: "sum_flags \<Rightarrow> int \<Rightarrow> (string \<Rightarrow> string option) \<Rightarrow> string \<Rightarrow> syscall list" where
  "report_calls flags tty files l =
     (case split_line l of
        None \<Rightarrow> []
      | Some (digest, name) \<Rightarrow>
          let m = (if line_matches files l then '': OK'' @ [NL] else '': FAILED'' @ [NL])
          in if flag_silent flags then []
             else Sys_write 1 (name @ m) # (if 0 \<le> tty then [Sys_write tty name, Sys_write tty m] else []))"

lemma report_writes:
  "\<exists>w. report P tty name m (st\<lparr>trace := t\<rparr>) = st\<lparr>trace := w @ t\<rparr> \<and> getcs f w = 0 \<and>
    calls_of is_write w = Sys_write 1 (name @ m) # (if 0 \<le> tty then [Sys_write tty name, Sys_write tty m] else [])"
proof -
  define x where "x = (Sys_write 1 (name @ m), os P t (Sys_write 1 (name @ m)))"
  define y where "y = (Sys_write tty name, os P (x # t) (Sys_write tty name))"
  define z where "z = (Sys_write tty m, os P (y # x # t) (Sys_write tty m))"
  have r: "report P tty name m (st\<lparr>trace := t\<rparr>) = st\<lparr>trace := (if 0 \<le> tty then [z, y, x] else [x]) @ t\<rparr>"
    by (simp add: report_def perform_trace x_def y_def z_def)
  show ?thesis unfolding r
    by (intro exI [of _ "if 0 \<le> tty then [z, y, x] else [x]"]) (simp add: x_def y_def z_def)
qed

lemma check_line_served:
  assumes "settles P" "serves_files P files" "length (wbuffer c) = 64" "line_ok l"
  shows "\<exists>v. check_line P (hash_file P small c c' HASH_SHA1) flags tty l st = Some (line_matches files l, st\<lparr>trace := v @ trace st\<rparr>) \<and>
    getcs f v = 0 \<and> calls_of is_write v = report_calls flags tty files l"
proof (cases "split_line l")
  case None
  then show ?thesis by (intro exI [of _ "[]"]) (simp add: check_line_def line_matches_def report_calls_def)
next
  case (Some x)
  obtain digest name where x: "x = (digest, name)" by (cases x)
  have "name \<noteq> ''-''" using assms(4) Some x by (simp add: line_ok_def)
  from sha1_file_digest [OF assms(1-3) this, of small c' st] obtain v where
    v: "hash_file P small c c' HASH_SHA1 name st = Some (map_option sha1_of (files name), st\<lparr>trace := v @ trace st\<rparr>)" "reading v" by blast
  let ?m = "if line_matches files l then '': OK'' @ [NL] else '': FAILED'' @ [NL]"
  let ?s = "st\<lparr>trace := v @ trace st\<rparr>"
  have q: "calls_of is_write v = []" "getcs f v = 0" using reading_quiet [OF v(2)] by blast+
  have m: "line_matches files l \<longleftrightarrow> map_option sha1_of (files name) = Some digest" by (simp add: line_matches_def Some x)
  have res: "check_line P (hash_file P small c c' HASH_SHA1) flags tty l st =
    Some (line_matches files l, if flag_silent flags then ?s else report P tty name ?m ?s)"
    by (simp add: check_line_def Some x v(1) m)
  obtain w where w: "report P tty name ?m ?s = st\<lparr>trace := w @ v @ trace st\<rparr>" "getcs f w = 0"
    "calls_of is_write w = Sys_write 1 (name @ ?m) # (if 0 \<le> tty then [Sys_write tty name, Sys_write tty ?m] else [])"
    using report_writes [of P tty name ?m "v @ trace st" st f] by blast
  show ?thesis unfolding res report_calls_def Some x using q w
    by (intro exI [of _ "if flag_silent flags then v else w @ v"]) (simp add: Let_def)
qed

text \<open>
  The program on one list, for any way of computing the sums: what \<open>check_loop_lines\<close> says of the loop.
  \<open>console_opened\<close> and \<open>list_opened\<close> are the answers when the console and the list are opened,
  and \<open>serves_list\<close> says that the file \<open>L\<close> holds \<open>text\<close>.
\<close>

abbreviation (input) open_tty :: syscall where
  "open_tty \<equiv> Sys_open ''/dev/tty0'' [O_WRONLY] 0"

definition console_opened :: "platform \<Rightarrow> init_st \<Rightarrow> answer" where
  "console_opened P st = os P (trace st) open_tty"

definition list_opened :: "platform \<Rightarrow> string \<Rightarrow> init_st \<Rightarrow> answer" where
  "list_opened P L st = os P ((open_tty, console_opened P st) # trace st) (open_to_read L)"

definition serves_list :: "platform \<Rightarrow> string \<Rightarrow> string \<Rightarrow> init_st \<Rightarrow> bool" where
  "serves_list P L text st \<longleftrightarrow> L \<noteq> ''-'' \<and> 0 \<le> an_ret (list_opened P L st) \<and>
     serves P (an_ret (list_opened P L st)) text ((open_to_read L, list_opened P L st) # (open_tty, console_opened P st) # trace st)"

lemma sum_main_checks:
  assumes "flag_check flags" "serves_list P L (text_of ls) st"
  defines "f \<equiv> an_ret (list_opened P L st)" and "tty \<equiv> an_ret (console_opened P st)"
  assumes "\<not> p (Sys_getc f)"
    "\<And>l st'. l \<in> set ls \<Longrightarrow> NL \<notin> set l \<and> NUL \<notin> set l \<and>
      (\<exists>v. check_line P (hash_file P small c c' (hash_algo_of applet)) flags tty l st' = Some (M l, st'\<lparr>trace := v @ trace st'\<rparr>) \<and>
        getcs f v = 0 \<and> calls_of p v = pr l)"
  shows "\<exists>v. md5_sha1_sum_main P small c c' applet flags [L] st =
      Some (if list_all M ls then 0 else 1, st\<lparr>trace := v @ trace st\<rparr>) \<and>
    calls_of p v = filter p [open_tty, open_to_read L] @ concat (map pr ls) @ filter p [Sys_close f, Sys_close tty]"
proof -
  let ?H = "hash_file P small c c' (hash_algo_of applet)"
  define t where "t = [(open_to_read L, list_opened P L st), (open_tty, console_opened P st)]"
  define s1 where "s1 = st\<lparr>trace := t @ trace st\<rparr>"
  have srv: "serves P f (text_of ls) (trace s1)" using assms(2) by (simp add: s1_def t_def f_def serves_list_def)
  obtain v n m where v: "check_loop P ?H flags tty f (0, 0, 0) s1 =
      Some ((if list_all M ls then 0 else 1, n, m), s1\<lparr>trace := v @ trace s1\<rparr>)" "calls_of p v = concat (map pr ls)"
    using check_loop_lines [OF assms(6,5) srv, of 0 0 0] by blast
  define s2 where "s2 = s1\<lparr>trace := v @ trace s1\<rparr>"
  define w where "w = (Sys_close f, os P (trace s2) (Sys_close f)) # v @ t"
  define s3 where "s3 = st\<lparr>trace := w @ trace st\<rparr>"
  have s2: "perform P (Sys_close f) s2 = s3" by (simp add: perform_trace s2_def s1_def w_def s3_def)
  have x: "xfopen_stdin P L (perform P open_tty st) = (Some f, s1)"
    using assms(2) by (simp add: xfopen_stdin_def sys_eq perform_trace f_def s1_def t_def serves_list_def console_opened_def list_opened_def)
  have "check_list P ?H flags L 0 st = Some (Some (if list_all M ls then 0 else 1), perform P (Sys_close tty) (perform P (Sys_close f) s2))"
    unfolding check_list_def sys_eq Let_def case_prod_conv x option.case console_opened_def [symmetric] tty_def [symmetric] v(1) s2_def using assms(2) by (simp add: serves_list_def)
  then have "md5_sha1_sum_main P small c c' applet flags [L] st = Some (if list_all M ls then 0 else 1, perform P (Sys_close tty) s3)"
    using assms(1) unfolding s2 by (simp add: md5_sha1_sum_main_def)
  then show ?thesis using v(2)
    by (intro exI [of _ "(Sys_close tty, os P (trace s3) (Sys_close tty)) # w"]) (simp add: perform_trace s3_def w_def t_def)
qed

subsection \<open>What the program prints and what it accepts\<close>


lemma strstr_first:
  assumes "c \<notin> set h"
  shows "strstr (c # q) (h @ (c # q) @ r) = Some ((c # q) @ r)"
  using assms
proof (induction h)
  case Nil
  show ?case by (simp add: has_prefix_def)
next
  case (Cons x h)
  then show ?case by (auto simp: has_prefix_iff)
qed

lemma split_separated: "CHR '' '' \<notin> set h \<Longrightarrow> split_line (h @ ''  '' @ name) = Some (h, name)"
  using strstr_first [of "CHR '' ''" h "'' ''" name] by (simp add: split_line_def)



lemma hexdigit_lower:
  assumes "n < 16"
  shows "hexdigit n = ''0123456789abcdef'' ! n"
proof -
  have "n \<in> {0, 1, 2, 3, 4, 5, 6, 7, 8, 9, 10, 11, 12, 13, 14, 15}" unfolding insert_iff empty_iff using assms by presburger
  then show ?thesis unfolding insert_iff empty_iff
    by (elim disjE) (simp_all add: hexdigit_def bb_hexdigits_upcase_def char_of_def bit_iff_odd)
qed

lemma nibbles: "unat (drop_bit 4 c) < 16" "unat (c AND 0xf) < 16" for c :: "8 word"
proof -
  have "unat c < 256" using unsigned_less [of c, where ?'a = nat] by simp
  then show "unat (drop_bit 4 c) < 16" by (simp add: unat_drop_bit_eq drop_bit_eq_div unat_div_distrib)
  have "c AND 0xf \<le> 0xf" by (rule word_and_le1)
  then show "unat (c AND 0xf) < 16" by (simp add: word_le_nat_alt)
qed

lemma bin2hex_digits: "set (bin2hex b) \<subseteq> set ''0123456789abcdef''"
proof -
  have "hexdigit n \<in> set ''0123456789abcdef''" if "n < 16" for n
    unfolding hexdigit_lower [OF that] by (rule nth_mem) (use that in simp)
  then show ?thesis using nibbles unfolding bin2hex_def by fastforce
qed

text \<open>The line that is printed for a file, and the lines of a list in the format of the security list.\<close>

definition sum_line :: "(string \<Rightarrow> string option) \<Rightarrow> string \<Rightarrow> string" where
  "sum_line files name = sha1_of (the (files name)) @ ''  '' @ name"

lemma split_sum_line: "split_line (sum_line files name) = Some (sha1_of (the (files name)), name)"
proof -
  have "CHR '' '' \<notin> set (sha1_of b)" for b using bin2hex_digits unfolding sha1_of_def by fastforce
  then show ?thesis unfolding sum_line_def by (rule split_separated)
qed

lemma sum_line_ok: "NL \<notin> set name \<Longrightarrow> NUL \<notin> set name \<Longrightarrow> name \<noteq> ''-'' \<Longrightarrow> line_ok (sum_line files name)"
proof -
  have "NL \<notin> set (sha1_of b)" "NUL \<notin> set (sha1_of b)" for b using bin2hex_digits unfolding sha1_of_def by fastforce+
  then show "NL \<notin> set name \<Longrightarrow> NUL \<notin> set name \<Longrightarrow> name \<noteq> ''-'' \<Longrightarrow> line_ok (sum_line files name)"
    unfolding line_ok_def split_sum_line by (simp add: sum_line_def)
qed

definition check_flags :: sum_flags where
  "check_flags = \<lparr>flag_silent = False, flag_check = True, flag_warn = False\<rparr>"


lemma sum_verdict:
  assumes "settles P" "serves_files P files" "length (wbuffer c) = 64" "flag_check flags" "serves_list P L (text_of ls) st" "list_all line_ok ls"
  shows "\<exists>v. md5_sha1_sum_main P small c c' ''sha1sum'' flags [L] st =
      Some (if list_all (line_matches files) ls then 0 else 1, st\<lparr>trace := v @ trace st\<rparr>) \<and>
    calls_of is_write v = concat (map (report_calls flags (an_ret (console_opened P st)) files) ls)"
proof -
  have a: "hash_algo_of ''sha1sum'' = HASH_SHA1" by (simp add: hash_algo_of_def)
  have l: "NL \<notin> set l \<and> NUL \<notin> set l \<and>
      (\<exists>v. check_line P (hash_file P small c c' (hash_algo_of ''sha1sum'')) flags (an_ret (console_opened P st)) l st' =
        Some (line_matches files l, st'\<lparr>trace := v @ trace st'\<rparr>) \<and> getcs (an_ret (list_opened P L st)) v = 0 \<and>
        calls_of is_write v = report_calls flags (an_ret (console_opened P st)) files l)" if "l \<in> set ls" for l st'
    using check_line_served [OF assms(1-3), of l] assms(6) that unfolding a by (auto simp: list_all_iff line_ok_def)
  show ?thesis using sum_main_checks [OF assms(4,5) is_write_simps(2) l] by auto
qed

subsection \<open>A platform with two files\<close>

text \<open>
  The platform of the examples: \<open>/list\<close> lists the file \<open>/a\<close>, whose byte is \<open>x\<close>, and nothing else exists, no
  console either.  A read delivers the next bytes of the file that was opened last.
\<close>

definition is_open :: "syscall \<Rightarrow> bool" where
  "is_open c = (case c of Sys_open _ _ _ \<Rightarrow> True | _ \<Rightarrow> False)"

fun current_file :: "sys_trace \<Rightarrow> string" where
  "current_file [] = []"
| "current_file ((c, a) # t) = (case c of Sys_open n _ _ \<Rightarrow> n | _ \<Rightarrow> current_file t)"

definition two_files :: "string \<Rightarrow> string \<Rightarrow> string option" where
  "two_files list_text name = (if name = ''/list'' then Some list_text else if name = ''/a'' then Some ''x'' else None)"

definition files_os :: "string \<Rightarrow> sys_trace \<Rightarrow> syscall \<Rightarrow> answer" where
  "files_os list_text t c =
     (case c of
        Sys_open name _ _ \<Rightarrow> ok_answer (if two_files list_text name = None then - 1 else if name = ''/list'' then 3 else 4)
      | Sys_read fd n \<Rightarrow>
          let k = length (delivered fd (takeWhile (\<lambda>(c, a). \<not> is_open c) t));
              d = take (nat n) (drop k (the (two_files list_text (current_file t))))
          in (ok_answer (int (length d)))\<lparr>an_data := d\<rparr>
      | Sys_getc f \<Rightarrow> ok_answer (if getcs f t < length list_text then of_char (list_text ! getcs f t) else - 1)
      | _ \<Rightarrow> ok_answer 0)"

definition files_platform :: "string \<Rightarrow> platform" where
  "files_platform list_text = example_platform\<lparr>os := files_os list_text\<rparr>"

lemma files_settles: "settles (files_platform list_text)"
proof -
  have "an_errno (files_os list_text t c) \<noteq> EINTR" for t c
    by (simp add: files_os_def ok_answer_def Let_def split: syscall.split)
  then show ?thesis by (simp add: settles_def files_platform_def)
qed

lemma since_open:
  "io_only fd u \<Longrightarrow> takeWhile (\<lambda>(c, a). \<not> is_open c) (u @ (Sys_open n m k, b) # t) = u \<and>
    current_file (u @ (Sys_open n m k, b) # t) = n"
proof (induction u)
  case (Cons x u)
  obtain c a where "x = (c, a)" by (cases x)
  with Cons show ?case by (cases c) (simp_all add: is_open_def)
qed (simp add: is_open_def)

lemma files_served: "serves_files (files_platform list_text) (two_files list_text)"
proof -
  have "file_read b (length (delivered fd u)) (files_os list_text (u @ (open_to_read name, a) # t) (Sys_read fd 4096))"
    if "two_files list_text name = Some b" "io_only fd u" for b fd u name a t
    using that(1) since_open [OF that(2)] by (simp add: files_os_def file_read_def ok_answer_def got_def Let_def min_def)
  then show ?thesis unfolding serves_files_def Let_def
    by (auto simp: files_platform_def reads_text_def files_os_def ok_answer_def)
qed

lemma list_served: "serves_list (files_platform b) ''/list'' b init_st0"
  by (simp add: serves_list_def serves_def list_opened_def files_platform_def files_os_def ok_answer_def init_st0_def two_files_def)

text \<open>
  C6. The verdict of \<open>sha1sum -c\<close>.  The program compares each file named in the list with the FIPS 180 digest
  of its bytes, however the reads deliver them: it exits with 0 exactly when every line of the list names a
  file whose digest it gives, and what it writes, to standard output and to the console, is one report per
  well-formed line, in the order of the list, with \<open>OK\<close> exactly for the files that match.
\<close>

theorem sha1sum_check_verdict:
  assumes "settles P" "serves_files P files" "length (wbuffer c) = 64" "flag_check flags" "serves_list P L (text_of ls) st" "list_all line_ok ls"
  shows "\<exists>v. md5_sha1_sum_main P small c c' ''sha1sum'' flags [L] st =
      Some (if list_all (line_matches files) ls then 0 else 1, st\<lparr>trace := v @ trace st\<rparr>) \<and>
    calls_of is_write v = concat (map (report_calls flags (an_ret (console_opened P st)) files) ls)"
  by (rule sum_verdict [OF assms])

theorem sha1sum_check_verdict_witness:
  "map_option fst (md5_sha1_sum_main (files_platform (text_of [sum_line (two_files []) ''/a''])) 1 blank_ctx blank_ctx512
     ''sha1sum'' check_flags [''/list''] init_st0) = Some 0"
proof -
  let ?l = "sum_line (two_files []) ''/a''" and ?L = "text_of [sum_line (two_files []) ''/a'']"
  have "split_line ?l = Some (sha1_of ''x'', ''/a'')" by (simp add: split_sum_line two_files_def)
  moreover have "line_ok ?l" by (rule sum_line_ok) simp_all
  ultimately show ?thesis
    using sha1sum_check_verdict [OF files_settles files_served, of blank_ctx check_flags ?L "''/list''" "[?l]" init_st0 1 blank_ctx512] list_served [of ?L]
    by (auto simp: blank_ctx_def check_flags_def line_matches_def two_files_def)
qed





end
