(* ===== verification/Spec2Isabelle.thy ===== *)
theory Spec2Isabelle
  imports Boot Ueventd Bootchart Asl Sha1sum
begin

text \<open>
  \<^bold>\<open>A verification of \<open>init\<close>, the first user process of the system, and of the security list.\<close>

  The development models the programs under \<open>src/system/core/init\<close>: \<open>init\<close>, the process the kernel
  starts first, which reads the configuration files \<open>init.rc\<close>, keeps the system properties, starts,
  watches and restarts the services, and executes the commands of the actions; and \<open>ueventd\<close>, which
  creates the device nodes and delivers firmware.  It also models what the repository adds to protect
  the system partition: the kernel module of the security list, \<open>src/kernel/security/asl/asl.c\<close>, and
  \<open>sha1sum\<close> of busybox (\<open>src/external/busybox/coreutils/md5_sha1_sum.c\<close>, changed to report on the
  console), with which the boot script compares the files of the system with this list.

  \<^bold>\<open>The program and the theories.\<close>  In the order of the imports:

  \<^item> \<open>Prelude\<close>: C strings, buffers with checked access, 32-bit flags; \<open>CLib\<close>: the routines of the C
    library that the sources use on characters and numbers.
  \<^item> \<open>Lexer\<close>: \<open>next_token\<close> of \<open>parser.c\<close>, which rewrites the text in place while it reads it.  The
    theory also has a tokenizer on character lists, and shows that the code implements it.
  \<^item> \<open>Line_Parser\<close>: the loop around \<open>next_token\<close> that collects the words of a line and calls a
    handler, as a locale over the handler.  It relates the loop to a specification on the text.
  \<^item> \<open>Keywords\<close>: \<open>keywords.h\<close> and \<open>lookup_keyword\<close> of \<open>init_parser.c\<close>.
  \<^item> \<open>Init_State\<close>: the structs and flags of \<open>init.h\<close>, the static variables of all files in one
    record \<open>init_st\<close>, the system calls, and the record \<open>platform\<close>; \<open>Example_Platform\<close>: a concrete
    platform for the examples.
  \<^item> \<open>Action_Queue\<close>: actions and the queue of pending actions (\<open>init_parser.c\<close>), with the contract
    of a queue as the locale \<open>fifo\<close>.
  \<^item> \<open>Util\<close>: \<open>util.c\<close>.
  \<^item> \<open>Store\<close>: the contract of a key-value store, as the locale \<open>kv_store\<close>.  \<open>Environment\<close> (the table
    \<open>ENV\<close> of \<open>init.c\<close>, \<open>init_export_rc_file\<close>) and \<open>Properties\<close> (\<open>property_service.c\<close>) provide it.
  \<^item> \<open>Expand\<close>: \<open>expand_props\<close> of \<open>init_parser.c\<close>.
  \<^item> \<open>Init_Parser\<close>: the parser of \<open>init_parser.c\<close> with its sections, options and imports.
  \<^item> \<open>Invariant\<close>: the invariant of the running process and the relation \<open>step_ok\<close> between the
    states before and after a routine.
  \<^item> \<open>Services\<close>: starting, stopping and restarting services (\<open>init.c\<close>), the child process up to
    \<open>execve\<close>, control messages, and the requests on the property socket (\<open>property_service.c\<close>).
  \<^item> \<open>Builtins\<close>: the commands of \<open>builtins.c\<close>; \<open>Keychords\<close>: \<open>keychords.c\<close>; \<open>Signal\<close>:
    \<open>signal_handler.c\<close>.
  \<^item> \<open>Logo\<close>: the boot logo, \<open>logo.c\<close>, which the boot sequence draws.
  \<^item> \<open>Init_Main\<close>: execution of commands, the kernel command line, the boot sequence and the loop of
    \<open>init.c\<close>; \<open>Boot\<close>: the properties of the process as a whole.
  \<^item> \<open>Devices\<close>: the events of \<open>devices.c\<close>, the nodes and links made for them; \<open>Firmware\<close>: the copy of
    firmware to a driver; \<open>Ueventd\<close>: the configuration of \<open>ueventd\<close> (\<open>ueventd.c\<close>, \<open>ueventd_parser.c\<close>),
    the cold boot and the main loop.  The configuration is a second interpretation of the locale of
    \<open>Line_Parser\<close>, and the locale \<open>event_client\<close> carries what the handler of an event promises over to
    the loops around it.
  \<^item> \<open>Retry\<close>: system calls that are made again while a signal interrupts them.  \<open>Bootchart\<close>:
    \<open>bootchart.c\<close> with its callers in \<open>init.c\<close>.
  \<^item> \<open>Asl\<close>: \<open>asl.c\<close>, the files below \<open>/proc/asl\<close>.
  \<^item> \<open>Hash_Block\<close>: the block functions of MD5, SHA-1, SHA-256 and SHA-512 (\<open>libbb/hash_md5_sha.c\<close>);
    \<open>Hash\<close>: the contexts that take a message in pieces.  What the contexts with blocks of 64 and of 128
    bytes share is the locale \<open>block_stream\<close>, interpreted for both.
  \<^item> \<open>Sha1sum\<close>: \<open>md5_sha1_sum.c\<close> and the routines of \<open>libbb\<close> that it calls.
  \<^item> This theory: the way of the security list from the kernel module to the verdict of \<open>sha1sum -c\<close>.

  \<^bold>\<open>How the components interact.\<close>  The loop \<open>main_step\<close> executes one command of the action at the
  head of the queue, restarts services whose waiting time is over, and polls three descriptors: the
  property socket, the pipe of the signal handler and the keychord device, which are registered when
  the boot actions have created them.  A write of a property queues the actions that
  wait for it; control properties start and stop services; the end of a process runs the
  \<open>onrestart\<close> commands of its service and may reboot the device; commands may do all of this.
  The security list is compiled into the kernel module, shown as \<open>/proc/asl/list\<close>, and checked by
  \<open>sha1sum -c\<close>, which the boot script calls.

  \<^bold>\<open>Conventions.\<close>  The static variables are fields of \<open>init_st\<close>; a routine is a function from the
  state to the state, with the result of the C function beside it where it has one.  Pointers to
  services and actions are positions in lists that only grow.  The kernel is the function \<open>os\<close> of
  the platform \<open>P\<close>: it maps the calls made so far and the next call to its answer.  The theorems
  hold for every platform, or name what they ask of it.  The field \<open>trace\<close> records the calls.
  A result \<open>None\<close> is a C program that is undefined or does not return: an access outside of an
  array, or an endless loop.  Loops that may wait for the kernel for ever are partial functions into
  \<open>option\<close>; all other loops are total functions, and no definition has a bound of its own on the
  number of iterations.  When the process ends (\<open>exit\<close>, a reboot, or a child in which \<open>execve\<close> was
  called) the field \<open>exited\<close> is set, and routines called later leave the state as it is.  Log output
  is left out, and allocation is taken to succeed.

  \<^bold>\<open>What is shown.\<close>
  Refinement: the in-place tokenizer against the tokenizer on lists, the property area and the
  environment table against a map, the execution of commands against first in, first out, the digests
  of messages in pieces against FIPS 180 (SHA-1) and against their block functions.
  Invariant: every reachable state of the process satisfies \<open>init_inv\<close> (the configuration, the
  queue, the property area, the environment and the services are well formed), and every step keeps
  what earlier steps promised (read-only properties, configuration, mapping of the area).
  Safety: a service process runs with the user and the groups of its configuration; a request of
  another process changes a property or a service only when the permission tables allow it.
  The verdict of \<open>sha1sum -c\<close>: the exit status and the reports say exactly which files match.
  Equivalence: the four variants of MD5.
  Round trips: what \<open>sha1sum\<close> prints and \<open>sha1sum -c\<close> accepts, printing and parsing of services, configurations, environment and property files.
  Behaviour on every branch: \<open>service_start\<close>, exits of services, failing writes of properties,
  commands, keychords.  Bounds: buffers, property area, serial numbers.  Liveness: \<open>wait_for_file\<close>
  returns, a critical service that keeps crashing reboots the device, and the loop never sleeps
  while there is work.
  Some theorems state where the code departs from its own documentation: escapes in the tokenizer,
  \<open>ioprio\<close>, \<open>setenv\<close>, \<open>setkey\<close>, \<open>symlink\<close> and \<open>log\<close>, rules for unknown flash
  partitions, short writes of firmware, the status of the security list, and the format of the list,
  which has one blank where \<open>sha1sum -c\<close> asks for two.

  \<^bold>\<open>Not modelled.\<close>  Code that is compiled only with SELinux.  \<open>Bootchart\<close> is compiled only with
  \<open>BOOTCHART\<close>, so the main loop of \<open>Init_Main\<close> is the one without it.  Log output and messages to
  standard error.  The other programs of busybox under \<open>src/external\<close>, which are vendored and which the
  boot script only calls, and the scripts themselves.
\<close>

section \<open>The security list from the kernel to the verdict\<close>

text \<open>
  The list that the build makes of the files \<open>files0\<close> is compiled into the kernel module, shown as
  \<open>/proc/asl/list\<close>, copied by the boot script and given to \<open>sha1sum -c\<close>.  A file is intact when it
  still has the digest it had when the list was made.
\<close>

definition intact :: "(string \<Rightarrow> string option) \<Rightarrow> (string \<Rightarrow> string option) \<Rightarrow> string \<Rightarrow> bool" where
  "intact files0 files n \<longleftrightarrow> map_option sha1_of (files n) = Some (sha1_of (the (files0 n)))"

definition file_report :: "(string \<Rightarrow> string option) \<Rightarrow> (string \<Rightarrow> string option) \<Rightarrow> int \<Rightarrow> string \<Rightarrow> syscall list" where
  "file_report files0 files tty n =
     (let m = (if intact files0 files n then '': OK'' @ [NL] else '': FAILED'' @ [NL])
      in Sys_write 1 (n @ m) # (if 0 \<le> tty then [Sys_write tty n, Sys_write tty m] else []))"

definition listable :: "string \<Rightarrow> bool" where
  "listable n \<longleftrightarrow> NL \<notin> set n \<and> NUL \<notin> set n \<and> CHR ''%'' \<notin> set n \<and> n \<noteq> ''-''"

lemma format_text_plain: "CHR ''%'' \<notin> set s \<Longrightarrow> format_text s = Some s"
  by (induction s) auto

lemma list_text_plain:
  assumes "list_all listable ns"
  shows "CHR ''%'' \<notin> set (text_of (map (sum_line files0) ns))"
proof -
  have "CHR ''%'' \<notin> set (sha1_of b)" for b using bin2hex_digits unfolding sha1_of_def by fastforce
  then show ?thesis using assms by (auto simp: text_of_def sum_line_def listable_def list_all_iff)
qed

lemma sum_line_verdict: "line_matches files (sum_line files0 n) = intact files0 files n"
  by (simp add: line_matches_def split_sum_line intact_def)

lemma sum_line_report:
  "\<not> flag_silent flags \<Longrightarrow> report_calls flags tty files (sum_line files0 n) = file_report files0 files tty n"
  by (simp add: report_calls_def split_sum_line sum_line_verdict file_report_def Let_def)

text \<open>
  C5. The security list does what it is for, when it is in the format of \<open>sha1sum\<close>.  The kernel shows the
  list of the files \<open>ns\<close> once and unchanged; \<open>sha1sum -c\<close>, given the text that was shown, exits with 0
  exactly when every listed file is intact, and reports each of them, in the order of the list, as \<open>OK\<close> or
  as \<open>FAILED\<close>: a file that was changed (to another digest) or removed is never reported as \<open>OK\<close>.
\<close>

theorem security_list_enforced:
  assumes "asl_list D = text_of (map (sum_line files0) ns)" "list_all listable ns"
    "settles P" "serves_files P files" "length (wbuffer c) = 64" "flag_check flags" "\<not> flag_silent flags"
    "serves_list P L (fst (the (seq_pass list_seq_ops D 0 ast))) st"
  shows "seq_pass list_seq_ops D 0 ast = Some (asl_list D, 1, ast\<lparr>seq_counter := seq_counter ast + 1\<rparr>) \<and>
    (\<exists>v. md5_sha1_sum_main P small c c' ''sha1sum'' flags [L] st =
       Some (if list_all (intact files0 files) ns then 0 else 1, st\<lparr>trace := v @ trace st\<rparr>) \<and>
     calls_of is_write v = concat (map (file_report files0 files (an_ret (console_opened P st))) ns))"
proof -
  let ?ls = "map (sum_line files0) ns"
  have shown: "seq_pass list_seq_ops D 0 ast = Some (asl_list D, 1, ast\<lparr>seq_counter := seq_counter ast + 1\<rparr>)"
    unfolding list_shown_once assms(1) using format_text_plain [OF list_text_plain [OF assms(2)]] by simp
  have "list_all line_ok ?ls" using assms(2) by (auto simp: list_all_iff listable_def intro!: sum_line_ok)
  moreover have "serves_list P L (text_of ?ls) st" using assms(8) shown assms(1) by simp
  ultimately have "\<exists>v. md5_sha1_sum_main P small c c' ''sha1sum'' flags [L] st =
      Some (if list_all (line_matches files) ?ls then 0 else 1, st\<lparr>trace := v @ trace st\<rparr>) \<and>
    calls_of is_write v = concat (map (report_calls flags (an_ret (console_opened P st)) files) ?ls)"
    using sum_verdict [OF assms(3-6)] by blast
  then show ?thesis using shown sum_line_report [OF assms(7)]
    by (simp add: list_all_length sum_line_verdict comp_def)
qed

definition example_list :: asl_data where
  "example_list = \<lparr>asl_disabled = False, asl_list = text_of [sum_line (two_files []) ''/a''], asl_permissions = [],
     asl_files_count = ''1'', asl_img_hash = [], proc_page = 4096\<rparr>"

theorem security_list_enforced_witness:
  "map_option fst (md5_sha1_sum_main (files_platform (asl_list example_list)) 1 blank_ctx blank_ctx512 ''sha1sum'' check_flags [''/list''] init_st0) =
     Some (if intact (two_files []) (two_files (asl_list example_list)) ''/a'' then 0 else 1) \<and>
   intact (two_files []) (two_files (asl_list example_list)) ''/a''"
proof -
  let ?t = "asl_list example_list"
  have t: "?t = text_of (map (sum_line (two_files [])) [''/a''])" "list_all listable [''/a'']"
    by (simp_all add: example_list_def listable_def)
  have "seq_pass list_seq_ops example_list 0 asl_st0 = Some (?t, 1, asl_st0\<lparr>seq_counter := seq_counter asl_st0 + 1\<rparr>)"
    unfolding list_shown_once t(1) using format_text_plain [OF list_text_plain [OF t(2)]] by simp
  then have "serves_list (files_platform ?t) ''/list'' (fst (the (seq_pass list_seq_ops example_list 0 asl_st0))) init_st0"
    using list_served by simp
  from security_list_enforced [OF t files_settles files_served _ _ _ this, of blank_ctx check_flags 1 blank_ctx512] show ?thesis
    by (auto simp: blank_ctx_def check_flags_def intact_def two_files_def)
qed

end
